(* ===== verification/Prelude.thy ===== *)
theory Prelude imports Main begin

text \<open>
  What every component shares: the representation of Go values (byte strings, times,
  64-bit integers, errors), the collections of rewrite rules the component proofs use,
  and generic lemmas on lists and maps.

  A Go \<^verbatim>\<open>string\<close> or \<^verbatim>\<open>[]byte\<close> is a HOL \<open>string\<close>, a list of 8-bit characters, so
  that \<open>length\<close> is Go's \<^verbatim>\<open>len\<close>.  A \<^verbatim>\<open>time.Time\<close> is the number of nanoseconds since Go's
  zero time (1 January of year 1, UTC), so that \<^verbatim>\<open>IsZero\<close> is the test for 0, and
  \<^verbatim>\<open>Before\<close>, \<^verbatim>\<open>After\<close> and \<^verbatim>\<open>Sub\<close> are the order and the difference of integers.
\<close>

named_theorems go_simps \<open>unfolding rules of the Go run-time operations\<close>
named_theorems frame_simps \<open>what an operation leaves unchanged\<close>
named_theorems wf_intros \<open>preservation of well-formedness by an operation\<close>

section \<open>Times and durations\<close>

type_synonym time = int
type_synonym duration = int

definition IsZero :: "time \<Rightarrow> bool" where
  "IsZero t \<longleftrightarrow> t = 0"

abbreviation zero_time :: time where "zero_time \<equiv> 0"
abbreviation second :: duration where "second \<equiv> 1000000000"
abbreviation minute :: duration where "minute \<equiv> 60000000000"
abbreviation hour :: duration where "hour \<equiv> 3600000000000"

section \<open>Machine integers\<close>

text \<open>
  Go's \<^verbatim>\<open>int64\<close> (and \<^verbatim>\<open>int\<close> on the 64-bit targets) wraps around; \<open>wrap64\<close> reduces an
  integer to its signed 64-bit representative.  Division truncates towards zero.
\<close>

definition wrap64 :: "int \<Rightarrow> int" where
  "wrap64 x = (x + 9223372036854775808) mod 18446744073709551616 - 9223372036854775808"

definition in_int64 :: "int \<Rightarrow> bool" where
  "in_int64 x \<longleftrightarrow> -9223372036854775808 \<le> x \<and> x \<le> 9223372036854775807"

definition go_quot :: "int \<Rightarrow> int \<Rightarrow> int" where
  "go_quot a b = sgn a * sgn b * (\<bar>a\<bar> div \<bar>b\<bar>)"

lemma wrap64_id: "in_int64 x \<Longrightarrow> wrap64 x = x"
  by (simp add: wrap64_def in_int64_def)

lemma wrap64_overflow:
  assumes "9223372036854775807 < x" and "x \<le> 18446744073709551614"
  shows "wrap64 x = x - 18446744073709551616"
proof -
  have "(x + 9223372036854775808) mod 18446744073709551616
      = (x + 9223372036854775808 - 18446744073709551616) mod 18446744073709551616"
    by (simp only: minus_mod_self2)
  also have "\<dots> = x + 9223372036854775808 - 18446744073709551616"
    using assms by (intro mod_pos_pos_trivial) linarith+
  finally show ?thesis by (simp add: wrap64_def)
qed

lemma wrap64_range: "in_int64 (wrap64 x)"
proof -
  have "0 \<le> (x + 9223372036854775808) mod 18446744073709551616"
    by simp
  moreover have "(x + 9223372036854775808) mod 18446744073709551616 < 18446744073709551616"
    by simp
  ultimately show ?thesis
    unfolding wrap64_def in_int64_def by linarith
qed

lemma go_quot_nonneg: "0 \<le> a \<Longrightarrow> 0 < b \<Longrightarrow> go_quot a b = a div b"
  by (cases "a = 0") (simp_all add: go_quot_def)

lemma go_quot_nonpos: "a < 0 \<Longrightarrow> 0 < b \<Longrightarrow> go_quot a b \<le> 0"
  by (simp add: go_quot_def pos_imp_zdiv_nonneg_iff)

section \<open>Lists\<close>

lemma distinct_hd_notin_tl: "distinct (x # xs) \<Longrightarrow> x \<notin> set xs"
  by simp

lemma filter_id_if: "(\<And>x. x \<in> set xs \<Longrightarrow> P x) \<Longrightarrow> filter P xs = xs"
  by (induction xs) auto

lemma filter_filter_and: "filter P (filter Q xs) = filter (\<lambda>x. Q x \<and> P x) xs"
  by simp

text \<open>A concatenation of terminated pieces can be read back if no piece holds the terminator.\<close>

lemma terminated_append_inj:
  assumes "x @ c # xs = y @ c # ys" and "c \<notin> set x" and "c \<notin> set y"
  shows "x = y \<and> xs = ys"
  using assms
proof (induction x arbitrary: y)
  case Nil
  then show ?case by (cases y) auto
next
  case (Cons a x)
  then show ?case by (cases y) auto
qed

lemma terminated_concat_inj:
  assumes "concat (map (\<lambda>l. l @ [c]) xs) = concat (map (\<lambda>l. l @ [c]) ys)"
    and "\<forall>l\<in>set xs. c \<notin> set l" and "\<forall>l\<in>set ys. c \<notin> set l"
  shows "xs = ys"
  using assms
proof (induction xs arbitrary: ys)
  case Nil
  then show ?case by (cases ys) auto
next
  case (Cons x xs)
  show ?case
  proof (cases ys)
    case Nil
    with Cons.prems(1) show ?thesis by simp
  next
    case ys: (Cons y ys')
    from Cons.prems(1) ys
    have "x @ c # concat (map (\<lambda>l. l @ [c]) xs) = y @ c # concat (map (\<lambda>l. l @ [c]) ys')"
      by simp
    with Cons.prems ys
    have "x = y \<and> concat (map (\<lambda>l. l @ [c]) xs) = concat (map (\<lambda>l. l @ [c]) ys')"
      by (intro terminated_append_inj [where c = c]) auto
    with Cons.IH [of ys'] Cons.prems ys show ?thesis by simp
  qed
qed

section \<open>Maps\<close>

text \<open>
  A Go map is a HOL map.  The order in which \<^verbatim>\<open>range\<close> visits a map is not determined:
  a loop whose result depends on it takes the visiting order as an argument, a list of
  keys, and \<open>range_order ks m\<close> says that \<open>ks\<close> is such an order.  A loop that only
  deletes entries is \<open>drop_where\<close>.
\<close>

definition range_order :: "'k list \<Rightarrow> ('k \<rightharpoonup> 'v) \<Rightarrow> bool" where
  "range_order ks m \<longleftrightarrow> distinct ks \<and> set ks = dom m"

definition drop_where :: "('v \<Rightarrow> bool) \<Rightarrow> ('k \<rightharpoonup> 'v) \<Rightarrow> ('k \<rightharpoonup> 'v)" where
  "drop_where P m = (\<lambda>k. case m k of None \<Rightarrow> None | Some v \<Rightarrow> if P v then None else Some v)"

definition map_values :: "('v \<Rightarrow> 'w) \<Rightarrow> ('k \<rightharpoonup> 'v) \<Rightarrow> ('k \<rightharpoonup> 'w)" where
  "map_values f m = (\<lambda>k. map_option f (m k))"

definition delete :: "'k \<Rightarrow> ('k \<rightharpoonup> 'v) \<Rightarrow> ('k \<rightharpoonup> 'v)" where
  "delete k m = m(k := None)"

lemma drop_where_Some [simp]:
  "drop_where P m k = Some v \<longleftrightarrow> m k = Some v \<and> \<not> P v"
  by (auto simp: drop_where_def split: option.splits)

lemma drop_where_None: "drop_where P m k = None \<longleftrightarrow> (\<forall>v. m k = Some v \<longrightarrow> P v)"
  by (auto simp: drop_where_def split: option.splits)

lemma drop_where_update:
  "drop_where P (m(k \<mapsto> v)) = (if P v then (drop_where P m)(k := None) else (drop_where P m)(k \<mapsto> v))"
  by (auto simp: drop_where_def fun_eq_iff)

lemma map_values_Some [simp]:
  "map_values f m k = Some w \<longleftrightarrow> (\<exists>v. m k = Some v \<and> w = f v)"
  by (auto simp: map_values_def)

lemma map_values_None [simp]: "map_values f m k = None \<longleftrightarrow> m k = None"
  by (simp add: map_values_def)

lemma map_values_update: "map_values f (m(k \<mapsto> v)) = (map_values f m)(k \<mapsto> f v)"
  by (auto simp: map_values_def fun_eq_iff)

lemma delete_apply [simp]: "delete k m k' = (if k' = k then None else m k')"
  by (simp add: delete_def)

lemma range_order_mem: "range_order ks m \<Longrightarrow> k \<in> set ks \<longleftrightarrow> m k \<noteq> None"
  by (auto simp: range_order_def)

lemma range_order_empty [simp]: "range_order [] Map.empty"
  by (simp add: range_order_def)

end
