(* ===== verification/Go_Text.thy ===== *)
theory Go_Text imports Prelude begin

text \<open>
  The operations of Go's \<^verbatim>\<open>strings\<close>, \<^verbatim>\<open>strconv\<close> and \<^verbatim>\<open>net\<close> packages that the program
  uses, on byte strings: prefixes, byte search, decimal numbers (\<^verbatim>\<open>fmt\<close>'s \<^verbatim>\<open>%d\<close> and
  \<^verbatim>\<open>Atoi\<close>) and \<^verbatim>\<open>net.SplitHostPort\<close>, with the laws the components rely on: printing
  a number and reading it back, and what characters a printed number can hold.
\<close>

abbreviation newline :: char where "newline \<equiv> CHR 0x0A"
abbreviation nul :: char where "nul \<equiv> CHR 0x00"

section \<open>Prefixes and searches\<close>

fun HasPrefix :: "string \<Rightarrow> string \<Rightarrow> bool" where
  "HasPrefix s [] = True"
| "HasPrefix [] (p # ps) = False"
| "HasPrefix (c # s) (p # ps) = (c = p \<and> HasPrefix s ps)"

definition TrimPrefix :: "string \<Rightarrow> string \<Rightarrow> string" where
  "TrimPrefix s p = (if HasPrefix s p then drop (length p) s else s)"

fun IndexByte :: "string \<Rightarrow> char \<Rightarrow> nat option" where
  "IndexByte [] c = None"
| "IndexByte (x # xs) c = (if x = c then Some 0 else map_option Suc (IndexByte xs c))"

fun LastIndexByte :: "string \<Rightarrow> char \<Rightarrow> nat option" where
  "LastIndexByte [] c = None"
| "LastIndexByte (x # xs) c =
     (case LastIndexByte xs c of Some i \<Rightarrow> Some (Suc i) | None \<Rightarrow> if x = c then Some 0 else None)"

lemma HasPrefix_append [simp]: "HasPrefix (p @ s) p"
  by (induction p) auto

lemma HasPrefix_iff: "HasPrefix s p \<longleftrightarrow> (\<exists>t. s = p @ t)"
proof (induction s p rule: HasPrefix.induct)
  case (3 c s p ps)
  then show ?case by auto
qed auto

lemma TrimPrefix_append [simp]: "TrimPrefix (p @ s) p = s"
  by (simp add: TrimPrefix_def)

lemma IndexByte_None: "IndexByte s c = None \<longleftrightarrow> c \<notin> set s"
  by (induction s) auto

lemma IndexByte_bound: "IndexByte s c = Some i \<Longrightarrow> i < length s \<and> s ! i = c"
  by (induction s arbitrary: i) (auto split: if_splits)

lemma LastIndexByte_bound: "LastIndexByte s c = Some i \<Longrightarrow> i < length s \<and> s ! i = c"
  by (induction s arbitrary: i) (auto split: option.splits if_splits)

section \<open>Decimal numbers\<close>

definition digit :: "nat \<Rightarrow> char" where
  "digit n = char_of (48 + n)"

definition is_digit :: "char \<Rightarrow> bool" where
  "is_digit c \<longleftrightarrow> 48 \<le> (of_char c :: nat) \<and> (of_char c :: nat) \<le> 57"

definition digit_value :: "char \<Rightarrow> nat" where
  "digit_value c = of_char c - 48"

fun nat_decimal :: "nat \<Rightarrow> string" where
  "nat_decimal n = (if n < 10 then [digit n] else nat_decimal (n div 10) @ [digit (n mod 10)])"

declare nat_decimal.simps [simp del]

definition digits_value :: "string \<Rightarrow> nat" where
  "digits_value s = foldl (\<lambda>a c. 10 * a + digit_value c) 0 s"

definition Itoa :: "int \<Rightarrow> string" where
  "Itoa i = (if i < 0 then CHR ''-'' # nat_decimal (nat (- i)) else nat_decimal (nat i))"

text \<open>\<^verbatim>\<open>strconv.Atoi\<close>: an optional sign, at least one digit, and a value that fits \<^verbatim>\<open>int\<close>.\<close>

definition Atoi :: "string \<Rightarrow> int option" where
  "Atoi s =
     (let neg = HasPrefix s ''-'';
          ds = (if neg \<or> HasPrefix s ''+'' then tl s else s);
          v = (if neg then - int (digits_value ds) else int (digits_value ds))
      in if ds \<noteq> [] \<and> list_all is_digit ds \<and> in_int64 v then Some v else None)"

lemma digit_facts:
  assumes "n < 10"
  shows "is_digit (digit n)" and "digit_value (digit n) = n"
  using assms by (simp_all add: is_digit_def digit_def digit_value_def)

lemma nat_decimal_digits: "list_all is_digit (nat_decimal n)"
proof (induction n rule: nat_decimal.induct)
  case (1 n)
  then show ?case
    by (cases "n < 10") (simp_all add: nat_decimal.simps [of n] digit_facts)
qed

lemma nat_decimal_nonempty [simp]: "nat_decimal n \<noteq> []"
  by (subst nat_decimal.simps) simp

lemma digits_value_snoc: "digits_value (s @ [c]) = 10 * digits_value s + digit_value c"
  by (simp add: digits_value_def)

lemma digits_value_decimal [simp]: "digits_value (nat_decimal n) = n"
proof (induction n rule: nat_decimal.induct)
  case (1 n)
  then show ?case
  proof (cases "n < 10")
    case True
    then show ?thesis
      by (simp add: nat_decimal.simps [of n] digits_value_def digit_facts)
  next
    case False
    then have "digits_value (nat_decimal n) = 10 * (n div 10) + n mod 10"
      using 1 by (simp add: nat_decimal.simps [of n] digits_value_snoc digit_facts)
    then show ?thesis by simp
  qed
qed

lemma digit_not_sign: "is_digit c \<Longrightarrow> c \<noteq> CHR ''-'' \<and> c \<noteq> CHR ''+'' \<and> c \<noteq> newline"
  by (auto simp: is_digit_def)

lemma nat_decimal_hd: "nat_decimal n = c # cs \<Longrightarrow> is_digit c"
  using nat_decimal_digits [of n] by simp

lemma nat_decimal_chars: "c \<in> set (nat_decimal n) \<Longrightarrow> is_digit c"
  using nat_decimal_digits [of n] by (simp add: list_all_iff)

lemma Itoa_no_newline: "newline \<notin> set (Itoa i)"
  using nat_decimal_chars digit_not_sign by (auto simp: Itoa_def)

lemma Itoa_inj: "Itoa i = Itoa j \<longleftrightarrow> i = j"
proof
  assume eq: "Itoa i = Itoa j"
  have sign: "nat_decimal m \<noteq> CHR ''-'' # cs" for m cs
    using nat_decimal_hd [of m] digit_not_sign by blast
  have inj: "nat_decimal m = nat_decimal n \<Longrightarrow> m = n" for m n
    by (metis digits_value_decimal)
  show "i = j"
    using eq sign [of "nat j"] sign [of "nat i"] sign [of "nat j", symmetric]
    by (auto simp: Itoa_def eq_nat_nat_iff split: if_splits dest!: inj)
qed simp

lemma Atoi_Itoa: "in_int64 i \<Longrightarrow> Atoi (Itoa i) = Some i"
proof -
  assume range: "in_int64 i"
  show ?thesis
  proof (cases "i < 0")
    case True
    then show ?thesis
      using range nat_decimal_digits [of "nat (- i)"]
      by (simp add: Atoi_def Itoa_def Let_def)
  next
    case False
    obtain c cs where dec: "nat_decimal (nat i) = c # cs"
      by (cases "nat_decimal (nat i)") auto
    then have "c \<noteq> CHR ''-'' \<and> c \<noteq> CHR ''+''"
      using nat_decimal_hd digit_not_sign by blast
    moreover have "digits_value (c # cs) = nat i"
      using dec [symmetric] by simp
    moreover have "list_all is_digit (c # cs)"
      using nat_decimal_digits [of "nat i"] dec by simp
    ultimately show ?thesis
      using range False by (simp add: Atoi_def Itoa_def Let_def dec)
  qed
qed

section \<open>Network addresses\<close>

text \<open>
  \<^verbatim>\<open>net.SplitHostPort\<close>: the host of \<open>host:port\<close> or \<open>[host]:port\<close>, \<open>None\<close> where it
  returns an error (no port, too many colons, stray brackets).
\<close>

definition split_host :: "string \<Rightarrow> string option" where
  "split_host hp =
     (case LastIndexByte hp (CHR '':'') of
        None \<Rightarrow> None
      | Some i \<Rightarrow>
          if HasPrefix hp ''['' then
            (case IndexByte hp (CHR '']'') of
               None \<Rightarrow> None
             | Some e \<Rightarrow>
                 if e + 1 = i \<and> CHR ''['' \<notin> set (drop 1 hp) \<and> CHR '']'' \<notin> set (drop (e + 1) hp)
                 then Some (take (e - 1) (drop 1 hp)) else None)
          else
            let host = take i hp
            in if CHR '':'' \<in> set host \<or> CHR ''['' \<in> set hp \<or> CHR '']'' \<in> set hp
               then None else Some host)"

lemma split_host_examples:
  "split_host ''127.0.0.1:5000'' = Some ''127.0.0.1''"
  "split_host ''[::1]:5000'' = Some ''::1''"
  "split_host ''::1'' = None"
  by (simp_all add: split_host_def)

end
