(* ===== verification/Utf8.thy ===== *)
theory Utf8 imports Go_Text begin

text \<open>
  Go's view of a byte string as UTF-8: \<^verbatim>\<open>utf8.DecodeRuneInString\<close> with its accept ranges,
  the encoder, the \<^verbatim>\<open>range\<close> loop over the runes of a string, \<^verbatim>\<open>strings.ToValidUTF8\<close>,
  \<^verbatim>\<open>strings.Map\<close> and \<^verbatim>\<open>unicode.IsControl\<close>.  The lemmas say how decoding behaves on
  concatenations of valid pieces, which is what the sanitising and truncating code of the
  components needs.
\<close>

section \<open>Decoding and encoding one rune\<close>

type_synonym rune = nat

abbreviation rune_error :: rune where "rune_error \<equiv> 0xFFFD"

definition byte_in :: "nat \<Rightarrow> nat \<Rightarrow> nat \<Rightarrow> bool" where
  "byte_in lo hi b \<longleftrightarrow> lo \<le> b \<and> b \<le> hi"

abbreviation cont :: "nat \<Rightarrow> bool" where "cont \<equiv> byte_in 0x80 0xBF"

text \<open>The range the second byte must fall in, by the first byte.\<close>

definition second_lo :: "nat \<Rightarrow> nat" where
  "second_lo b0 = (if b0 = 0xE0 then 0xA0 else if b0 = 0xF0 then 0x90 else 0x80)"

definition second_hi :: "nat \<Rightarrow> nat" where
  "second_hi b0 = (if b0 = 0xED then 0x9F else if b0 = 0xF4 then 0x8F else 0xBF)"

abbreviation second_ok :: "nat \<Rightarrow> nat \<Rightarrow> bool" where
  "second_ok b0 \<equiv> byte_in (second_lo b0) (second_hi b0)"

definition rune_width :: "nat list \<Rightarrow> nat" where
  "rune_width bs =
     (case bs of
        b0 # b1 # b2 # b3 # _ \<Rightarrow>
          if b0 < 0x80 then 1
          else if byte_in 0xC2 0xDF b0 \<and> cont b1 then 2
          else if byte_in 0xE0 0xEF b0 \<and> second_ok b0 b1 \<and> cont b2 then 3
          else if byte_in 0xF0 0xF4 b0 \<and> second_ok b0 b1 \<and> cont b2 \<and> cont b3 then 4
          else 0
      | _ \<Rightarrow> 0)"

text \<open>
  \<open>decode_rune s\<close> is the pair of rune and width; a byte that starts no valid sequence
  decodes to the replacement character with width 1, the empty string with width 0.
  A missing byte is read as 0, which no continuation range accepts.
\<close>

definition peek :: "string \<Rightarrow> nat \<Rightarrow> nat" where
  "peek s i = (if i < length s then of_char (s ! i) else 0)"

definition decode_width :: "string \<Rightarrow> nat" where
  "decode_width s = rune_width [peek s 0, peek s 1, peek s 2, peek s 3]"

definition decode_rune :: "string \<Rightarrow> rune \<times> nat" where
  "decode_rune s =
     (if s = [] then (rune_error, 0)
      else
        let b0 = peek s 0; b1 = peek s 1; b2 = peek s 2; b3 = peek s 3; w = decode_width s
        in if w = 1 then (b0, 1)
           else if w = 2 then ((b0 - 0xC0) * 64 + (b1 - 0x80), 2)
           else if w = 3 then ((b0 - 0xE0) * 4096 + (b1 - 0x80) * 64 + (b2 - 0x80), 3)
           else if w = 4 then
             ((b0 - 0xF0) * 262144 + (b1 - 0x80) * 4096 + (b2 - 0x80) * 64 + (b3 - 0x80), 4)
           else (rune_error, 1))"

definition encode_rune :: "rune \<Rightarrow> string" where
  "encode_rune r =
     (let r = (if r > 0x10FFFF \<or> byte_in 0xD800 0xDFFF r then rune_error else r)
      in map char_of
        (if r < 0x80 then [r]
         else if r < 0x800 then [0xC0 + r div 64, 0x80 + r mod 64]
         else if r < 0x10000 then [0xE0 + r div 4096, 0x80 + r div 64 mod 64, 0x80 + r mod 64]
         else [0xF0 + r div 262144, 0x80 + r div 4096 mod 64, 0x80 + r div 64 mod 64, 0x80 + r mod 64]))"

text \<open>\<^verbatim>\<open>unicode.IsControl\<close>: the category Cc, which lies within Latin-1.\<close>

definition IsControl :: "rune \<Rightarrow> bool" where
  "IsControl r \<longleftrightarrow> r < 0x20 \<or> byte_in 0x7F 0x9F r"

section \<open>The runes of a string\<close>

lemma decode_width_le4: "decode_width s \<le> 4"
  by (simp add: decode_width_def rune_width_def split: list.splits)

lemma peek_pos: "peek s i \<noteq> 0 \<Longrightarrow> i < length s"
  by (simp add: peek_def split: if_splits)

lemma decode_width_length: "s \<noteq> [] \<Longrightarrow> decode_width s \<le> length s"
proof -
  assume "s \<noteq> []"
  then have "0 < length s" by simp
  moreover have "2 \<le> decode_width s \<longrightarrow> peek s 1 \<noteq> 0"
    and "3 \<le> decode_width s \<longrightarrow> peek s 2 \<noteq> 0"
    and "4 \<le> decode_width s \<longrightarrow> peek s 3 \<noteq> 0"
    by (auto simp: decode_width_def rune_width_def byte_in_def second_lo_def)
  ultimately show ?thesis
    using decode_width_le4 [of s] peek_pos [of s 1] peek_pos [of s 2] peek_pos [of s 3]
    by linarith
qed

lemma decode_width_cases:
  "decode_width s = 0 \<or> decode_width s = 1 \<or> decode_width s = 2 \<or> decode_width s = 3 \<or> decode_width s = 4"
  using decode_width_le4 [of s] by linarith

lemma decode_rune_width:
  assumes "s \<noteq> []"
  shows "snd (decode_rune s) = (if decode_width s = 0 then 1 else decode_width s)"
proof -
  have "snd (decode_rune s) = (let w = decode_width s in
      if w = 1 then 1 else if w = 2 then 2 else if w = 3 then 3 else if w = 4 then 4 else 1)"
    using assms by (simp only: decode_rune_def Let_def if_False snd_conv if_distrib [of snd])
  then show ?thesis using decode_width_cases [of s] by (simp add: Let_def) linarith
qed

lemma decode_rune_width_pos: "s \<noteq> [] \<Longrightarrow> 0 < snd (decode_rune s)"
  by (simp add: decode_rune_width)

lemma decode_rune_width_length: "s \<noteq> [] \<Longrightarrow> snd (decode_rune s) \<le> length s"
  using decode_width_length [of s] by (cases s) (auto simp: decode_rune_width)

text \<open>The \<^verbatim>\<open>range\<close> loop: each rune with the bytes it was read from.\<close>

function runes :: "string \<Rightarrow> (rune \<times> string) list" where
  "runes s =
     (if s = [] then []
      else (fst (decode_rune s), take (snd (decode_rune s)) s) # runes (drop (snd (decode_rune s)) s))"
  by pat_completeness auto
termination
  by (relation "measure length") (simp_all add: decode_rune_width_pos)

declare runes.simps [simp del]

definition invalid_piece :: "rune \<times> string \<Rightarrow> bool" where
  "invalid_piece p \<longleftrightarrow> fst p = rune_error \<and> length (snd p) = 1"

definition valid_utf8 :: "string \<Rightarrow> bool" where
  "valid_utf8 s \<longleftrightarrow> list_all (\<lambda>p. \<not> invalid_piece p) (runes s)"

lemma runes_Nil [simp]: "runes [] = []"
  by (simp add: runes.simps)

lemma runes_bytes: "concat (map snd (runes s)) = s"
proof (induction s rule: runes.induct)
  case (1 s)
  show ?case
  proof (cases "s = []")
    case False
    then show ?thesis
      using "1.IH" [OF False] by (simp add: runes.simps [of s])
  qed simp
qed

section \<open>Repairing and mapping\<close>

text \<open>
  \<^verbatim>\<open>strings.ToValidUTF8\<close> replaces each run of invalid bytes by one copy of the
  replacement; the flag says whether the byte before was invalid.
\<close>

fun to_valid :: "string \<Rightarrow> bool \<Rightarrow> (rune \<times> string) list \<Rightarrow> string" where
  "to_valid rep bad [] = []"
| "to_valid rep bad (p # ps) =
     (if invalid_piece p then (if bad then [] else rep) @ to_valid rep True ps
      else snd p @ to_valid rep False ps)"

definition ToValidUTF8 :: "string \<Rightarrow> string \<Rightarrow> string" where
  "ToValidUTF8 s rep = to_valid rep False (runes s)"

definition replacement :: string where
  "replacement = map char_of [0xEF, 0xBF, 0xBD :: nat]"

text \<open>\<^verbatim>\<open>strings.Map\<close>: a mapped value \<open>None\<close> (a negative rune) drops the rune.\<close>

definition strings_Map :: "(rune \<Rightarrow> rune option) \<Rightarrow> string \<Rightarrow> string" where
  "strings_Map f s =
     concat (map (\<lambda>p. case f (fst p) of None \<Rightarrow> [] | Some r \<Rightarrow> encode_rune r) (runes s))"

section \<open>Decoding is local, and encoding inverts it\<close>

lemma peek_append: "i < length s \<Longrightarrow> peek (s @ t) i = peek s i"
  by (simp add: peek_def nth_append)

lemma peek_take: "i < w \<Longrightarrow> w \<le> length s \<Longrightarrow> peek (take w s) i = peek s i"
  by (simp add: peek_def)

lemma rune_width_cong:
  assumes "rune_width [a0, a1, a2, a3] = w" and "w \<noteq> 0" and "b0 = a0"
    and "1 < w \<longrightarrow> b1 = a1" and "2 < w \<longrightarrow> b2 = a2" and "3 < w \<longrightarrow> b3 = a3"
  shows "rune_width [b0, b1, b2, b3] = w"
  using assms by (auto simp: rune_width_def byte_in_def split: if_splits)

lemma decode_width_local:
  assumes "s \<noteq> []" and w: "decode_width s \<noteq> 0"
  shows "decode_width (take (decode_width s) s @ t) = decode_width s"
proof -
  let ?w = "decode_width s" and ?s = "take (decode_width s) s @ t"
  have len: "?w \<le> length s" using assms(1) by (rule decode_width_length)
  have same: "i < ?w \<Longrightarrow> peek ?s i = peek s i" for i
    using len by (simp add: peek_append peek_take)
  have "rune_width [peek ?s 0, peek ?s 1, peek ?s 2, peek ?s 3] = ?w"
    by (rule rune_width_cong [OF decode_width_def [symmetric] w])
       (use w in \<open>auto intro: same\<close>)
  then show ?thesis by (simp add: decode_width_def)
qed

lemma decode_rune_local:
  assumes "s \<noteq> []" and w: "decode_width s \<noteq> 0"
  shows "decode_rune (take (decode_width s) s @ t) = decode_rune s"
proof -
  let ?w = "decode_width s" and ?s = "take (decode_width s) s @ t"
  have len: "?w \<le> length s" using assms(1) by (rule decode_width_length)
  have same: "i < ?w \<Longrightarrow> peek ?s i = peek s i" for i
    using len by (simp add: peek_append peek_take)
  have ne: "?s \<noteq> []" using assms by (cases s) auto
  show ?thesis
    using decode_width_cases [of s] w same decode_width_local [OF assms, of t] ne assms(1)
    by (elim disjE) (simp_all add: decode_rune_def Let_def)
qed

lemma rune_width_bytes:
  "rune_width [b0, b1, b2, b3] = 1 \<Longrightarrow> b0 < 0x80"
  "rune_width [b0, b1, b2, b3] = 2 \<Longrightarrow> byte_in 0xC2 0xDF b0 \<and> cont b1"
  "rune_width [b0, b1, b2, b3] = 3 \<Longrightarrow> byte_in 0xE0 0xEF b0 \<and> second_ok b0 b1 \<and> cont b2"
  "rune_width [b0, b1, b2, b3] = 4 \<Longrightarrow>
     byte_in 0xF0 0xF4 b0 \<and> second_ok b0 b1 \<and> cont b2 \<and> cont b3"
  by (auto simp: rune_width_def split: if_splits)

text \<open>The four arithmetic facts behind the encoder, one per width.\<close>

lemma encode_value1: "b < 0x80 \<Longrightarrow> encode_rune b = map char_of [b]"
  by (simp add: encode_rune_def byte_in_def)

lemma encode_value2:
  assumes "byte_in 0xC2 0xDF b0" and "cont b1"
  shows "encode_rune ((b0 - 0xC0) * 64 + (b1 - 0x80)) = map char_of [b0, b1]"
proof -
  obtain x y where "b0 = 0xC0 + x" and "b1 = 0x80 + y" and "2 \<le> x" "x < 32" "y < 64"
    using assms by (auto simp: byte_in_def le_iff_add)
  then show ?thesis by (simp add: encode_rune_def byte_in_def Let_def)
qed

lemma radix64_step:
  fixes q z :: nat
  assumes "z < 64"
  shows "(q * 64 + z) div 64 = q" and "(q * 64 + z) mod 64 = z"
  using assms by simp_all

lemma radix64_3:
  fixes x y z :: nat
  assumes "y < 64" and "z < 64"
  shows "(x * 4096 + y * 64 + z) div 4096 = x \<and> (x * 4096 + y * 64 + z) div 64 mod 64 = y
    \<and> (x * 4096 + y * 64 + z) mod 64 = z"
proof -
  have r: "x * 4096 + y * 64 + z = (x * 64 + y) * 64 + z" by simp
  have "(x * 4096 + y * 64 + z) div 64 = x * 64 + y" "(x * 4096 + y * 64 + z) mod 64 = z"
    unfolding r using assms(2) by (rule radix64_step)+
  moreover have "(x * 4096 + y * 64 + z) div 4096 = (x * 4096 + y * 64 + z) div 64 div 64"
    using div_mult2_eq [of "x * 4096 + y * 64 + z" 64 64] by simp
  ultimately show ?thesis
    using radix64_step [OF assms(1), of x] by simp
qed

lemma radix64_4:
  fixes x y z u :: nat
  assumes "y < 64" and "z < 64" and "u < 64"
  defines "r \<equiv> x * 262144 + y * 4096 + z * 64 + u"
  shows "r div 262144 = x \<and> r div 4096 mod 64 = y \<and> r div 64 mod 64 = z \<and> r mod 64 = u"
proof -
  have r: "r = (x * 4096 + y * 64 + z) * 64 + u" by (simp add: r_def)
  have low: "r div 64 = x * 4096 + y * 64 + z" "r mod 64 = u"
    unfolding r using assms(3) by (rule radix64_step)+
  have "r div 4096 = r div 64 div 64" "r div 262144 = r div 64 div 4096"
    using div_mult2_eq [of r 64 64] div_mult2_eq [of r 64 4096] by simp_all
  moreover have "(x * 4096 + y * 64 + z) div 64 = x * 64 + y"
    using radix64_step [OF assms(2), of "x * 64 + y"] by (simp add: algebra_simps)
  ultimately show ?thesis
    using low radix64_3 [OF assms(1,2), of x] by simp
qed

lemma encode_value3:
  assumes "byte_in 0xE0 0xEF b0" and "second_ok b0 b1" and "cont b2"
  shows "encode_rune ((b0 - 0xE0) * 4096 + (b1 - 0x80) * 64 + (b2 - 0x80)) = map char_of [b0, b1, b2]"
proof -
  obtain x z where b: "b0 = 0xE0 + x" "b2 = 0x80 + z" and bound: "x < 16" "z < 64"
    using assms by (auto simp: byte_in_def le_iff_add)
  obtain y where y: "b1 = 0x80 + y" "y < 64"
    using assms(2) by (auto simp: byte_in_def second_lo_def second_hi_def le_iff_add split: if_splits)
  have low: "x = 0 \<Longrightarrow> 32 \<le> y" and high: "x = 13 \<Longrightarrow> y < 32"
    using assms(2) b y by (auto simp: byte_in_def second_lo_def second_hi_def)
  have big: "0x800 \<le> x * 4096 + y * 64 + z"
    using low by (cases "x = 0") auto
  have surrogate: "\<not> byte_in 0xD800 0xDFFF (x * 4096 + y * 64 + z)"
  proof -
    consider "x \<le> 12" | "x = 13" | "14 \<le> x" by linarith
    then show ?thesis using high y(2) bound(2) by cases (auto simp: byte_in_def)
  qed
  have "(x * 4096 + y * 64 + z) div 4096 = x" "(x * 4096 + y * 64 + z) div 64 mod 64 = y"
    "(x * 4096 + y * 64 + z) mod 64 = z"
    using radix64_3 [OF y(2) bound(2), of x] by simp_all
  then show ?thesis
    using big surrogate bound y(2) by (simp add: encode_rune_def Let_def b y(1))
qed

lemma encode_value4:
  assumes "byte_in 0xF0 0xF4 b0" and "second_ok b0 b1" and "cont b2" and "cont b3"
  shows "encode_rune ((b0 - 0xF0) * 262144 + (b1 - 0x80) * 4096 + (b2 - 0x80) * 64 + (b3 - 0x80))
       = map char_of [b0, b1, b2, b3]"
proof -
  obtain x z u where b: "b0 = 0xF0 + x" "b2 = 0x80 + z" "b3 = 0x80 + u"
    and bound: "x \<le> 4" "z < 64" "u < 64"
    using assms that [of "b0 - 0xF0" "b2 - 0x80" "b3 - 0x80"] by (auto simp: byte_in_def)
  obtain y where y: "b1 = 0x80 + y" "y < 64"
    using assms(2) by (auto simp: byte_in_def second_lo_def second_hi_def le_iff_add split: if_splits)
  have low: "x = 0 \<Longrightarrow> 16 \<le> y" and high: "x = 4 \<Longrightarrow> y < 16"
    using assms(2) b y by (auto simp: byte_in_def second_lo_def second_hi_def)
  let ?r = "x * 262144 + y * 4096 + z * 64 + u"
  have big: "0x10000 \<le> ?r" using low by (cases "x = 0") auto
  have small: "?r \<le> 0x10FFFF" using high bound y(2) by (cases "x = 4") auto
  have "?r div 262144 = x" "?r div 4096 mod 64 = y" "?r div 64 mod 64 = z" "?r mod 64 = u"
    using radix64_4 [OF y(2) bound(2,3), of x] by simp_all
  then show ?thesis
    using big small by (simp add: encode_rune_def Let_def b y(1) byte_in_def)
qed

lemma take_peek: "w \<le> length s \<Longrightarrow> take w s = map (\<lambda>i. char_of (peek s i)) [0..<w]"
  by (rule nth_equalityI) (simp_all add: peek_def)

lemma encode_decode:
  assumes ne: "s \<noteq> []" and w: "decode_width s \<noteq> 0"
  shows "encode_rune (fst (decode_rune s)) = take (decode_width s) s"
proof -
  have bytes: "take (decode_width s) s = map (\<lambda>i. char_of (peek s i)) [0..<decode_width s]"
    using decode_width_length [OF ne] by (rule take_peek)
  have up: "[0..<2] = [0, 1 :: nat]" "[0..<3] = [0, 1, 2 :: nat]" "[0..<4] = [0, 1, 2, 3 :: nat]"
    by (simp_all add: upt_rec)
  consider "decode_width s = 1" | "decode_width s = 2" | "decode_width s = 3" | "decode_width s = 4"
    using decode_width_cases [of s] w by blast
  then show ?thesis
  proof cases
    case 1
    then have "fst (decode_rune s) = peek s 0"
      using ne by (simp add: decode_rune_def Let_def)
    moreover have "peek s 0 < 0x80"
      using 1 by (intro rune_width_bytes(1)) (simp add: decode_width_def)
    ultimately show ?thesis using bytes by (simp add: 1 encode_value1)
  next
    case 2
    then have "fst (decode_rune s) = (peek s 0 - 0xC0) * 64 + (peek s 1 - 0x80)"
      using ne by (simp add: decode_rune_def Let_def)
    moreover have "byte_in 0xC2 0xDF (peek s 0) \<and> cont (peek s 1)"
      using 2 by (intro rune_width_bytes(2)) (simp add: decode_width_def)
    ultimately show ?thesis using bytes by (simp add: 2 up encode_value2)
  next
    case 3
    then have "fst (decode_rune s)
        = (peek s 0 - 0xE0) * 4096 + (peek s 1 - 0x80) * 64 + (peek s 2 - 0x80)"
      using ne by (simp add: decode_rune_def Let_def)
    moreover have "byte_in 0xE0 0xEF (peek s 0) \<and> second_ok (peek s 0) (peek s 1) \<and> cont (peek s 2)"
      using 3 by (intro rune_width_bytes(3)) (simp add: decode_width_def)
    ultimately show ?thesis using bytes by (simp add: 3 up encode_value3)
  next
    case 4
    then have "fst (decode_rune s) = (peek s 0 - 0xF0) * 262144 + (peek s 1 - 0x80) * 4096
        + (peek s 2 - 0x80) * 64 + (peek s 3 - 0x80)"
      using ne by (simp add: decode_rune_def Let_def)
    moreover have "byte_in 0xF0 0xF4 (peek s 0) \<and> second_ok (peek s 0) (peek s 1)
        \<and> cont (peek s 2) \<and> cont (peek s 3)"
      using 4 by (intro rune_width_bytes(4)) (simp add: decode_width_def)
    ultimately show ?thesis using bytes by (simp add: 4 up encode_value4)
  qed
qed

section \<open>Valid pieces\<close>

text \<open>
  A good piece is a rune with its own encoding.  A string put together from good pieces
  is read back as exactly these pieces, so a filter on pieces is a filter on the runes of
  the resulting string.
\<close>

definition good_piece :: "rune \<times> string \<Rightarrow> bool" where
  "good_piece p \<longleftrightarrow> snd p \<noteq> [] \<and> decode_width (snd p) = length (snd p) \<and> fst p = fst (decode_rune (snd p))"

lemma good_piece_head:
  assumes "s \<noteq> []" and "decode_width s \<noteq> 0"
  shows "good_piece (fst (decode_rune s), take (decode_width s) s)"
proof -
  have "decode_width (take (decode_width s) s) = decode_width s"
    using decode_width_local [OF assms, of "[]"] by simp
  moreover have "decode_rune (take (decode_width s) s) = decode_rune s"
    using decode_rune_local [OF assms, of "[]"] by simp
  ultimately show ?thesis
    using assms decode_width_length [OF assms(1)] by (simp add: good_piece_def)
qed

lemma invalid_piece_head:
  assumes "s \<noteq> []"
  shows "invalid_piece (fst (decode_rune s), take (snd (decode_rune s)) s) \<longleftrightarrow> decode_width s = 0"
proof -
  have "decode_width s = 1 \<Longrightarrow> fst (decode_rune s) < 0x80"
    using assms rune_width_bytes(1) [of "peek s 0" "peek s 1" "peek s 2" "peek s 3"]
    by (simp add: decode_rune_def Let_def decode_width_def)
  moreover have "decode_width s = 0 \<Longrightarrow> fst (decode_rune s) = rune_error"
    using assms by (simp add: decode_rune_def Let_def)
  ultimately show ?thesis
    using decode_width_length [OF assms] assms
    by (cases "decode_width s = 0"; cases "decode_width s = 1")
       (auto simp: invalid_piece_def decode_rune_width Suc_le_eq)
qed

lemma runes_pieces: "p \<in> set (runes s) \<Longrightarrow> good_piece p \<or> (invalid_piece p \<and> snd p \<noteq> [])"
proof (induction s rule: runes.induct)
  case (1 s)
  then have ne: "s \<noteq> []" by auto
  show ?case
  proof (cases "p \<in> set (runes (drop (snd (decode_rune s)) s))")
    case True
    then show ?thesis using "1.IH" [OF ne] by blast
  next
    case False
    then have p: "p = (fst (decode_rune s), take (snd (decode_rune s)) s)"
      using "1.prems" ne by (simp add: runes.simps [of s])
    show ?thesis
    proof (cases "decode_width s = 0")
      case True
      then have "invalid_piece p" using p invalid_piece_head [OF ne] by simp
      then show ?thesis by (cases "snd p") (auto simp: invalid_piece_def)
    next
      case False
      then show ?thesis
        using p good_piece_head [OF ne False] ne by (simp add: decode_rune_width)
    qed
  qed
qed

lemma good_not_invalid: "good_piece p \<Longrightarrow> \<not> invalid_piece p"
  using invalid_piece_head [of "snd p"]
  by (cases p) (auto simp: good_piece_def decode_rune_width)

lemma runes_good_append:
  assumes "good_piece p"
  shows "runes (snd p @ s) = p # runes s"
proof -
  let ?b = "snd p"
  have b: "?b \<noteq> []" "decode_width ?b = length ?b" "fst p = fst (decode_rune ?b)"
    using assms by (simp_all add: good_piece_def)
  then have w: "decode_width ?b \<noteq> 0" by simp
  have "decode_width (?b @ s) = length ?b" "decode_rune (?b @ s) = decode_rune ?b"
    using decode_width_local [OF b(1) w, of s] decode_rune_local [OF b(1) w, of s] b(2) by simp_all
  then have "snd (decode_rune (?b @ s)) = length ?b" "fst (decode_rune (?b @ s)) = fst p"
    using b decode_rune_width [OF b(1)] by simp_all
  then show ?thesis using b(1) by (simp add: runes.simps [of "?b @ s"])
qed

lemma runes_concat: "list_all good_piece ps \<Longrightarrow> runes (concat (map snd ps)) = ps"
  by (induction ps) (simp_all add: runes_good_append)

lemma good_piece_encode: "good_piece p \<Longrightarrow> encode_rune (fst p) = snd p"
  using encode_decode [of "snd p"] by (simp add: good_piece_def)

lemma valid_utf8_iff: "valid_utf8 s \<longleftrightarrow> list_all good_piece (runes s)"
  using runes_pieces good_not_invalid by (fastforce simp: valid_utf8_def list_all_iff)

lemma good_replacement: "good_piece (rune_error, replacement)"
  by (simp add: good_piece_def replacement_def decode_width_def decode_rune_def peek_def
      rune_width_def byte_in_def second_lo_def second_hi_def Let_def)

text \<open>The pieces of the repaired text: a run of invalid bytes is one replacement rune.\<close>

fun repaired :: "bool \<Rightarrow> (rune \<times> string) list \<Rightarrow> (rune \<times> string) list" where
  "repaired bad [] = []"
| "repaired bad (p # ps) =
     (if invalid_piece p then (if bad then [] else [(rune_error, replacement)]) @ repaired True ps
      else p # repaired False ps)"

lemma to_valid_repaired: "to_valid replacement bad ps = concat (map snd (repaired bad ps))"
  by (induction ps arbitrary: bad) auto

lemma repaired_good:
  "(\<And>p. p \<in> set ps \<Longrightarrow> good_piece p \<or> invalid_piece p) \<Longrightarrow> list_all good_piece (repaired bad ps)"
  by (induction ps arbitrary: bad) (auto simp: good_replacement)

lemma runes_ToValid: "runes (ToValidUTF8 v replacement) = repaired False (runes v)"
  unfolding ToValidUTF8_def to_valid_repaired
  by (rule runes_concat, rule repaired_good) (use runes_pieces in blast)

lemma repaired_valid: "list_all (\<lambda>p. \<not> invalid_piece p) ps \<Longrightarrow> repaired bad ps = ps"
  by (induction ps arbitrary: bad) auto

lemma valid_concat_good: "list_all good_piece ps \<Longrightarrow> valid_utf8 (concat (map snd ps))"
  by (simp add: valid_utf8_iff runes_concat)

lemma valid_ToValid: "valid_utf8 (ToValidUTF8 v replacement)"
  unfolding ToValidUTF8_def to_valid_repaired
  by (rule valid_concat_good, rule repaired_good) (use runes_pieces in blast)

lemma ToValid_id: "valid_utf8 v \<Longrightarrow> ToValidUTF8 v replacement = v"
  unfolding ToValidUTF8_def to_valid_repaired by (simp add: valid_utf8_def repaired_valid runes_bytes)

section \<open>Encoding any rune\<close>

definition valid_rune :: "rune \<Rightarrow> bool" where
  "valid_rune r \<longleftrightarrow> r \<le> 0x10FFFF \<and> \<not> byte_in 0xD800 0xDFFF r"

lemma encode_invalid: "\<not> valid_rune r \<Longrightarrow> encode_rune r = replacement"
  by (auto simp: valid_rune_def encode_rune_def replacement_def byte_in_def)

lemma good_piece_valid_rune: "good_piece p \<Longrightarrow> valid_rune (fst p)"
proof (rule ccontr)
  assume p: "good_piece p" and bad: "\<not> valid_rune (fst p)"
  then have "snd p = replacement" using good_piece_encode encode_invalid by metis
  then have "fst p = rune_error" using p good_replacement by (simp add: good_piece_def)
  then show False using bad by (simp add: valid_rune_def byte_in_def)
qed

lemma radix64: "(r :: nat) = r div 64 * 64 + r mod 64"
  by simp

lemma good_encode2:
  assumes "0x80 \<le> r" and "r < 0x800"
  shows "good_piece (r, encode_rune r)"
proof -
  define a where "a = r div 64"
  define b where "b = r mod 64"
  have r: "r = a * 64 + b" using radix64 [of r] by (simp add: a_def b_def)
  have "b < 64" by (simp add: b_def)
  then have bound: "b < 64" "2 \<le> a" "a < 32" using assms r by linarith+
  have e: "encode_rune r = map char_of [0xC0 + a, 0x80 + b]"
    using assms by (simp add: encode_rune_def Let_def a_def b_def byte_in_def)
  show ?thesis
    using bound unfolding e by (simp add: good_piece_def byte_in_def decode_width_def decode_rune_def peek_def
        rune_width_def Let_def r)
qed

lemma div64_div64: "(r :: nat) div 64 div 64 = r div 4096"
  using div_mult2_eq [of r 64 64] by simp

lemma div64_div4096: "(r :: nat) div 4096 div 64 = r div 262144"
  using div_mult2_eq [of r 4096 64] by simp

lemma good_encode3:
  assumes "0x800 \<le> r" and "r < 0x10000" and "\<not> byte_in 0xD800 0xDFFF r"
  shows "good_piece (r, encode_rune r)"
proof -
  define a where "a = r div 4096"
  define b where "b = r div 64 mod 64"
  define c where "c = r mod 64"
  note split = radix64 [of r] radix64 [of "r div 64"] div64_div64 [of r]
  then have r: "r = a * 4096 + b * 64 + c" unfolding a_def b_def c_def by linarith
  have bound: "b < 64" "c < 64" by (simp_all add: b_def c_def)
  have "a < 16" using assms(2) r by linarith
  note bound = this bound
  have e: "encode_rune r = map char_of [0xE0 + a, 0x80 + b, 0x80 + c]"
    using assms by (simp add: encode_rune_def Let_def a_def b_def c_def)
  have low: "a = 0 \<Longrightarrow> 0x20 \<le> b" using assms(1) bound r by linarith
  have sur: "a = 0xD \<Longrightarrow> b < 0x20" using assms(3) bound r by (auto simp: byte_in_def)
  have "second_ok (0xE0 + a) (0x80 + b)"
    using low sur bound by (auto simp: byte_in_def second_lo_def second_hi_def)
  then show ?thesis
    using bound unfolding e by (simp add: good_piece_def byte_in_def decode_width_def decode_rune_def peek_def
        rune_width_def Let_def r)
qed

lemma good_encode4:
  assumes "0x10000 \<le> r" and "r \<le> 0x10FFFF"
  shows "good_piece (r, encode_rune r)"
proof -
  define a where "a = r div 262144"
  define b where "b = r div 4096 mod 64"
  define c where "c = r div 64 mod 64"
  define d where "d = r mod 64"
  note split = radix64 [of r] radix64 [of "r div 64"] radix64 [of "r div 4096"] div64_div64 [of r] div64_div4096 [of r]
  then have r: "r = a * 262144 + b * 4096 + c * 64 + d" unfolding a_def b_def c_def d_def by linarith
  have bound: "b < 64" "c < 64" "d < 64" by (simp_all add: b_def c_def d_def)
  have "a \<le> 4" using assms(2) r by linarith
  note bound = this bound
  have e: "encode_rune r = map char_of [0xF0 + a, 0x80 + b, 0x80 + c, 0x80 + d]"
    using assms by (simp add: encode_rune_def Let_def a_def b_def c_def d_def byte_in_def)
  have low: "a = 0 \<Longrightarrow> 0x10 \<le> b" using assms(1) bound r by linarith
  have high: "a = 4 \<Longrightarrow> b < 0x10" using assms(2) bound r by linarith
  have "second_ok (0xF0 + a) (0x80 + b)"
    using low high bound by (auto simp: byte_in_def second_lo_def second_hi_def)
  then show ?thesis
    using bound unfolding e by (simp add: good_piece_def byte_in_def decode_width_def decode_rune_def peek_def
        rune_width_def Let_def r)
qed

lemma good_encode: "valid_rune r \<Longrightarrow> good_piece (r, encode_rune r)"
proof -
  assume "valid_rune r"
  moreover have "good_piece (r, encode_rune r)" if "r < 0x80"
    using that by (simp add: good_piece_def encode_rune_def byte_in_def decode_width_def decode_rune_def peek_def
        rune_width_def Let_def)
  ultimately show ?thesis
    using good_encode2 [of r] good_encode3 [of r] good_encode4 [of r]
    by (cases "r < 0x80"; cases "r < 0x800"; cases "r < 0x10000") (auto simp: valid_rune_def)
qed

lemma valid_encode_runes: "valid_utf8 (concat (map encode_rune rs))"
proof -
  define ps where "ps = map (\<lambda>r. if valid_rune r then (r, encode_rune r) else (rune_error, replacement)) rs"
  have "list_all good_piece ps" by (auto simp: ps_def list_all_iff good_encode good_replacement)
  moreover have "map snd ps = map encode_rune rs" by (auto simp: ps_def encode_invalid)
  ultimately show ?thesis using valid_concat_good by metis
qed

end
