(* ===== verification/Encoding.thy ===== *)
theory Encoding imports Utf8 begin

text \<open>
  The text encodings the program takes from Go's standard library: lower-case hexadecimal
  (\<^verbatim>\<open>hex.EncodeToString\<close>) and the three base64 codecs (\<^verbatim>\<open>RawURLEncoding\<close> for keys,
  nonces and tokens, \<^verbatim>\<open>RawStdEncoding\<close> for release keys and signatures,
  \<^verbatim>\<open>StdEncoding\<close> for file contents), with Go's decoder: it skips carriage returns and
  newlines and ignores the unused bits of the last digit.  The locale \<open>codec\<close> is the
  contract the components use.
\<close>

section \<open>The contract of a codec\<close>

locale codec =
  fixes enc :: "'a \<Rightarrow> 'b" and dec :: "'b \<Rightarrow> 'a option"
  assumes dec_enc: "dec (enc x) = Some x"
begin

lemma enc_eq_iff: "enc x = enc y \<longleftrightarrow> x = y"
  by (metis dec_enc option.inject)

lemma enc_inj: "inj enc"
  by (rule injI) (simp add: enc_eq_iff)

end

section \<open>Hexadecimal\<close>

definition hex_digits :: string where
  "hex_digits = ''0123456789abcdef''"

definition hex_byte :: "char \<Rightarrow> string" where
  "hex_byte c = [hex_digits ! (of_char c div 16), hex_digits ! (of_char c mod 16)]"

definition hex_encode :: "string \<Rightarrow> string" where
  "hex_encode s = concat (map hex_byte s)"

definition hex_value :: "char \<Rightarrow> nat option" where
  "hex_value c = IndexByte hex_digits c"

fun hex_decode :: "string \<Rightarrow> string option" where
  "hex_decode [] = Some []"
| "hex_decode [c] = None"
| "hex_decode (c # d # s) =
     (case (hex_value c, hex_value d, hex_decode s) of
        (Some h, Some l, Some r) \<Rightarrow> Some (char_of (16 * h + l) # r)
      | _ \<Rightarrow> None)"

lemma length_hex_encode [simp]: "length (hex_encode s) = 2 * length s"
  by (induction s) (simp_all add: hex_encode_def hex_byte_def)

lemma hex_value_digit: "n < 16 \<Longrightarrow> hex_value (hex_digits ! n) = Some n"
proof -
  have "list_all (\<lambda>n. hex_value (hex_digits ! n) = Some n) [0..<16]"
    by code_simp
  then show "n < 16 \<Longrightarrow> hex_value (hex_digits ! n) = Some n"
    by (simp add: list_all_iff)
qed

lemma of_char_less: "(of_char c :: nat) < 256"
  by simp

lemma hex_decode_encode: "hex_decode (hex_encode s) = Some s"
proof (induction s)
  case (Cons c s)
  have "(of_char c :: nat) div 16 < 16" by (simp add: less_mult_imp_div_less)
  moreover have "16 * ((of_char c :: nat) div 16) + of_char c mod 16 = of_char c" by simp
  ultimately show ?case
    using Cons by (simp add: hex_encode_def hex_byte_def hex_value_digit)
qed (simp add: hex_encode_def)

interpretation hex: codec hex_encode hex_decode
  by unfold_locales (rule hex_decode_encode)

section \<open>Base64\<close>

definition std_alphabet :: string where
  "std_alphabet = ''ABCDEFGHIJKLMNOPQRSTUVWXYZabcdefghijklmnopqrstuvwxyz0123456789+/''"

definition url_alphabet :: string where
  "url_alphabet = ''ABCDEFGHIJKLMNOPQRSTUVWXYZabcdefghijklmnopqrstuvwxyz0123456789-_''"

fun base64_digits :: "string \<Rightarrow> nat list" where
  "base64_digits [] = []"
| "base64_digits [a] = [of_char a div 4, of_char a mod 4 * 16]"
| "base64_digits [a, b] =
     [of_char a div 4, of_char a mod 4 * 16 + of_char b div 16, of_char b mod 16 * 4]"
| "base64_digits (a # b # c # s) =
     [of_char a div 4, of_char a mod 4 * 16 + of_char b div 16,
      of_char b mod 16 * 4 + of_char c div 64, of_char c mod 64] @ base64_digits s"

definition base64_encode :: "string \<Rightarrow> bool \<Rightarrow> string \<Rightarrow> string" where
  "base64_encode alphabet padded s =
     map (\<lambda>d. alphabet ! d) (base64_digits s)
     @ (if padded then replicate ((3 - length s mod 3) mod 3) (CHR ''='') else [])"

text \<open>
  The decoder, after the newlines are skipped.  A last quantum of two or three digits is
  accepted without padding exactly by the raw codecs, and with \<^verbatim>\<open>=\<close> padding exactly by
  the padded one.
\<close>

fun base64_quanta :: "(char \<Rightarrow> nat option) \<Rightarrow> bool \<Rightarrow> string \<Rightarrow> string option" where
  "base64_quanta val padded [] = Some []"
| "base64_quanta val padded [a] = None"
| "base64_quanta val padded [a, b] =
     (case (val a, val b) of
        (Some x, Some y) \<Rightarrow> if padded then None else Some [char_of (x * 4 + y div 16)]
      | _ \<Rightarrow> None)"
| "base64_quanta val padded [a, b, c] =
     (case (val a, val b, val c) of
        (Some x, Some y, Some z) \<Rightarrow>
          if padded then None
          else Some [char_of (x * 4 + y div 16), char_of (y mod 16 * 16 + z div 4)]
      | _ \<Rightarrow> None)"
| "base64_quanta val padded (a # b # c # d # s) =
     (case (val a, val b) of
        (Some x, Some y) \<Rightarrow>
          if padded \<and> s = [] \<and> c = CHR ''='' \<and> d = CHR ''='' then Some [char_of (x * 4 + y div 16)]
          else (case val c of
                  None \<Rightarrow> None
                | Some z \<Rightarrow>
                    if padded \<and> s = [] \<and> d = CHR ''=''
                    then Some [char_of (x * 4 + y div 16), char_of (y mod 16 * 16 + z div 4)]
                    else (case (val d, base64_quanta val padded s) of
                            (Some u, Some r) \<Rightarrow>
                              Some (char_of (x * 4 + y div 16) # char_of (y mod 16 * 16 + z div 4)
                                    # char_of (z mod 4 * 64 + u) # r)
                          | _ \<Rightarrow> None))
      | _ \<Rightarrow> None)"

definition base64_decode :: "string \<Rightarrow> bool \<Rightarrow> string \<Rightarrow> string option" where
  "base64_decode alphabet padded s =
     base64_quanta (IndexByte alphabet) padded
       (filter (\<lambda>c. c \<noteq> CHR 0x0A \<and> c \<noteq> CHR 0x0D) s)"

definition RawURLEncode :: "string \<Rightarrow> string" where "RawURLEncode = base64_encode url_alphabet False"
definition RawURLDecode :: "string \<Rightarrow> string option" where "RawURLDecode = base64_decode url_alphabet False"
definition RawStdEncode :: "string \<Rightarrow> string" where "RawStdEncode = base64_encode std_alphabet False"
definition RawStdDecode :: "string \<Rightarrow> string option" where "RawStdDecode = base64_decode std_alphabet False"
definition StdEncode :: "string \<Rightarrow> string" where "StdEncode = base64_encode std_alphabet True"
definition StdDecode :: "string \<Rightarrow> string option" where "StdDecode = base64_decode std_alphabet True"

subsection \<open>Decoding an encoding\<close>

definition good_alphabet :: "string \<Rightarrow> bool" where
  "good_alphabet al \<longleftrightarrow>
     list_all (\<lambda>n. IndexByte al (al ! n) = Some n \<and> al ! n \<noteq> CHR ''=''
        \<and> al ! n \<noteq> CHR 0x0A \<and> al ! n \<noteq> CHR 0x0D) [0..<64]"

lemma good_std_alphabet: "good_alphabet std_alphabet"
  by code_simp

lemma good_url_alphabet: "good_alphabet url_alphabet"
  by code_simp

lemma good_alphabetD:
  assumes "good_alphabet al" and "n < 64"
  shows "IndexByte al (al ! n) = Some n" and "al ! n \<noteq> CHR ''=''"
    and "al ! n \<noteq> CHR 0x0A" and "al ! n \<noteq> CHR 0x0D"
  using assms by (simp_all add: good_alphabet_def list_all_iff)

lemma sextets:
  fixes a b c :: nat
  assumes "a < 256" and "b < 256" and "c < 256"
  shows "a div 4 < 64" and "a mod 4 * 16 + b div 16 < 64" and "b mod 16 * 4 + c div 64 < 64"
    and "a mod 4 * 16 < 64" and "b mod 16 * 4 < 64" and "c mod 64 < 64"
    and "a div 4 * 4 + (a mod 4 * 16 + b div 16) div 16 = a"
    and "(a mod 4 * 16 + b div 16) mod 16 * 16 + (b mod 16 * 4 + c div 64) div 4 = b"
    and "(b mod 16 * 4 + c div 64) mod 4 * 64 + c mod 64 = c"
proof -
  have b: "b div 16 < 16" and c: "c div 64 < 4"
    using assms by (simp_all add: less_mult_imp_div_less)
  have q: "a mod 4 < 4" "b mod 16 < 16" by simp_all
  show "a div 4 < 64" using assms(1) by (simp add: less_mult_imp_div_less)
  show "a mod 4 * 16 + b div 16 < 64" "a mod 4 * 16 < 64" using b q by linarith+
  show "b mod 16 * 4 + c div 64 < 64" "b mod 16 * 4 < 64" using c q by linarith+
  show "c mod 64 < 64" by simp
  show "a div 4 * 4 + (a mod 4 * 16 + b div 16) div 16 = a" using b by simp
  show "(a mod 4 * 16 + b div 16) mod 16 * 16 + (b mod 16 * 4 + c div 64) div 4 = b"
    using b c by simp
  show "(b mod 16 * 4 + c div 64) mod 4 * 64 + c mod 64 = c" using c by simp
qed

lemmas char_sextets = sextets [OF of_char_less of_char_less of_char_less]

lemma base64_digits_small: "d \<in> set (base64_digits s) \<Longrightarrow> d < 64"
  by (induction s rule: base64_digits.induct) (auto simp: char_sextets(1-6))

lemma length_base64_digits: "length (base64_digits s) = (4 * length s + 2) div 3"
  by (induction s rule: base64_digits.induct) simp_all

lemma base64_no_newline:
  assumes "good_alphabet al"
  shows "filter (\<lambda>c. c \<noteq> CHR 0x0A \<and> c \<noteq> CHR 0x0D) (base64_encode al padded s) = base64_encode al padded s"
  using good_alphabetD(3,4) [OF assms] base64_digits_small
  by (auto simp: base64_encode_def filter_id_conv)

lemma base64_quanta_encode:
  assumes al: "good_alphabet al"
  shows "base64_quanta (IndexByte al) padded (base64_encode al padded s) = Some s"
proof (induction s rule: base64_digits.induct)
  case 1
  then show ?case by (simp add: base64_encode_def)
next
  case (2 a)
  have "(of_char a mod 4 * 16) div 16 = (of_char a mod 4 :: nat)" by simp
  moreover have "replicate 2 (CHR ''='') = [CHR ''='', CHR ''='']"
    by (simp add: numeral_2_eq_2)
  ultimately show ?case
    using good_alphabetD(1,2) [OF al] char_sextets(1,4)
    by (simp add: base64_encode_def)
next
  case (3 a b)
  have "(of_char b mod 16 * 4) div 4 = (of_char b mod 16 :: nat)"
    and "of_char b div 16 < (16 :: nat)" by (simp_all add: less_mult_imp_div_less)
  then show ?case
    using good_alphabetD(1,2) [OF al] char_sextets(1,2,5,7)
    by (simp add: base64_encode_def)
next
  case (4 a b c s)
  let ?al = "\<lambda>d. al ! d"
  have step: "base64_encode al padded (a # b # c # s)
     = ?al (of_char a div 4) # ?al (of_char a mod 4 * 16 + of_char b div 16)
       # ?al (of_char b mod 16 * 4 + of_char c div 64) # ?al (of_char c mod 64)
       # base64_encode al padded s"
    by (simp add: base64_encode_def)
  show ?case
    unfolding step
    using 4 good_alphabetD(1,2) [OF al] char_sextets by simp
qed

theorem base64_decode_encode:
  "good_alphabet al \<Longrightarrow> base64_decode al padded (base64_encode al padded s) = Some s"
  by (simp add: base64_decode_def base64_no_newline base64_quanta_encode)

interpretation raw_url: codec RawURLEncode RawURLDecode
  by unfold_locales
     (simp add: RawURLEncode_def RawURLDecode_def base64_decode_encode good_url_alphabet)

interpretation raw_std: codec RawStdEncode RawStdDecode
  by unfold_locales
     (simp add: RawStdEncode_def RawStdDecode_def base64_decode_encode good_std_alphabet)

interpretation std: codec StdEncode StdDecode
  by unfold_locales (simp add: StdEncode_def StdDecode_def base64_decode_encode good_std_alphabet)

lemma length_StdEncode: "length (StdEncode s) = 4 * ((length s + 2) div 3)"
proof -
  have "(4 * n + 2) div 3 + (3 - n mod 3) mod 3 = 4 * ((n + 2) div 3)" for n :: nat
  proof -
    obtain k r where n: "n = 3 * k + r" and "r < 3"
      by (metis div_mult_mod_eq mod_less_divisor mult.commute zero_less_numeral)
    have facts: "(12 * k + 2) div 3 = 4 * k" "(12 * k + 10) div 3 = 4 * k + 3"
      "(12 * k + 6) div 3 = 4 * k + 2" "(3 * k + 2) div 3 = k" "(3 * k + 2) mod 3 = 2"
      "(3 * k + 1) mod 3 = 1"
      by presburger+
    have "r = 0 \<or> r = 1 \<or> r = 2" using \<open>r < 3\<close> by linarith
    then show ?thesis using facts by (elim disjE) (simp_all add: n algebra_simps)
  qed
  then show ?thesis by (simp add: StdEncode_def base64_encode_def length_base64_digits)
qed

end
