(* ===== verification/Json.thy ===== *)
theory Json imports Encoding begin

text \<open>
  The part of \<^verbatim>\<open>encoding/json\<close> whose output bytes the program hashes: a quoted string
  with HTML escaping, and the compaction that \<^verbatim>\<open>json.Marshal\<close> applies to an embedded
  \<^verbatim>\<open>json.RawMessage\<close>.  Reading is modelled in
  Json_Text and Json_Raw, decoding into the messages in Wire.
\<close>

abbreviation quote :: char where "quote \<equiv> CHR 0x22"
abbreviation backslash :: char where "backslash \<equiv> CHR 0x5C"

definition hex_escape :: "char \<Rightarrow> string" where
  "hex_escape c = backslash # ''u00'' @ hex_byte c"

definition html_char :: "char \<Rightarrow> bool" where
  "html_char c \<longleftrightarrow> c = CHR ''<'' \<or> c = CHR ''>'' \<or> c = CHR ''&''"

definition json_byte :: "char \<Rightarrow> string" where
  "json_byte c =
     (if c = quote \<or> c = backslash then [backslash, c]
      else if c = CHR 0x08 then backslash # ''b''
      else if c = CHR 0x0C then backslash # ''f''
      else if c = CHR 0x0A then backslash # ''n''
      else if c = CHR 0x0D then backslash # ''r''
      else if c = CHR 0x09 then backslash # ''t''
      else if (of_char c :: nat) < 0x20 \<or> html_char c then hex_escape c
      else [c])"

text \<open>\<^verbatim>\<open>json.Marshal\<close> of a string, piece by piece.\<close>

definition json_piece :: "rune \<times> string \<Rightarrow> string" where
  "json_piece p =
     (if length (snd p) = 1 \<and> fst p < 0x80 then json_byte (hd (snd p))
      else if invalid_piece p then backslash # ''ufffd''
      else if fst p = 0x2028 then backslash # ''u2028''
      else if fst p = 0x2029 then backslash # ''u2029''
      else snd p)"

definition json_string :: "string \<Rightarrow> string" where
  "json_string s = quote # concat (map json_piece (runes s)) @ [quote]"

text \<open>
  Compaction of a valid JSON text: white space outside strings is dropped, the HTML
  characters and the two line separators are escaped.  The flags say whether the byte is
  inside a string and whether a backslash precedes it.
\<close>

definition json_space :: "char \<Rightarrow> bool" where
  "json_space c \<longleftrightarrow> c = CHR '' '' \<or> c = CHR 0x09 \<or> c = CHR 0x0D \<or> c = CHR 0x0A"

fun json_compact :: "bool \<Rightarrow> bool \<Rightarrow> string \<Rightarrow> string" where
  "json_compact str esc [] = []"
| "json_compact str esc (c # s) =
     (if \<not> str \<and> json_space c then json_compact False False s
      else if html_char c then hex_escape c @ json_compact str False s
      else if take 3 (c # s) = [CHR 0xE2, CHR 0x80, CHR 0xA8]
      then backslash # ''u2028'' @ json_compact str False (drop 2 s)
      else if take 3 (c # s) = [CHR 0xE2, CHR 0x80, CHR 0xA9]
      then backslash # ''u2029'' @ json_compact str False (drop 2 s)
      else if str then c # json_compact (esc \<or> c \<noteq> quote) (\<not> esc \<and> c = backslash) s
      else c # json_compact (c = quote) False s)"

definition Compact :: "string \<Rightarrow> string" where
  "Compact = json_compact False False"

text \<open>
  A string of plain ASCII characters is quoted as it is.
\<close>

definition plain_char :: "char \<Rightarrow> bool" where
  "plain_char c \<longleftrightarrow> 0x20 \<le> (of_char c :: nat) \<and> (of_char c :: nat) < 0x80 \<and> c \<noteq> quote
     \<and> c \<noteq> backslash \<and> \<not> html_char c"

lemma decode_width_ascii: "(of_char c :: nat) < 0x80 \<Longrightarrow> decode_width (c # s) = 1"
  by (simp add: decode_width_def rune_width_def peek_def)

lemma decode_rune_ascii:
  "(of_char c :: nat) < 0x80 \<Longrightarrow> decode_rune (c # s) = (of_char c, 1)"
  by (simp add: decode_rune_def decode_width_ascii Let_def peek_def)

lemma runes_ascii:
  "(of_char c :: nat) < 0x80 \<Longrightarrow> runes (c # s) = (of_char c, [c]) # runes s"
  by (simp add: runes.simps [of "c # s"] decode_rune_ascii)

lemma json_byte_plain: "plain_char c \<Longrightarrow> json_byte c = [c]"
  by (auto simp: json_byte_def plain_char_def)

lemma json_string_plain: "list_all plain_char s \<Longrightarrow> json_string s = quote # s @ [quote]"
proof -
  have "list_all plain_char s \<Longrightarrow> concat (map json_piece (runes s)) = s"
    by (induction s) (auto simp: runes_ascii json_piece_def json_byte_plain plain_char_def)
  then show "list_all plain_char s \<Longrightarrow> json_string s = quote # s @ [quote]"
    by (simp add: json_string_def)
qed

end
