(* ===== verification/Json_Text.thy ===== *)
theory Json_Text imports Json begin

text \<open>
  \<^verbatim>\<open>encoding/json\<close> on texts: the value a JSON text stands for, its encoding by
  \<^verbatim>\<open>json.Marshal\<close>, and the reader behind \<^verbatim>\<open>json.Unmarshal\<close> and \<^verbatim>\<open>Decoder.Decode\<close>.  The
  reader has a lexer, which stops at the first byte that starts no token, and a machine over
  the tokens with a stack of open arrays and objects, as Go's scanner has it.  The main lemma
  is that a value is read back from its own text.
\<close>

section \<open>Values and tokens\<close>

datatype json = JNull | JBool bool | JNumber string | JString string
  | JArray "json list" | JObject "(string \<times> json) list"

datatype token = Punct char | Lit json | Str string | Bad

section \<open>The lexer\<close>

text \<open>
  A string literal after its opening quote: the raw body and what follows the closing
  quote.  Escapes are checked but not resolved.
\<close>

definition is_hex :: "char \<Rightarrow> bool" where
  "is_hex c \<longleftrightarrow>
     (let n = of_char c in byte_in 48 57 n \<or> byte_in 65 70 n \<or> byte_in 97 102 n)"

fun lex_str :: "string \<Rightarrow> (string \<times> string) option" where
  "lex_str [] = None"
| "lex_str [c] = (if c = quote then Some ([], []) else None)"
| "lex_str (c # e # s) =
     (if c = quote then Some ([], e # s)
      else if c = backslash then
        (if e \<in> set [quote, backslash, CHR ''/'', CHR ''b'', CHR ''f'', CHR ''n'', CHR ''r'', CHR ''t'']
            \<or> (e = CHR ''u'' \<and> length (take 4 s) = 4 \<and> list_all is_hex (take 4 s))
         then map_option (apfst (\<lambda>b. c # e # b)) (lex_str s) else None)
      else if (of_char c :: nat) < 0x20 then None
      else map_option (apfst (Cons c)) (lex_str (e # s)))"

definition hex_digit_value :: "char \<Rightarrow> nat" where
  "hex_digit_value c =
     (let n = of_char c in if n < 65 then n - 48 else if n < 97 then n - 55 else n - 87)"

definition hex4 :: "string \<Rightarrow> nat" where
  "hex4 s = foldl (\<lambda>a c. 16 * a + hex_digit_value c) 0 (take 4 s)"

definition surrogate :: "nat \<Rightarrow> bool" where
  "surrogate r \<longleftrightarrow> byte_in 0xD800 0xDFFF r"

text \<open>\<^verbatim>\<open>utf16.DecodeRune\<close>: a high and a low surrogate, or the replacement character.\<close>

definition pair_rune :: "nat \<Rightarrow> nat \<Rightarrow> rune" where
  "pair_rune a b =
     (if byte_in 0xD800 0xDBFF a \<and> byte_in 0xDC00 0xDFFF b
      then (a - 0xD800) * 1024 + (b - 0xDC00) + 0x10000 else rune_error)"

definition simple_escape :: "char \<Rightarrow> char" where
  "simple_escape e =
     (if e = CHR ''b'' then CHR 0x08 else if e = CHR ''f'' then CHR 0x0C
      else if e = CHR ''n'' then CHR 0x0A else if e = CHR ''r'' then CHR 0x0D
      else if e = CHR ''t'' then CHR 0x09 else e)"

lemma drop_rune_shorter: "Suc (length s) - snd (decode_rune (c # s)) \<le> length s"
  using decode_rune_width_pos [of "c # s"] by simp

function unquote :: "string \<Rightarrow> string" where
  "unquote s =
     (case s of
        [] \<Rightarrow> []
      | c # s' \<Rightarrow>
          if c = backslash then
            (case s' of
               [] \<Rightarrow> []
             | e # s'' \<Rightarrow>
                 if e = CHR ''u'' then
                   (let r = hex4 s''; t = drop 4 s''
                    in if surrogate r then
                         (let r' = (if take 2 t = [backslash, CHR ''u''] then pair_rune r (hex4 (drop 2 t)) else rune_error)
                          in if r' \<noteq> rune_error then encode_rune r' @ unquote (drop 6 t)
                             else replacement @ unquote t)
                       else encode_rune r @ unquote t)
                 else simple_escape e # unquote s'')
          else encode_rune (fst (decode_rune s)) @ unquote (drop (snd (decode_rune s)) s))"
  by pat_completeness auto
termination
  by (relation "measure length") (auto simp: drop_rune_shorter less_Suc_eq_le)

declare unquote.simps [simp del]

text \<open>A number literal, by maximal munch.\<close>

definition lex_digits :: "string \<Rightarrow> (string \<times> string) option" where
  "lex_digits s = (if takeWhile is_digit s = [] then None else Some (takeWhile is_digit s, dropWhile is_digit s))"

definition lex_opt :: "string \<Rightarrow> string \<Rightarrow> (string \<Rightarrow> (string \<times> string) option) \<Rightarrow> (string \<times> string) option" where
  "lex_opt cs s f =
     (case s of
        [] \<Rightarrow> Some ([], [])
      | c # s' \<Rightarrow> if c \<in> set cs then map_option (apfst (Cons c)) (f s') else Some ([], s))"

definition lex_exp :: "string \<Rightarrow> (string \<times> string) option" where
  "lex_exp s =
     (case s of
        [] \<Rightarrow> None
      | c # s' \<Rightarrow> if c = CHR ''+'' \<or> c = CHR ''-'' then map_option (apfst (Cons c)) (lex_digits s') else lex_digits s)"

definition lex_int :: "string \<Rightarrow> (string \<times> string) option" where
  "lex_int s = (if HasPrefix s ''0'' then Some (''0'', tl s) else lex_digits s)"

definition lex_num :: "string \<Rightarrow> (string \<times> string) option" where
  "lex_num s =
     (let (sg, s) = (if HasPrefix s ''-'' then (''-'', tl s) else ([], s))
      in case lex_int s of
           None \<Rightarrow> None
         | Some (i, s) \<Rightarrow>
             (case lex_opt ''.'' s lex_digits of
                None \<Rightarrow> None
              | Some (f, s) \<Rightarrow>
                  (case lex_opt ''eE'' s lex_exp of
                     None \<Rightarrow> None
                   | Some (x, s) \<Rightarrow> Some (sg @ i @ f @ x, s))))"

lemma lex_str_shorter: "lex_str s = Some (b, r) \<Longrightarrow> length r < length s"
  by (induction s arbitrary: b r rule: lex_str.induct) (fastforce split: if_splits)+

lemma lex_digits_split: "lex_digits s = Some (d, r) \<Longrightarrow> s = d @ r \<and> d \<noteq> []"
  by (auto simp: lex_digits_def split: if_splits)

lemma lex_exp_split: "lex_exp s = Some (d, r) \<Longrightarrow> s = d @ r"
  by (auto simp: lex_exp_def dest: lex_digits_split split: list.splits if_splits)

lemma lex_opt_split:
  "lex_opt cs s f = Some (d, r) \<Longrightarrow> (\<And>s d r. f s = Some (d, r) \<Longrightarrow> s = d @ r) \<Longrightarrow> s = d @ r"
  by (auto simp: lex_opt_def split: list.splits if_splits)

lemma lex_int_split: "lex_int s = Some (d, r) \<Longrightarrow> s = d @ r \<and> d \<noteq> []"
  by (cases s) (auto simp: lex_int_def dest: lex_digits_split split: if_splits)

lemma lex_num_split: "lex_num s = Some (n, r) \<Longrightarrow> s = n @ r \<and> n \<noteq> []"
proof -
  assume h: "lex_num s = Some (n, r)"
  obtain sg s1 where sg2: "(if HasPrefix s ''-'' then (''-'', tl s) else ([], s)) = (sg, s1)"
    by (metis surj_pair)
  then have sg1: "s = sg @ s1" by (cases s) (auto split: if_splits)
  note sg = sg1 sg2
  from h sg(2) obtain i s2 f s3 x where parts: "lex_int s1 = Some (i, s2)" "lex_opt ''.'' s2 lex_digits = Some (f, s3)"
      "lex_opt ''eE'' s3 lex_exp = Some (x, r)" "n = sg @ i @ f @ x"
    by (auto simp: lex_num_def Let_def split: option.splits prod.splits)
  have "s1 = i @ s2 \<and> i \<noteq> []" using parts(1) by (rule lex_int_split)
  moreover have "s2 = f @ s3" using parts(2) by (rule lex_opt_split) (simp add: lex_digits_split)
  moreover have "s3 = x @ r" using parts(3) by (rule lex_opt_split) (simp add: lex_exp_split)
  ultimately show "s = n @ r \<and> n \<noteq> []" using parts(4) sg(1) by simp
qed

lemma lex_num_shorter: "lex_num (c # s) = Some (n, r) \<Longrightarrow> length r < Suc (length s)"
  using lex_num_split [of "c # s" n r] by (metis impossible_Cons length_Cons linorder_not_less append_Nil2
      le_add_diff_inverse length_append length_greater_0_conv less_add_same_cancel2)

function lex :: "string \<Rightarrow> token list" where
  "lex [] = []"
| "lex (c # s) =
     (if json_space c then lex s
      else if c \<in> set ''[]{},:'' then Punct c # lex s
      else if c = quote then
        (case lex_str s of None \<Rightarrow> [Bad] | Some (b, r) \<Rightarrow> Str (unquote b) # lex r)
      else if HasPrefix (c # s) ''null'' then Lit JNull # lex (drop 3 s)
      else if HasPrefix (c # s) ''true'' then Lit (JBool True) # lex (drop 3 s)
      else if HasPrefix (c # s) ''false'' then Lit (JBool False) # lex (drop 4 s)
      else (case lex_num (c # s) of None \<Rightarrow> [Bad] | Some (n, r) \<Rightarrow> Lit (JNumber n) # lex r))"
  by pat_completeness auto
termination
  by (relation "measure length") (auto dest: lex_str_shorter lex_num_shorter)

section \<open>The reader\<close>

text \<open>
  The state between two tokens: what is expected next, and the open arrays and objects, the
  innermost first.  At most 10000 of them may be open, as in \<^verbatim>\<open>encoding/json\<close>.
\<close>

datatype mode = Value | First_item | First_key | Key "(string \<times> json) list"
  | Colon "(string \<times> json) list" string | After json

datatype frame = In_array "json list" | In_object "(string \<times> json) list" string

definition start_value :: "frame list \<Rightarrow> token \<Rightarrow> (mode \<times> frame list) option" where
  "start_value fs t =
     (case t of
        Lit v \<Rightarrow> Some (After v, fs)
      | Str s \<Rightarrow> Some (After (JString s), fs)
      | Punct c \<Rightarrow>
          if length fs < 10000 \<and> c = CHR ''['' then Some (First_item, fs)
          else if length fs < 10000 \<and> c = CHR ''{'' then Some (First_key, fs)
          else None
      | Bad \<Rightarrow> None)"

definition next_mode :: "mode \<Rightarrow> frame list \<Rightarrow> token \<Rightarrow> (mode \<times> frame list) option" where
  "next_mode m fs t =
     (case m of
        Value \<Rightarrow> start_value fs t
      | First_item \<Rightarrow> if t = Punct (CHR '']'') then Some (After (JArray []), fs) else start_value (In_array [] # fs) t
      | First_key \<Rightarrow>
          if t = Punct (CHR ''}'') then Some (After (JObject []), fs)
          else (case t of Str k \<Rightarrow> Some (Colon [] k, fs) | _ \<Rightarrow> None)
      | Key ms \<Rightarrow> (case t of Str k \<Rightarrow> Some (Colon ms k, fs) | _ \<Rightarrow> None)
      | Colon ms k \<Rightarrow> if t = Punct (CHR '':'') then Some (Value, In_object ms k # fs) else None
      | After v \<Rightarrow>
          (case fs of
             [] \<Rightarrow> None
           | In_array xs # fs \<Rightarrow>
               if t = Punct (CHR '','') then Some (Value, In_array (xs @ [v]) # fs)
               else if t = Punct (CHR '']'') then Some (After (JArray (xs @ [v])), fs) else None
           | In_object ms k # fs \<Rightarrow>
               if t = Punct (CHR '','') then Some (Key (ms @ [(k, v)]), fs)
               else if t = Punct (CHR ''}'') then Some (After (JObject (ms @ [(k, v)])), fs) else None))"

fun read_value :: "mode \<Rightarrow> frame list \<Rightarrow> token list \<Rightarrow> (json \<times> token list) option" where
  "read_value (After v) [] ts = Some (v, ts)"
| "read_value m fs [] = None"
| "read_value m fs (t # ts) =
     (case next_mode m fs t of None \<Rightarrow> None | Some (m, fs) \<Rightarrow> read_value m fs ts)"

text \<open>
  \<^verbatim>\<open>Unmarshal\<close> takes a whole text, \<^verbatim>\<open>Decoder.Decode\<close> the first value of a stream.
\<close>

definition parse_json :: "string \<Rightarrow> json option" where
  "parse_json s = (case read_value Value [] (lex s) of Some (v, []) \<Rightarrow> Some v | _ \<Rightarrow> None)"

definition first_json :: "string \<Rightarrow> json option" where
  "first_json s = map_option fst (read_value Value [] (lex s))"

lemma parse_first: "parse_json s = Some v \<Longrightarrow> first_json s = Some v"
  by (auto simp: parse_json_def first_json_def split: option.splits list.splits)

section \<open>The encoder\<close>

fun json_text :: "json \<Rightarrow> string"
and json_items :: "json list \<Rightarrow> string"
and json_members :: "(string \<times> json) list \<Rightarrow> string" where
  "json_text JNull = ''null''"
| "json_text (JBool b) = (if b then ''true'' else ''false'')"
| "json_text (JNumber n) = n"
| "json_text (JString s) = json_string s"
| "json_text (JArray xs) = CHR ''['' # json_items xs @ '']''"
| "json_text (JObject ms) = CHR ''{'' # json_members ms @ ''}''"
| "json_items [] = []"
| "json_items [x] = json_text x"
| "json_items (x # y # xs) = json_text x @ CHR '','' # json_items (y # xs)"
| "json_members [] = []"
| "json_members [(k, v)] = json_string k @ CHR '':'' # json_text v"
| "json_members ((k, v) # m # ms) = json_string k @ CHR '':'' # json_text v @ CHR '','' # json_members (m # ms)"

fun json_tokens :: "json \<Rightarrow> token list"
and item_tokens :: "json list \<Rightarrow> token list"
and member_tokens :: "(string \<times> json) list \<Rightarrow> token list" where
  "json_tokens (JString s) = [Str s]"
| "json_tokens (JArray xs) = Punct (CHR ''['') # item_tokens xs @ [Punct (CHR '']'')]"
| "json_tokens (JObject ms) = Punct (CHR ''{'') # member_tokens ms @ [Punct (CHR ''}'')]"
| "json_tokens v = [Lit v]"
| "item_tokens [] = []"
| "item_tokens [x] = json_tokens x"
| "item_tokens (x # y # xs) = json_tokens x @ Punct (CHR '','') # item_tokens (y # xs)"
| "member_tokens [] = []"
| "member_tokens [(k, v)] = Str k # Punct (CHR '':'') # json_tokens v"
| "member_tokens ((k, v) # m # ms) =
     Str k # Punct (CHR '':'') # json_tokens v @ Punct (CHR '','') # member_tokens (m # ms)"

fun json_depth :: "json \<Rightarrow> nat"
and items_depth :: "json list \<Rightarrow> nat"
and members_depth :: "(string \<times> json) list \<Rightarrow> nat" where
  "json_depth (JArray xs) = Suc (items_depth xs)"
| "json_depth (JObject ms) = Suc (members_depth ms)"
| "json_depth _ = 0"
| "items_depth [] = 0"
| "items_depth (x # xs) = max (json_depth x) (items_depth xs)"
| "members_depth [] = 0"
| "members_depth ((k, v) # ms) = max (json_depth v) (members_depth ms)"

text \<open>A value the program writes: strings in UTF-8, integers.\<close>

fun json_ok :: "json \<Rightarrow> bool"
and items_ok :: "json list \<Rightarrow> bool"
and members_ok :: "(string \<times> json) list \<Rightarrow> bool" where
  "json_ok (JNumber n) = (\<exists>i. n = Itoa i)"
| "json_ok (JString s) = valid_utf8 s"
| "json_ok (JArray xs) = items_ok xs"
| "json_ok (JObject ms) = members_ok ms"
| "json_ok _ = True"
| "items_ok [] = True"
| "items_ok (x # xs) = (json_ok x \<and> items_ok xs)"
| "members_ok [] = True"
| "members_ok ((k, v) # ms) = (valid_utf8 k \<and> json_ok v \<and> members_ok ms)"

section \<open>A value is read back from its text\<close>

lemma read_value_step:
  "(\<And>v. m = After v \<Longrightarrow> fs \<noteq> []) \<Longrightarrow>
   read_value m fs (t # ts) = (case next_mode m fs t of None \<Rightarrow> None | Some (m, fs) \<Rightarrow> read_value m fs ts)"
  by (cases m; cases fs) auto

lemma json_tokens_open: "\<exists>t ts. json_tokens v = t # ts \<and> t \<noteq> Punct (CHR '']'')"
  by (cases v) auto

lemma read_first_item:
  "xs = x # xs' \<Longrightarrow> read_value First_item fs (item_tokens xs @ ts) = read_value Value (In_array [] # fs) (item_tokens xs @ ts)"
  using json_tokens_open [of x]
  by (cases xs') (auto simp: read_value_step next_mode_def)

lemma read_first_key:
  "ms = m # ms' \<Longrightarrow> read_value First_key fs (member_tokens ms @ ts) = read_value (Key []) fs (member_tokens ms @ ts)"
  by (cases m; cases ms') (auto simp: read_value_step next_mode_def)

lemma read_tokens:
  "json_depth v + length fs \<le> 10000 \<Longrightarrow>
     read_value Value fs (json_tokens v @ ts) = read_value (After v) fs ts"
  "Suc (items_depth xs) + length fs \<le> 10000 \<Longrightarrow> xs \<noteq> [] \<Longrightarrow>
     read_value Value (In_array ys # fs) (item_tokens xs @ Punct (CHR '']'') # ts)
       = read_value (After (JArray (ys @ xs))) fs ts"
  "Suc (members_depth ms) + length fs \<le> 10000 \<Longrightarrow> ms \<noteq> [] \<Longrightarrow>
     read_value (Key ns) fs (member_tokens ms @ Punct (CHR ''}'') # ts)
       = read_value (After (JObject (ns @ ms))) fs ts"
proof (induction v and xs and ms arbitrary: fs ts and fs ys ts and fs ns ts
    rule: json_tokens_item_tokens_member_tokens.induct)
  case (2 xs)
  show ?case
  proof (cases xs)
    case Nil
    then show ?thesis using 2(2) by (simp add: read_value_step next_mode_def start_value_def)
  next
    case (Cons x xs')
    then have "read_value Value fs (json_tokens (JArray xs) @ ts)
        = read_value First_item fs (item_tokens xs @ Punct (CHR '']'') # ts)"
      using 2(2) by (simp add: read_value_step next_mode_def start_value_def)
    also have "\<dots> = read_value Value (In_array [] # fs) (item_tokens xs @ Punct (CHR '']'') # ts)"
      using Cons by (rule read_first_item)
    also have "\<dots> = read_value (After (JArray xs)) fs ts"
      using 2 Cons by simp
    finally show ?thesis .
  qed
next
  case (3 ms)
  show ?case
  proof (cases ms)
    case Nil
    then show ?thesis using 3(2) by (simp add: read_value_step next_mode_def start_value_def)
  next
    case (Cons m ms')
    then have "read_value Value fs (json_tokens (JObject ms) @ ts)
        = read_value First_key fs (member_tokens ms @ Punct (CHR ''}'') # ts)"
      using 3(2) by (simp add: read_value_step next_mode_def start_value_def)
    also have "\<dots> = read_value (Key []) fs (member_tokens ms @ Punct (CHR ''}'') # ts)"
      using Cons by (rule read_first_key)
    also have "\<dots> = read_value (After (JObject ms)) fs ts"
      using 3 Cons by simp
    finally show ?thesis .
  qed
qed (auto simp: read_value_step next_mode_def start_value_def)

lemma read_json_tokens: "json_depth v \<le> 10000 \<Longrightarrow> read_value Value [] (json_tokens v @ ts) = Some (v, ts)"
  using read_tokens(1) [of v "[]" ts] by simp

text \<open>What may follow a number: a separator, a closing bracket or a new line.\<close>

definition value_end :: "string \<Rightarrow> bool" where
  "value_end s \<longleftrightarrow> s = [] \<or> hd s \<in> {CHR '','', CHR '']'', CHR ''}'', newline}"

lemma digit_stop:
  assumes "value_end s"
  shows "takeWhile is_digit s = []" and "dropWhile is_digit s = s"
  using assms by (cases s; auto simp: value_end_def is_digit_def)+

lemma lex_digits_end:
  "list_all is_digit n \<Longrightarrow> n \<noteq> [] \<Longrightarrow> value_end s \<Longrightarrow> lex_digits (n @ s) = Some (n, s)"
  by (simp add: lex_digits_def digit_stop list_all_iff)

lemma lex_opt_end: "value_end s \<Longrightarrow> set cs \<inter> {CHR '','', CHR '']'', CHR ''}'', newline} = {} \<Longrightarrow>
    lex_opt cs s f = Some ([], s)"
  by (auto simp: lex_opt_def value_end_def split: list.splits)

lemma nat_decimal_zero: "nat_decimal n = CHR ''0'' # ds \<Longrightarrow> n = 0 \<and> ds = []"
proof (induction n arbitrary: ds rule: nat_decimal.induct)
  case (1 n)
  show ?case
  proof (cases "n < 10")
    case True
    then have "digit n = CHR ''0''" "ds = []" using 1(2) by (simp_all add: nat_decimal.simps [of n])
    then have "n = digit_value (CHR ''0'')" using digit_facts(2) [OF True] by simp
    then show ?thesis using \<open>ds = []\<close> by (simp add: digit_value_def)
  next
    case False
    obtain ds' where "nat_decimal (n div 10) = CHR ''0'' # ds'"
      using 1(2) False by (cases "nat_decimal (n div 10)") (auto simp: nat_decimal.simps [of n])
    then have "n div 10 = 0" using 1(1) False by blast
    then show ?thesis using False by simp
  qed
qed

lemma lex_int_decimal: "value_end s \<Longrightarrow> lex_int (nat_decimal n @ s) = Some (nat_decimal n, s)"
proof (cases "nat_decimal n")
  case (Cons c ds)
  assume "value_end s"
  then show ?thesis
    using nat_decimal_zero [of n ds] nat_decimal_digits [of n] lex_digits_end [of "nat_decimal n" s] Cons
    by (auto simp: lex_int_def)
qed simp

lemma lex_num_Itoa: "value_end s \<Longrightarrow> lex_num (Itoa i @ s) = Some (Itoa i, s)"
proof -
  assume s: "value_end s"
  obtain c ds where c: "nat_decimal (nat i) = c # ds" by (cases "nat_decimal (nat i)") auto
  then have "c \<noteq> CHR ''-''" using nat_decimal_hd digit_not_sign by blast
  then show ?thesis
    using s lex_int_decimal [OF s, of "nat i"] lex_int_decimal [OF s, of "nat (- i)"] c
    by (simp add: lex_num_def Itoa_def lex_opt_end)
qed

lemma Itoa_start: "\<exists>c cs. Itoa i = c # cs \<and> (is_digit c \<or> c = CHR ''-'')"
  using nat_decimal_hd by (cases "i < 0"; cases "nat_decimal (nat i)") (auto simp: Itoa_def)

lemma lex_Itoa: "value_end s \<Longrightarrow> lex (Itoa i @ s) = Lit (JNumber (Itoa i)) # lex s"
proof -
  assume s: "value_end s"
  obtain c cs where c: "Itoa i = c # cs" "is_digit c \<or> c = CHR ''-''" using Itoa_start by blast
  then have "c \<notin> {CHR '' '', CHR 0x09, CHR 0x0D, CHR 0x0A, CHR ''['', CHR '']'', CHR ''{'', CHR ''}'',
      CHR '','', CHR '':'', quote, CHR ''n'', CHR ''t'', CHR ''f''}"
    by (auto simp: is_digit_def)
  then show ?thesis
    using lex_num_Itoa [OF s, of i] c(1) by (simp add: json_space_def)
qed

subsection \<open>Strings\<close>

text \<open>\<open>reads_as b u\<close>: the raw text \<open>b\<close> in front of a literal's rest stands for the bytes \<open>u\<close>.\<close>

definition reads_as :: "string \<Rightarrow> string \<Rightarrow> bool" where
  "reads_as b u \<longleftrightarrow>
     (\<forall>t. lex_str (b @ t) = map_option (\<lambda>q. (b @ fst q, snd q)) (lex_str t) \<and> unquote (b @ t) = u @ unquote t)"

lemma apfst_pair: "apfst f = (\<lambda>q. (f (fst q), snd q))"
  by auto

lemma reads_as_append: "reads_as b u \<Longrightarrow> reads_as c v \<Longrightarrow> reads_as (b @ c) (u @ v)"
  by (simp add: reads_as_def option.map_comp comp_def)

lemma lex_str_Cons:
  "c \<noteq> quote \<Longrightarrow> c \<noteq> backslash \<Longrightarrow> 0x20 \<le> (of_char c :: nat) \<Longrightarrow>
   lex_str (c # s) = map_option (\<lambda>q. (c # fst q, snd q)) (lex_str s)"
  by (cases s) (auto simp: apfst_pair)

lemma lex_str_bytes:
  "list_all (\<lambda>c. c \<noteq> quote \<and> c \<noteq> backslash \<and> 0x20 \<le> (of_char c :: nat)) b \<Longrightarrow>
   lex_str (b @ t) = map_option (\<lambda>q. (b @ fst q, snd q)) (lex_str t)"
  by (induction b) (simp_all add: lex_str_Cons option.map_comp comp_def option.map_ident)

lemma unquote_Nil [simp]: "unquote [] = []"
  by (subst unquote.simps) simp

lemma unquote_escape: "e \<noteq> CHR ''u'' \<Longrightarrow> unquote (backslash # e # s) = simple_escape e # unquote s"
  by (subst unquote.simps) simp

lemma unquote_hex:
  "\<not> surrogate (hex4 s) \<Longrightarrow> unquote (backslash # CHR ''u'' # s) = encode_rune (hex4 s) @ unquote (drop 4 s)"
  by (subst unquote.simps) (simp add: Let_def)

lemma unquote_rune:
  "s \<noteq> [] \<Longrightarrow> hd s \<noteq> backslash \<Longrightarrow>
   unquote s = encode_rune (fst (decode_rune s)) @ unquote (drop (snd (decode_rune s)) s)"
  by (cases s; simp; subst unquote.simps; simp)

lemma reads_as_plain:
  assumes "(of_char c :: nat) < 0x80" and "c \<noteq> quote" and "c \<noteq> backslash" and "0x20 \<le> (of_char c :: nat)"
  shows "reads_as [c] [c]"
proof -
  have "encode_rune (of_char c) = [c]" using assms(1) by (simp add: encode_value1)
  then show ?thesis
    using assms by (simp add: reads_as_def lex_str_Cons unquote_rune decode_rune_ascii)
qed

lemma reads_as_escape:
  assumes "e \<in> set [quote, backslash, CHR ''b'', CHR ''f'', CHR ''n'', CHR ''r'', CHR ''t'']"
  shows "reads_as [backslash, e] [simple_escape e]"
proof -
  have "e \<noteq> CHR ''u''" using assms by auto
  then show ?thesis
    using assms by (auto simp: reads_as_def unquote_escape apfst_pair)
qed

lemma is_hex_plain: "is_hex c \<Longrightarrow> c \<noteq> quote \<and> c \<noteq> backslash \<and> 0x20 \<le> (of_char c :: nat)"
  by (auto simp: is_hex_def byte_in_def Let_def)

lemma reads_as_hex4:
  assumes "length h = 4" and "list_all is_hex h" and "\<not> surrogate (hex4 h)"
  shows "reads_as (backslash # CHR ''u'' # h) (encode_rune (hex4 h))"
  unfolding reads_as_def
proof (intro allI conjI)
  fix t
  have "list_all (\<lambda>c. c \<noteq> quote \<and> c \<noteq> backslash \<and> 0x20 \<le> (of_char c :: nat)) h"
    by (rule list.pred_mono_strong [OF assms(2)]) (rule is_hex_plain)
  then have "lex_str (h @ t) = map_option (\<lambda>q. (h @ fst q, snd q)) (lex_str t)" by (rule lex_str_bytes)
  then show "lex_str ((backslash # CHR ''u'' # h) @ t)
      = map_option (\<lambda>q. ((backslash # CHR ''u'' # h) @ fst q, snd q)) (lex_str t)"
    using assms(1,2) by (simp add: option.map_comp comp_def apfst_pair)
  have "hex4 (h @ t) = hex4 h" using assms(1) by (simp add: hex4_def)
  then show "unquote ((backslash # CHR ''u'' # h) @ t) = encode_rune (hex4 h) @ unquote t"
    using assms(1,3) by (simp add: unquote_hex)
qed

lemma hex_digit_facts: "k < 16 \<Longrightarrow> is_hex (hex_digits ! k) \<and> hex_digit_value (hex_digits ! k) = k"
proof -
  have "list_all (\<lambda>k. is_hex (hex_digits ! k) \<and> hex_digit_value (hex_digits ! k) = k) [0..<16]"
    by (simp add: upt_rec hex_digits_def is_hex_def byte_in_def Let_def hex_digit_value_def)
  then show "k < 16 \<Longrightarrow> is_hex (hex_digits ! k) \<and> hex_digit_value (hex_digits ! k) = k"
    by (simp add: list_all_iff)
qed

lemma hex_byte_facts:
  "list_all is_hex (hex_byte c)" "hex4 (CHR ''0'' # CHR ''0'' # hex_byte c) = of_char c"
proof -
  have k: "(of_char c :: nat) div 16 < 16" "(of_char c :: nat) mod 16 < 16"
    by (simp_all add: less_mult_imp_div_less)
  show "list_all is_hex (hex_byte c)"
    using hex_digit_facts [OF k(1)] hex_digit_facts [OF k(2)] by (simp add: hex_byte_def)
  have "16 * ((of_char c :: nat) div 16) + of_char c mod 16 = of_char c" by simp
  then show "hex4 (CHR ''0'' # CHR ''0'' # hex_byte c) = of_char c"
    using hex_digit_facts [OF k(1)] hex_digit_facts [OF k(2)]
    by (simp add: hex_byte_def hex4_def hex_digit_value_def [of "CHR ''0''"])
qed

lemma is_hex_zero: "is_hex (CHR ''0'')"
  by (simp add: is_hex_def byte_in_def)

lemma reads_as_hex_escape: "(of_char c :: nat) < 0x80 \<Longrightarrow> reads_as (hex_escape c) [c]"
proof -
  assume c: "(of_char c :: nat) < 0x80"
  have "length (hex_byte c) = 2" by (simp add: hex_byte_def)
  moreover have "\<not> surrogate (of_char c)" using c by (simp add: surrogate_def byte_in_def)
  moreover have "encode_rune (of_char c) = [c]" using c by (simp add: encode_value1)
  ultimately show ?thesis
    using hex_byte_facts [of c] reads_as_hex4 [of "CHR ''0'' # CHR ''0'' # hex_byte c"] is_hex_zero
    by (simp add: hex_escape_def)
qed

lemma reads_as_byte:
  assumes "(of_char c :: nat) < 0x80"
  shows "reads_as (json_byte c) [c]"
proof -
  have esc: "reads_as [backslash, e] [d]"
    if "e \<in> set [quote, backslash, CHR ''b'', CHR ''f'', CHR ''n'', CHR ''r'', CHR ''t'']" "simple_escape e = d" for e d
    using reads_as_escape [OF that(1)] that(2) by simp
  have "c = quote \<or> c = backslash \<Longrightarrow> ?thesis"
    unfolding json_byte_def by (elim disjE) (simp_all add: esc simple_escape_def)
  moreover have "c = CHR 0x08 \<or> c = CHR 0x0C \<or> c = CHR 0x0A \<or> c = CHR 0x0D \<or> c = CHR 0x09 \<Longrightarrow> ?thesis"
    unfolding json_byte_def by (elim disjE) (simp_all add: esc simple_escape_def)
  moreover have "\<not> (c = quote \<or> c = backslash) \<Longrightarrow>
      \<not> (c = CHR 0x08 \<or> c = CHR 0x0C \<or> c = CHR 0x0A \<or> c = CHR 0x0D \<or> c = CHR 0x09) \<Longrightarrow> ?thesis"
    using reads_as_hex_escape [OF assms] reads_as_plain [OF assms] by (simp add: json_byte_def)
  ultimately show ?thesis by blast
qed

lemma good_piece_bytes:
  assumes "good_piece p" and "length (snd p) \<noteq> 1"
  shows "list_all (\<lambda>c. 0x80 \<le> (of_char c :: nat)) (snd p)"
proof -
  let ?s = "snd p"
  have w: "decode_width ?s = length ?s" and ne: "?s \<noteq> []" using assms(1) by (simp_all add: good_piece_def)
  have up: "[0..<2] = [0, 1 :: nat]" "[0..<3] = [0, 1, 2 :: nat]" "[0..<4] = [0, 1, 2, 3 :: nat]"
    by (simp_all add: upt_rec)
  have s: "?s = map (\<lambda>i. char_of (peek ?s i)) [0..<length ?s]"
    using take_peek [of "length ?s" ?s] by simp
  have small: "peek ?s i < 256" for i by (simp add: peek_def)
  have "length ?s = 2 \<or> length ?s = 3 \<or> length ?s = 4"
    using decode_width_cases [of ?s] w ne assms(2) by auto
  then have "\<forall>i\<in>set [0..<length ?s]. 0x80 \<le> peek ?s i"
    using rune_width_bytes(2-4) [of "peek ?s 0" "peek ?s 1" "peek ?s 2" "peek ?s 3"] w
    by (elim disjE) (auto simp: decode_width_def up byte_in_def second_lo_def split: if_splits)
  then show ?thesis
    by (subst s) (use small in \<open>simp add: list_all_iff\<close>)
qed

lemma reads_as_piece:
  assumes "good_piece p"
  shows "reads_as (json_piece p) (snd p)"
proof (cases "length (snd p) = 1")
  case True
  then obtain c where c: "snd p = [c]" by (auto simp: length_Suc_conv)
  then have "decode_width [c] = 1" "fst p = fst (decode_rune [c])" using assms by (simp_all add: good_piece_def)
  then have "fst p = of_char c" "(of_char c :: nat) < 0x80"
    using rune_width_bytes(1) [of "peek [c] 0" "peek [c] 1" "peek [c] 2" "peek [c] 3"]
    by (simp_all add: decode_rune_def Let_def decode_width_def peek_def)
  then show ?thesis using reads_as_byte by (simp add: json_piece_def c)
next
  case False
  have high: "list_all (\<lambda>c. 0x80 \<le> (of_char c :: nat)) (snd p)" by (rule good_piece_bytes [OF assms False])
  have piece: "json_piece p = (if fst p = 0x2028 then backslash # ''u2028'' else if fst p = 0x2029 then backslash # ''u2029'' else snd p)"
    using False good_not_invalid [OF assms] by (simp add: json_piece_def)
  have hex: "hex4 ''2028'' = 0x2028" "hex4 ''2029'' = 0x2029" by (simp_all add: hex4_def hex_digit_value_def)
  have sep: "reads_as (backslash # ''u2028'') (encode_rune 0x2028)" "reads_as (backslash # ''u2029'') (encode_rune 0x2029)"
    using reads_as_hex4 [of "''2028''"] reads_as_hex4 [of "''2029''"]
    by (simp_all add: hex is_hex_def Let_def surrogate_def byte_in_def)
  have raw: "reads_as (snd p) (snd p)"
    unfolding reads_as_def
  proof (intro allI conjI)
    fix t
    show "lex_str (snd p @ t) = map_option (\<lambda>q. (snd p @ fst q, snd q)) (lex_str t)"
      by (rule lex_str_bytes) (use high in \<open>auto simp: list_all_iff\<close>)
    have ne: "snd p \<noteq> []" using assms by (simp add: good_piece_def)
    then have "hd (snd p) \<noteq> backslash" using high by (auto simp: neq_Nil_conv)
    moreover have "runes (snd p @ t) = p # runes t" by (rule runes_good_append [OF assms])
    then have head: "p = (fst (decode_rune (snd p @ t)), take (snd (decode_rune (snd p @ t))) (snd p @ t))"
      and rest: "runes (drop (snd (decode_rune (snd p @ t))) (snd p @ t)) = runes t"
      using ne runes.simps [of "snd p @ t"] by auto
    have "fst (decode_rune (snd p @ t)) = fst p" using arg_cong [OF head, of fst] by simp
    moreover have "drop (snd (decode_rune (snd p @ t))) (snd p @ t) = t"
      using runes_bytes [of t] runes_bytes [of "drop (snd (decode_rune (snd p @ t))) (snd p @ t)"] rest by simp
    ultimately show "unquote (snd p @ t) = snd p @ unquote t"
      using ne good_piece_encode [OF assms] unquote_rune [of "snd p @ t"] by simp
  qed
  show ?thesis using piece sep raw good_piece_encode [OF assms] by (cases "fst p = 0x2028"; cases "fst p = 0x2029") auto
qed

lemma reads_as_pieces: "list_all good_piece ps \<Longrightarrow> reads_as (concat (map json_piece ps)) (concat (map snd ps))"
proof (induction ps)
  case Nil
  then show ?case by (simp add: reads_as_def option.map_ident)
next
  case (Cons p ps)
  then show ?case by (simp add: reads_as_append reads_as_piece)
qed

lemma lex_json_string:
  assumes "valid_utf8 x"
  shows "lex (json_string x @ s) = Str x # lex s"
proof -
  let ?b = "concat (map json_piece (runes x))"
  have "reads_as ?b x"
    using reads_as_pieces [of "runes x"] assms by (simp add: valid_utf8_iff runes_bytes)
  moreover have "lex_str (quote # s) = Some ([], s)" by (cases s) auto
  ultimately have "lex_str (?b @ quote # s) = Some (?b, s)" "unquote ?b = x"
    unfolding reads_as_def by (simp_all, metis append_Nil2 unquote_Nil)
  then show ?thesis by (simp add: json_string_def json_space_def)
qed

subsection \<open>Whole texts\<close>

lemma lex_punct: "c \<in> set ''[]{},:'' \<Longrightarrow> lex (c # s) = Punct c # lex s"
  by (auto simp: json_space_def)

lemma value_end_sep [simp]:
  "value_end (CHR '','' # s)" "value_end (CHR '']'' # s)" "value_end (CHR ''}'' # s)" "value_end []"
  "value_end (newline # s)"
  by (simp_all add: value_end_def)

declare lex.simps(2) [simp del]

lemma lex_literals:
  "lex (''null'' @ s) = Lit JNull # lex s" "lex (''true'' @ s) = Lit (JBool True) # lex s"
  "lex (''false'' @ s) = Lit (JBool False) # lex s"
  by (simp_all add: lex.simps(2) json_space_def)

lemma lex_text:
  "json_ok v \<Longrightarrow> value_end s \<Longrightarrow> lex (json_text v @ s) = json_tokens v @ lex s"
  "items_ok xs \<Longrightarrow> lex (json_items xs @ CHR '']'' # s) = item_tokens xs @ Punct (CHR '']'') # lex s"
  "members_ok ms \<Longrightarrow> lex (json_members ms @ CHR ''}'' # s) = member_tokens ms @ Punct (CHR ''}'') # lex s"
proof (induction v and xs and ms arbitrary: s and s and s rule: json_text_json_items_json_members.induct)
  case 1
  then show ?case using lex_literals by simp
next
  case (2 b)
  then show ?case using lex_literals by simp
next
  case (3 n)
  then show ?case by (auto simp: lex_Itoa)
qed (simp_all add: lex_punct lex_json_string)

theorem parse_text: "json_ok v \<Longrightarrow> json_depth v \<le> 10000 \<Longrightarrow> parse_json (json_text v) = Some v"
  using lex_text(1) [of v "[]"] read_json_tokens [of v "[]"] by (simp add: parse_json_def)

section \<open>Decoding into a struct\<close>

text \<open>
  A struct is decoded member by member: the name is matched exactly, or else up to case
  folding; an unknown name is skipped, or an error under \<^verbatim>\<open>DisallowUnknownFields\<close>; a later
  member of the same name overwrites an earlier one; null leaves a field as it is.  A type
  error is an error of the whole decoding.  The names of the program's structs are ASCII, so
  of the simple case foldings only those that lead to ASCII letters matter.
\<close>

definition fold_rune :: "rune \<Rightarrow> rune" where
  "fold_rune r = (if byte_in 97 122 r then r - 32 else if r = 0x17F then 83 else if r = 0x212A then 75 else r)"

definition fold_name :: "string \<Rightarrow> rune list" where
  "fold_name s = map (fold_rune \<circ> fst) (runes s)"

type_synonym 'r field = "string \<times> (json \<Rightarrow> 'r \<Rightarrow> 'r option)"

definition find_field :: "'r field list \<Rightarrow> string \<Rightarrow> (json \<Rightarrow> 'r \<Rightarrow> 'r option) option" where
  "find_field fs k =
     (case map_of fs k of
        Some f \<Rightarrow> Some f
      | None \<Rightarrow> map_option snd (find (\<lambda>(n, f). fold_name n = fold_name k) fs))"

fun set_fields :: "bool \<Rightarrow> 'r field list \<Rightarrow> (string \<times> json) list \<Rightarrow> 'r \<Rightarrow> 'r option" where
  "set_fields strict fs [] r = Some r"
| "set_fields strict fs ((k, v) # ms) r =
     (case find_field fs k of
        None \<Rightarrow> if strict then None else set_fields strict fs ms r
      | Some f \<Rightarrow> (case f v r of None \<Rightarrow> None | Some r \<Rightarrow> set_fields strict fs ms r))"

fun set_struct :: "bool \<Rightarrow> 'r field list \<Rightarrow> json \<Rightarrow> 'r \<Rightarrow> 'r option" where
  "set_struct strict fs (JObject ms) r = set_fields strict fs ms r"
| "set_struct strict fs JNull r = Some r"
| "set_struct strict fs v r = None"

fun set_string :: "(string \<Rightarrow> 'r \<Rightarrow> 'r) \<Rightarrow> json \<Rightarrow> 'r \<Rightarrow> 'r option" where
  "set_string f (JString s) r = Some (f s r)"
| "set_string f JNull r = Some r"
| "set_string f v r = None"

fun set_bool :: "(bool \<Rightarrow> 'r \<Rightarrow> 'r) \<Rightarrow> json \<Rightarrow> 'r \<Rightarrow> 'r option" where
  "set_bool f (JBool b) r = Some (f b r)"
| "set_bool f JNull r = Some r"
| "set_bool f v r = None"

text \<open>An integer field takes a literal without fraction and exponent that fits 64 bits.\<close>

fun set_int :: "(int \<Rightarrow> 'r \<Rightarrow> 'r) \<Rightarrow> json \<Rightarrow> 'r \<Rightarrow> 'r option" where
  "set_int f (JNumber n) r = map_option (\<lambda>i. f i r) (Atoi n)"
| "set_int f JNull r = Some r"
| "set_int f v r = None"

text \<open>\<^verbatim>\<open>json.Unmarshal\<close> of a text, and \<^verbatim>\<open>Decode\<close> with unknown fields disallowed.\<close>

definition unmarshal :: "'r field list \<Rightarrow> 'r \<Rightarrow> string \<Rightarrow> 'r option" where
  "unmarshal fs r s = Option.bind (parse_json s) (\<lambda>v. set_struct False fs v r)"

definition decode_strict :: "'r field list \<Rightarrow> 'r \<Rightarrow> string \<Rightarrow> 'r option" where
  "decode_strict fs r s = Option.bind (first_json s) (\<lambda>v. set_struct True fs v r)"

lemma find_field_exact: "map_of fs k = Some f \<Longrightarrow> find_field fs k = Some f"
  by (simp add: find_field_def)

lemma unmarshal_text:
  "json_ok (JObject ms) \<Longrightarrow> json_depth (JObject ms) \<le> 10000 \<Longrightarrow>
   unmarshal fs r (json_text (JObject ms)) = set_fields False fs ms r"
  by (simp add: unmarshal_def parse_text del: json_text.simps json_ok.simps json_depth.simps)

end
