(* ===== verification/Paths.thy ===== *)
theory Paths imports Utf8 begin

text \<open>
  Strings cut into fields, and \<^verbatim>\<open>path/filepath\<close> on Unix: \<^verbatim>\<open>Clean\<close>, \<^verbatim>\<open>Join\<close>, \<^verbatim>\<open>Base\<close>,
  \<^verbatim>\<open>Dir\<close> and \<^verbatim>\<open>Rel\<close>, each over the list of components of a path.  The lemmas relate the
  text of a clean absolute path to its components, which is what the containment checks of
  the components reason about.
\<close>

section \<open>Splitting and joining\<close>

fun split_on :: "char \<Rightarrow> string \<Rightarrow> string list" where
  "split_on d [] = [[]]"
| "split_on d (c # s) =
     (if c = d then [] # split_on d s
      else (case split_on d s of [] \<Rightarrow> [[c]] | p # ps \<Rightarrow> (c # p) # ps))"

fun join_with :: "string \<Rightarrow> string list \<Rightarrow> string" where
  "join_with sep [] = []"
| "join_with sep [p] = p"
| "join_with sep (p # q # ps) = p @ sep @ join_with sep (q # ps)"

lemma split_on_nonempty [simp]: "split_on d s \<noteq> []"
  by (cases s) (auto split: list.splits)

lemma split_on_free: "p \<in> set (split_on d s) \<Longrightarrow> d \<notin> set p"
  by (induction s arbitrary: p) (auto split: if_splits list.splits)

lemma split_on_append_free: "d \<notin> set p \<Longrightarrow> split_on d (p @ d # s) = p # split_on d s"
  by (induction p) auto

lemma split_on_whole: "d \<notin> set p \<Longrightarrow> split_on d p = [p]"
  by (induction p) auto

lemma split_join:
  "ps \<noteq> [] \<Longrightarrow> (\<And>p. p \<in> set ps \<Longrightarrow> d \<notin> set p) \<Longrightarrow> split_on d (join_with [d] ps) = ps"
  by (induction "[d]" ps rule: join_with.induct) (simp_all add: split_on_whole split_on_append_free)

lemma join_split: "join_with [d] (split_on d s) = s"
proof (induction s)
  case (Cons c s)
  then show ?case by (cases "split_on d s"; cases "tl (split_on d s)") (auto split: list.splits)
qed simp

section \<open>White space\<close>

text \<open>\<^verbatim>\<open>unicode.IsSpace\<close>, \<^verbatim>\<open>strings.TrimSpace\<close> and \<^verbatim>\<open>strings.Fields\<close>.\<close>

definition IsSpace :: "rune \<Rightarrow> bool" where
  "IsSpace r \<longleftrightarrow> byte_in 9 13 r \<or> byte_in 0x2000 0x200A r
     \<or> r \<in> {0x20, 0x85, 0xA0, 0x1680, 0x2028, 0x2029, 0x202F, 0x205F, 0x3000}"

definition TrimSpace :: "string \<Rightarrow> string" where
  "TrimSpace s =
     concat (map snd (rev (dropWhile (IsSpace \<circ> fst) (rev (dropWhile (IsSpace \<circ> fst) (runes s))))))"

fun fields_of :: "string \<Rightarrow> (rune \<times> string) list \<Rightarrow> string list" where
  "fields_of word [] = (if word = [] then [] else [word])"
| "fields_of word (p # ps) =
     (if IsSpace (fst p) then (if word = [] then [] else [word]) @ fields_of [] ps
      else fields_of (word @ snd p) ps)"

definition Fields :: "string \<Rightarrow> string list" where
  "Fields s = fields_of [] (runes s)"

section \<open>Paths\<close>

abbreviation slash :: char where "slash \<equiv> CHR ''/''"
abbreviation dot :: string where "dot \<equiv> ''.''"
abbreviation dotdot :: string where "dotdot \<equiv> ''..''"

definition rooted :: "string \<Rightarrow> bool" where
  "rooted s \<longleftrightarrow> HasPrefix s [slash]"

fun clean_parts :: "bool \<Rightarrow> string list \<Rightarrow> string list \<Rightarrow> string list" where
  "clean_parts r acc [] = acc"
| "clean_parts r acc (c # cs) =
     (if c = [] \<or> c = dot then clean_parts r acc cs
      else if c = dotdot then
        (if acc \<noteq> [] \<and> last acc \<noteq> dotdot then clean_parts r (butlast acc) cs
         else if r then clean_parts r acc cs
         else clean_parts r (acc @ [dotdot]) cs)
      else clean_parts r (acc @ [c]) cs)"

definition parts :: "string \<Rightarrow> string list" where
  "parts s = clean_parts (rooted s) [] (split_on slash s)"

definition abs_path :: "string list \<Rightarrow> string" where
  "abs_path ps = slash # join_with [slash] ps"

definition Clean :: "string \<Rightarrow> string" where
  "Clean s =
     (if rooted s then abs_path (parts s) else if parts s = [] then dot else join_with [slash] (parts s))"

text \<open>\<^verbatim>\<open>filepath.Join\<close> of two elements.\<close>

definition Join :: "string \<Rightarrow> string \<Rightarrow> string" where
  "Join a b = (if a \<noteq> [] then Clean (a @ slash # b) else if b \<noteq> [] then Clean b else [])"

definition strip_slashes :: "string \<Rightarrow> string" where
  "strip_slashes s = rev (dropWhile (\<lambda>c. c = slash) (rev s))"

definition Base :: "string \<Rightarrow> string" where
  "Base s =
     (if s = [] then dot
      else let t = last (split_on slash (strip_slashes s)) in if t = [] then [slash] else t)"

definition Dir :: "string \<Rightarrow> string" where
  "Dir s = (case LastIndexByte s slash of None \<Rightarrow> dot | Some i \<Rightarrow> Clean (take (Suc i) s))"

fun strip_common :: "string list \<Rightarrow> string list \<Rightarrow> string list \<times> string list" where
  "strip_common (b # bs) (t # ts) = (if b = t then strip_common bs ts else (b # bs, t # ts))"
| "strip_common bs ts = (bs, ts)"

text \<open>\<^verbatim>\<open>filepath.Rel\<close>; \<open>None\<close> where it returns an error.\<close>

definition Rel :: "string \<Rightarrow> string \<Rightarrow> string option" where
  "Rel b t =
     (if Clean t = Clean b then Some dot
      else if rooted b \<noteq> rooted t then None
      else
        let (bs, ts) = strip_common (parts b) (parts t)
        in if bs \<noteq> [] \<and> hd bs = dotdot then None
           else Some (join_with [slash] (replicate (length bs) dotdot @ ts)))"

section \<open>Clean absolute paths\<close>

text \<open>The components of a clean absolute path: neither empty, nor dots, nor with a slash.\<close>

definition good_part :: "string \<Rightarrow> bool" where
  "good_part c \<longleftrightarrow> c \<noteq> [] \<and> c \<noteq> dot \<and> c \<noteq> dotdot \<and> slash \<notin> set c"

lemma clean_parts_good:
  "list_all good_part acc \<Longrightarrow> list_all (\<lambda>c. slash \<notin> set c) cs \<Longrightarrow> list_all good_part (clean_parts True acc cs)"
proof (induction cs arbitrary: acc)
  case (Cons c cs)
  have "list_all good_part (butlast acc)" using Cons.prems(1) by (auto simp: list_all_iff dest: in_set_butlastD)
  then show ?case using Cons by (auto simp: good_part_def [of c])
qed simp

lemma parts_good: "rooted s \<Longrightarrow> list_all good_part (parts s)"
  unfolding parts_def by (simp, rule clean_parts_good) (simp_all add: list_all_iff split_on_free)

lemma clean_parts_id: "list_all good_part cs \<Longrightarrow> clean_parts r acc cs = acc @ cs"
  by (induction cs arbitrary: acc) (auto simp: good_part_def)

lemma rooted_abs_path [simp]: "rooted (abs_path ps)"
  by (simp add: rooted_def abs_path_def)

lemma split_abs_path:
  "list_all good_part ps \<Longrightarrow> split_on slash (abs_path ps) = [] # (if ps = [] then [[]] else ps)"
  by (auto simp: abs_path_def split_join good_part_def list_all_iff)

lemma parts_abs_path [simp]: "list_all good_part ps \<Longrightarrow> parts (abs_path ps) = ps"
  by (simp add: parts_def split_abs_path clean_parts_id)

lemma Clean_abs_path: "list_all good_part ps \<Longrightarrow> Clean (abs_path ps) = abs_path ps"
  by (simp add: Clean_def)

lemma Clean_rooted: "rooted s \<Longrightarrow> Clean s = abs_path (parts s)"
  by (simp add: Clean_def)

lemma Clean_idem: "rooted s \<Longrightarrow> Clean (Clean s) = Clean s"
  by (simp add: Clean_rooted parts_good)

lemma abs_path_eq_iff:
  "list_all good_part ps \<Longrightarrow> list_all good_part qs \<Longrightarrow> abs_path ps = abs_path qs \<longleftrightarrow> ps = qs"
  by (metis parts_abs_path)

lemma strip_common_prefix: "fst (strip_common bs ts) = [] \<longleftrightarrow> take (length bs) ts = bs"
  by (induction bs ts rule: strip_common.induct) auto

lemma strip_common_rest: "take (length bs) ts = bs \<Longrightarrow> snd (strip_common bs ts) = drop (length bs) ts"
  by (induction bs ts rule: strip_common.induct) auto

text \<open>
  The test the programs make on a relative path, that it is not \<open>..\<close> and does not start
  with \<open>../\<close>: for clean absolute paths it is the test that one path lies below the other.
\<close>

lemma join_dotdot:
  "join_with [slash] (replicate (Suc n) dotdot @ ts) = dotdot
   \<or> HasPrefix (join_with [slash] (replicate (Suc n) dotdot @ ts)) (dotdot @ [slash])"
  by (cases "replicate n dotdot @ ts") auto

lemma join_no_dotdot:
  assumes "list_all good_part ts"
  shows "join_with [slash] ts \<noteq> dotdot \<and> \<not> HasPrefix (join_with [slash] ts) (dotdot @ [slash])"
proof (cases ts)
  case (Cons t ts')
  have t: "good_part t" using assms Cons by simp
  let ?j = "join_with [slash] ts"
  have "split_on slash ?j = ts" using assms Cons by (intro split_join) (auto simp: list_all_iff good_part_def)
  moreover have "hd (split_on slash ?j) = dotdot" if "?j = dotdot \<or> HasPrefix ?j (dotdot @ [slash])"
  proof -
    have "?j = dotdot \<or> (\<exists>r. ?j = dotdot @ slash # r)"
      using \<open>?j = dotdot \<or> HasPrefix ?j (dotdot @ [slash])\<close> by (auto simp: HasPrefix_iff)
    then show ?thesis by auto
  qed
  ultimately show ?thesis using t Cons by (auto simp: good_part_def)
qed simp

theorem Rel_inside:
  assumes "list_all good_part bs" and "list_all good_part ts"
  shows "(\<exists>rel. Rel (abs_path bs) (abs_path ts) = Some rel \<and> rel \<noteq> dotdot \<and> \<not> HasPrefix rel (dotdot @ [slash]))
    \<longleftrightarrow> take (length bs) ts = bs"
proof (cases "ts = bs")
  case True
  then show ?thesis by (simp add: Rel_def)
next
  case False
  obtain us vs where s: "strip_common bs ts = (us, vs)" by fastforce
  have ne: "Clean (abs_path ts) \<noteq> Clean (abs_path bs)"
    using assms False by (simp add: Clean_abs_path abs_path_eq_iff)
  have sub: "set us \<subseteq> set bs \<and> set vs \<subseteq> set ts"
    using s by (induction bs ts arbitrary: us vs rule: strip_common.induct) (auto split: if_splits)
  have us: "\<not> hd us = dotdot" if "us \<noteq> []"
    using sub assms(1) hd_in_set [OF that] unfolding list_all_iff good_part_def by blast
  have vs: "list_all good_part vs" using sub assms(2) by (auto simp: list_all_iff)
  have rel: "Rel (abs_path bs) (abs_path ts) = Some (join_with [slash] (replicate (length us) dotdot @ vs))"
    using ne s assms by (simp add: Rel_def) (blast dest: us)
  show ?thesis
  proof (cases us)
    case Nil
    then show ?thesis
      using rel join_no_dotdot [OF vs] strip_common_prefix [of bs ts] s by simp
  next
    case (Cons u us')
    then show ?thesis
      using rel join_dotdot [of "length us'" vs] strip_common_prefix [of bs ts] s by auto
  qed
qed

section \<open>Joining a directory and a file name\<close>

lemma split_on_append: "split_on d (a @ d # b) = split_on d a @ split_on d b"
proof (induction a)
  case (Cons c a)
  then show ?case by (cases "split_on d a") auto
qed simp

lemma clean_parts_append: "clean_parts r acc (xs @ ys) = clean_parts r (clean_parts r acc xs) ys"
  by (induction r acc xs rule: clean_parts.induct) auto

lemma clean_parts_slashes:
  "list_all (\<lambda>c. slash \<notin> set c) acc \<Longrightarrow> list_all (\<lambda>c. slash \<notin> set c) cs \<Longrightarrow>
   list_all (\<lambda>c. slash \<notin> set c) (clean_parts r acc cs)"
proof (induction r acc cs rule: clean_parts.induct)
  case (2 r acc c cs)
  have "list_all (\<lambda>c. slash \<notin> set c) (butlast acc)"
    using "2.prems"(1) by (auto simp: list_all_iff dest: in_set_butlastD)
  then show ?case using 2 by auto
qed simp

lemma parts_slashes: "p \<in> set (parts s) \<Longrightarrow> slash \<notin> set p"
  using clean_parts_slashes [of "[]" "split_on slash s" "rooted s"] split_on_free
  by (auto simp: parts_def list_all_iff)

lemma rooted_append: "a \<noteq> [] \<Longrightarrow> rooted (a @ b) = rooted a"
  by (cases a) (auto simp: rooted_def)

lemma parts_Join:
  assumes "a \<noteq> []" and "good_part b"
  shows "parts (a @ slash # b) = parts a @ [b]"
  using assms by (simp add: parts_def split_on_append split_on_whole good_part_def clean_parts_append rooted_append)

lemma Join_good:
  assumes "a \<noteq> []" and "good_part b"
  shows "Join a b = (if rooted a then abs_path (parts a @ [b]) else join_with [slash] (parts a @ [b]))"
  using assms by (simp add: Join_def Clean_def rooted_append parts_Join)

lemma join_snoc_eq_iff:
  assumes "\<And>p. p \<in> set ps \<Longrightarrow> slash \<notin> set p" and "slash \<notin> set a" and "slash \<notin> set b"
  shows "join_with [slash] (ps @ [a]) = join_with [slash] (ps @ [b]) \<longleftrightarrow> a = b"
proof
  assume "join_with [slash] (ps @ [a]) = join_with [slash] (ps @ [b])"
  moreover have "split_on slash (join_with [slash] (ps @ [c])) = ps @ [c]" if "slash \<notin> set c" for c
    using assms(1) that by (intro split_join) auto
  ultimately show "a = b" using assms(2,3) by (metis last_snoc)
qed simp

lemma Join_eq_iff:
  "d \<noteq> [] \<Longrightarrow> good_part a \<Longrightarrow> good_part b \<Longrightarrow> Join d a = Join d b \<longleftrightarrow> a = b"
  using join_snoc_eq_iff [of "parts d" a b] parts_slashes
  by (auto simp: Join_good abs_path_def good_part_def)

lemma abs_path_nonempty [simp]: "abs_path ps \<noteq> []"
  by (simp add: abs_path_def)

lemma strip_slashes_id: "s \<noteq> [] \<Longrightarrow> last s \<noteq> slash \<Longrightarrow> strip_slashes s = s"
  by (cases s rule: rev_cases) (auto simp: strip_slashes_def)

lemma Base_abs_path:
  assumes "list_all good_part (ps @ [c])"
  shows "Base (abs_path (ps @ [c])) = c"
proof -
  have c: "c \<noteq> []" "slash \<notin> set c" and all: "list_all good_part (ps @ [c])"
    using assms by (auto simp: good_part_def)
  obtain u where u: "join_with [slash] (ps @ [c]) = u @ c"
  proof (cases ps rule: rev_cases)
    case Nil
    then show ?thesis using that [of "[]"] by simp
  next
    case (snoc qs q)
    have "\<exists>u. join_with [slash] (qs @ [q, c]) = u @ c" for qs
      by (induction "[slash]" qs rule: join_with.induct) auto
    then show ?thesis using that snoc by auto
  qed
  have "last c \<noteq> slash" using c last_in_set by metis
  then have "strip_slashes (abs_path (ps @ [c])) = abs_path (ps @ [c])"
    using c(1) by (intro strip_slashes_id) (simp_all add: abs_path_def u)
  moreover have "split_on slash (abs_path (ps @ [c])) = [] # ps @ [c]"
    using split_abs_path [OF all] by simp
  ultimately show ?thesis using c(1) by (simp add: Base_def)
qed

lemma LastIndexByte_append_free:
  "d \<notin> set c \<Longrightarrow> LastIndexByte (s @ d # c) d = Some (length s)"
proof -
  have none: "d \<notin> set c \<Longrightarrow> LastIndexByte c d = None" by (induction c) auto
  assume "d \<notin> set c"
  then show ?thesis using none by (induction s) auto
qed

lemma abs_path_snoc: "\<exists>u. abs_path (ps @ [c]) = u @ slash # c \<and> parts (u @ [slash]) = parts (abs_path ps)"
proof (induction ps)
  case Nil
  have "parts [slash] = parts (abs_path [])" by (simp add: abs_path_def)
  then show ?case by (intro exI [of _ "[]"]) (simp add: abs_path_def)
next
  case (Cons p ps)
  have "join_with [slash] (p # ps @ [c]) = join_with [slash] (p # ps) @ slash # c"
    by (induction "[slash]" "p # ps" arbitrary: p ps rule: join_with.induct) (auto split: list.splits)
  then have "abs_path ((p # ps) @ [c]) = abs_path (p # ps) @ slash # c" by (simp add: abs_path_def)
  moreover have "parts (abs_path (p # ps) @ [slash]) = parts (abs_path (p # ps))"
    using split_on_append [of slash "abs_path (p # ps)" "[]"]
    by (simp add: parts_def clean_parts_append rooted_append)
  ultimately show ?case by blast
qed

lemma Dir_abs_path:
  assumes "list_all good_part (ps @ [c])"
  shows "Dir (abs_path (ps @ [c])) = abs_path ps"
proof -
  obtain u where u: "abs_path (ps @ [c]) = u @ slash # c" "parts (u @ [slash]) = parts (abs_path ps)"
    using abs_path_snoc by blast
  have "rooted (u @ [slash])"
    using u(1) rooted_abs_path [of "ps @ [c]"] by (cases u) (auto simp: rooted_def)
  then show ?thesis
    using assms u by (simp add: Dir_def LastIndexByte_append_free good_part_def Clean_rooted)
qed

lemma Dir_Base_root: "Dir (abs_path []) = abs_path []" "Base (abs_path []) = [slash]"
  by (simp_all add: Dir_def Base_def abs_path_def strip_slashes_def Clean_def rooted_def parts_def)

lemma Join_abs_path: "list_all good_part (ps @ [c]) \<Longrightarrow> Join (abs_path ps) c = abs_path (ps @ [c])"
  by (simp add: Join_good)

lemma Join_root: "Join (abs_path []) [slash] = abs_path []"
  by (simp add: Join_def abs_path_def Clean_def rooted_def parts_def)

end
