(* ===== verification/Executor_Output.thy ===== *)
theory Executor_Output imports Json_Text Paths begin

text \<open>
  Output of commands as text: \<^verbatim>\<open>internal/executor/executor.go\<close> (\<^verbatim>\<open>capped\<close>,
  \<^verbatim>\<open>normalizePortableOutput\<close>, \<^verbatim>\<open>encodePowerShell\<close>) and \<^verbatim>\<open>output_windows.go\<close>.  Go's UTF-16
  conversions are modelled on lists of 16-bit code units.  The XML reader that the clean-up of
  PowerShell envelopes uses is a parameter.
\<close>

section \<open>Bounded collection of output\<close>

definition MaxOutput :: nat where "MaxOutput = 2 ^ 20"

record capped =
  cb_b :: string
  cb_n :: int

definition empty_capped :: capped where
  "empty_capped = \<lparr>cb_b = [], cb_n = 0\<rparr>"

definition capped_Write :: "string \<Rightarrow> capped \<Rightarrow> nat \<times> capped" where
  "capped_Write p c =
     (let n = length p; remain = int MaxOutput - cb_n c
      in if 0 < remain then
           let p = (if remain < int (length p) then take (nat remain) p else p)
           in (n, c\<lparr>cb_b := cb_b c @ p, cb_n := cb_n c + int (length p)\<rparr>)
         else (n, c))"

definition capped_snapshot :: "capped \<Rightarrow> string \<times> int" where
  "capped_snapshot c = (cb_b c, cb_n c)"

fun capped_writes :: "string list \<Rightarrow> capped \<Rightarrow> capped" where
  "capped_writes [] c = c"
| "capped_writes (p # ps) c = capped_writes ps (snd (capped_Write p c))"

section \<open>UTF-16\<close>

fun utf16_decode :: "nat list \<Rightarrow> rune list" where
  "utf16_decode [] = []"
| "utf16_decode [w] = [if surrogate w then rune_error else w]"
| "utf16_decode (w # v # ws) =
     (if byte_in 0xD800 0xDBFF w \<and> byte_in 0xDC00 0xDFFF v then pair_rune w v # utf16_decode ws
      else (if surrogate w then rune_error else w) # utf16_decode (v # ws))"

fun utf16_encode :: "rune list \<Rightarrow> nat list" where
  "utf16_encode [] = []"
| "utf16_encode (r # rs) =
     (if r < 0x10000 \<and> \<not> surrogate r then [r]
      else if 0x10000 \<le> r \<and> r \<le> 0x10FFFF then
        [0xD800 + (r - 0x10000) div 1024, 0xDC00 + (r - 0x10000) mod 1024]
      else [rune_error]) @ utf16_encode rs"

fun le_words :: "string \<Rightarrow> nat list" where
  "le_words (a # b # s) = (of_char a + 256 * of_char b) # le_words s"
| "le_words _ = []"

fun be_words :: "string \<Rightarrow> nat list" where
  "be_words (a # b # s) = (256 * of_char a + of_char b) # be_words s"
| "be_words _ = []"

definition le_bytes :: "nat list \<Rightarrow> string" where
  "le_bytes ws = concat (map (\<lambda>w. [char_of (w mod 256), char_of (w div 256)]) ws)"

definition string_of_runes :: "rune list \<Rightarrow> string" where
  "string_of_runes rs = concat (map encode_rune rs)"

definition runes_of_string :: "string \<Rightarrow> rune list" where
  "runes_of_string s = map fst (runes s)"

section \<open>The portable conversion\<close>

definition normalizePortableOutput :: "string \<Rightarrow> string" where
  "normalizePortableOutput data =
     (if 2 \<le> length data
         \<and> (take 2 data = [CHR 0xFF, CHR 0xFE] \<or> length data div 4 < length (filter (\<lambda>c. c = nul) data))
      then
        let data = (if take 2 data = [CHR 0xFF, CHR 0xFE] then drop 2 data else data)
        in string_of_runes (utf16_decode (le_words data))
      else ToValidUTF8 data replacement)"

definition encodePowerShell :: "string \<Rightarrow> string" where
  "encodePowerShell s = StdEncode (le_bytes (utf16_encode (runes_of_string s)))"

section \<open>The Windows conversion\<close>

text \<open>The ratio of zero bytes at the even or odd positions, as numerator and denominator.\<close>

fun every_second :: "string \<Rightarrow> string" where
  "every_second [] = []"
| "every_second [c] = [c]"
| "every_second (c # d # s) = c # every_second s"

definition utf16ZeroRatio :: "string \<Rightarrow> nat \<Rightarrow> nat \<times> nat" where
  "utf16ZeroRatio b parity =
     (if length b < 4 then (0, 1)
      else let xs = every_second (drop parity b) in (length (filter (\<lambda>c. c = nul) xs), length xs))"

definition mostly_zero :: "nat \<times> nat \<Rightarrow> bool" where
  "mostly_zero q \<longleftrightarrow> 60 * snd q \<le> 100 * fst q"

definition decodeUTF16 :: "string \<Rightarrow> bool \<Rightarrow> string" where
  "decodeUTF16 b bigEndian = string_of_runes (utf16_decode (if bigEndian then be_words b else le_words b))"

definition cp850 :: "nat list" where
  "cp850 =
     [0x00c7, 0x00fc, 0x00e9, 0x00e2, 0x00e4, 0x00e0, 0x00e5, 0x00e7, 0x00ea, 0x00eb, 0x00e8, 0x00ef, 0x00ee, 0x00ec, 0x00c4, 0x00c5,
      0x00c9, 0x00e6, 0x00c6, 0x00f4, 0x00f6, 0x00f2, 0x00fb, 0x00f9, 0x00ff, 0x00d6, 0x00dc, 0x00f8, 0x00a3, 0x00d8, 0x00d7, 0x0192,
      0x00e1, 0x00ed, 0x00f3, 0x00fa, 0x00f1, 0x00d1, 0x00aa, 0x00ba, 0x00bf, 0x00ae, 0x00ac, 0x00bd, 0x00bc, 0x00a1, 0x00ab, 0x00bb,
      0x2591, 0x2592, 0x2593, 0x2502, 0x2524, 0x00c1, 0x00c2, 0x00c0, 0x00a9, 0x2563, 0x2551, 0x2557, 0x255d, 0x00a2, 0x00a5, 0x2510,
      0x2514, 0x2534, 0x252c, 0x251c, 0x2500, 0x253c, 0x00e3, 0x00c3, 0x255a, 0x2554, 0x2569, 0x2566, 0x2560, 0x2550, 0x256c, 0x00a4,
      0x00f0, 0x00d0, 0x00ca, 0x00cb, 0x00c8, 0x0131, 0x00cd, 0x00ce, 0x00cf, 0x2518, 0x250c, 0x2588, 0x2584, 0x00a6, 0x00cc, 0x2580,
      0x00d3, 0x00df, 0x00d4, 0x00d2, 0x00f5, 0x00d5, 0x00b5, 0x00fe, 0x00de, 0x00da, 0x00db, 0x00d9, 0x00fd, 0x00dd, 0x00af, 0x00b4,
      0x00ad, 0x00b1, 0x2017, 0x00be, 0x00b6, 0x00a7, 0x00f7, 0x00b8, 0x00b0, 0x00a8, 0x00b7, 0x00b9, 0x00b3, 0x00b2, 0x25a0, 0x00a0]"

definition cp1252 :: "nat list" where
  "cp1252 =
     fold (\<lambda>(i, r) t. t[i := r])
       [(0, 0x20ac), (2, 0x201a), (3, 0x0192), (9, 0x2030), (17, 0x2018), (18, 0x2019), (19, 0x201c), (20, 0x201d),
        (21, 0x2022), (22, 0x2013), (23, 0x2014), (25, 0x2122)]
       [128..<256]"

definition decodeWindowsCodePage :: "string \<Rightarrow> nat \<Rightarrow> string" where
  "decodeWindowsCodePage b codePage =
     (let table = (if codePage = 1252 then cp1252 else cp850)
      in concat (map (\<lambda>c. if (of_char c :: nat) < 0x80 then [c] else encode_rune (table ! (of_char c - 128))) b))"

text \<open>\<^verbatim>\<open>strconv.ParseUint\<close> of four hexadecimal digits.\<close>

fun decodeCLIXMLEscapes :: "string \<Rightarrow> string" where
  "decodeCLIXMLEscapes (a # b # c # d # e # f # g # s) =
     (if a = CHR ''_'' \<and> b = CHR ''x'' \<and> g = CHR ''_'' \<and> list_all is_hex [c, d, e, f]
      then encode_rune (hex4 [c, d, e, f]) @ decodeCLIXMLEscapes s
      else a # decodeCLIXMLEscapes (b # c # d # e # f # g # s))"
| "decodeCLIXMLEscapes s = s"

text \<open>
  What the XML reader delivers: for each element \<^verbatim>\<open>S\<close> the lower-case value of its attribute
  \<^verbatim>\<open>S\<close> and its text, or \<open>None\<close> for malformed input.
\<close>

type_synonym xml_reader = "string \<Rightarrow> (string \<times> string) list option"

definition clixml_mark :: string where
  "clixml_mark = ''#< CLIXML''"

definition cleanPowerShellCLIXML :: "xml_reader \<Rightarrow> string \<Rightarrow> string" where
  "cleanPowerShellCLIXML xml s =
     (let trimmed = TrimSpace s
      in if \<not> HasPrefix trimmed clixml_mark then s
         else case xml (TrimSpace (TrimPrefix trimmed clixml_mark)) of
           None \<Rightarrow> s
         | Some elements \<Rightarrow>
             let kept = filter (\<lambda>(stream, v). stream \<noteq> ''progress'' \<and> stream \<noteq> ''debug'' \<and> stream \<noteq> ''verbose'') elements;
                 lines = filter (\<lambda>v. v \<noteq> []) (map (decodeCLIXMLEscapes \<circ> snd) kept)
             in if lines = [] then [] else join_with [newline] lines @ [newline])"

definition normalizeWindowsOutput :: "xml_reader \<Rightarrow> nat \<Rightarrow> string \<Rightarrow> nat \<Rightarrow> string" where
  "normalizeWindowsOutput xml oemcp data codePage =
     (if data = [] then []
      else
        let t = (if 2 \<le> length data \<and> take 2 data = [CHR 0xFF, CHR 0xFE] then decodeUTF16 (drop 2 data) False
                    else if 2 \<le> length data \<and> take 2 data = [CHR 0xFE, CHR 0xFF] then decodeUTF16 (drop 2 data) True
                    else if mostly_zero (utf16ZeroRatio data 1) then decodeUTF16 data False
                    else if mostly_zero (utf16ZeroRatio data 0) then decodeUTF16 data True
                    else if HasPrefix data [CHR 0xEF, CHR 0xBB, CHR 0xBF] then drop 3 data
                    else if valid_utf8 data then data
                    else decodeWindowsCodePage data (if codePage = 0 then oemcp else codePage))
        in cleanPowerShellCLIXML xml (TrimPrefix t [CHR 0xEF, CHR 0xBB, CHR 0xBF]))"

section \<open>The buffer keeps a prefix\<close>

definition capped_ok :: "capped \<Rightarrow> bool" where
  "capped_ok c \<longleftrightarrow> cb_n c = int (length (cb_b c)) \<and> length (cb_b c) \<le> MaxOutput"

lemma capped_Write_spec:
  assumes "capped_ok c"
  shows "fst (capped_Write p c) = length p" and "capped_ok (snd (capped_Write p c))"
    and "cb_b (snd (capped_Write p c)) = take MaxOutput (cb_b c @ p)"
proof -
  let ?m = "MaxOutput - length (cb_b c)"
  have eq: "int MaxOutput - cb_n c = int ?m" using assms by (simp add: capped_ok_def)
  have nd: "nat (int MaxOutput - int (length (cb_b c))) = ?m" by linarith
  show "fst (capped_Write p c) = length p" by (simp add: capped_Write_def Let_def)
  show "capped_ok (snd (capped_Write p c))" "cb_b (snd (capped_Write p c)) = take MaxOutput (cb_b c @ p)"
    using assms unfolding capped_Write_def eq Let_def capped_ok_def by (auto simp: nd)
qed

lemma take_take_append: "take m (take m xs @ ys) = take m (xs @ ys)"
  by (cases "m \<le> length xs") simp_all

lemma capped_writes_spec:
  "capped_ok c \<Longrightarrow> capped_ok (capped_writes ps c) \<and> cb_b (capped_writes ps c) = take MaxOutput (cb_b c @ concat ps)"
proof (induction ps arbitrary: c)
  case Nil
  then show ?case by (simp add: capped_ok_def)
next
  case (Cons p ps)
  note spec = capped_Write_spec [OF Cons.prems, of p]
  show ?case using Cons.IH [OF spec(2)] spec(3) take_take_append [of MaxOutput "cb_b c @ p" "concat ps"] by simp
qed

text \<open>Collected output is the longest prefix that fits.  Whatever a command writes, in pieces
  of any size, every write is reported as complete, so the command never sees a short write;
  the buffer holds the first \<^verbatim>\<open>MaxOutput\<close> bytes of the stream, and its counter is their
  number, so it reaches \<^verbatim>\<open>MaxOutput\<close> exactly when the stream does.\<close>

theorem output_is_longest_prefix:
  "capped_snapshot (capped_writes ps empty_capped)
     = (take MaxOutput (concat ps), int (min (length (concat ps)) MaxOutput))
   \<and> fst (capped_Write p (capped_writes ps empty_capped)) = length p
   \<and> (int MaxOutput \<le> snd (capped_snapshot (capped_writes ps empty_capped)) \<longleftrightarrow> MaxOutput \<le> length (concat ps))"
proof -
  have ok: "capped_ok empty_capped" by (simp add: capped_ok_def empty_capped_def)
  note spec = capped_writes_spec [OF ok, of ps]
  then have "cb_b (capped_writes ps empty_capped) = take MaxOutput (concat ps)" by (simp add: empty_capped_def)
  then have snap: "capped_snapshot (capped_writes ps empty_capped)
      = (take MaxOutput (concat ps), int (min (length (concat ps)) MaxOutput))"
    using spec by (simp add: capped_snapshot_def capped_ok_def)
  show ?thesis
    unfolding snap using capped_Write_spec(1) [OF conjunct1 [OF spec], of p] by auto
qed

section \<open>Text survives the conversions\<close>

lemma surrogate_iff: "surrogate r \<longleftrightarrow> byte_in 0xD800 0xDFFF r"
  by (simp add: surrogate_def)

lemma utf16_single:
  "\<not> surrogate w \<Longrightarrow> utf16_decode (w # ws) = w # utf16_decode ws"
  by (cases ws) (auto simp: surrogate_def byte_in_def)

lemma utf16_decode_encode: "list_all valid_rune rs \<Longrightarrow> utf16_decode (utf16_encode rs) = rs"
proof (induction rs)
  case (Cons r rs)
  have valid: "r \<le> 0x10FFFF" "\<not> surrogate r" using Cons.prems by (simp_all add: valid_rune_def surrogate_def)
  show ?case
  proof (cases "r < 0x10000")
    case True
    then show ?thesis using Cons valid by (simp add: utf16_single)
  next
    case False
    define x where "x = r - 0x10000"
    define h where "h = x div 1024"
    define l where "l = x mod 1024"
    have r: "r = h * 1024 + l + 0x10000" using False by (simp add: h_def l_def x_def)
    have "l < 1024" by (simp add: l_def)
    then have bound: "l < 1024" "h < 1024" using valid(1) r by linarith+
    have "utf16_encode (r # rs) = (0xD800 + h) # (0xDC00 + l) # utf16_encode rs"
      using False valid(1) by (simp add: h_def l_def x_def)
    then show ?thesis using Cons bound by (simp add: byte_in_def pair_rune_def r)
  qed
qed simp

lemma utf16_encode_word: "w \<in> set (utf16_encode rs) \<Longrightarrow> w < 65536"
proof (induction rs)
  case (Cons r rs)
  define x where "x = r - 0x10000"
  have "x mod 1024 < 1024" by simp
  moreover have "x div 1024 < 1024" if "r \<le> 0x10FFFF" using that by (simp add: x_def less_mult_imp_div_less)
  ultimately show ?case using Cons by (auto simp: x_def [symmetric] split: if_splits)
qed simp

lemma le_words_bytes: "(\<And>w. w \<in> set ws \<Longrightarrow> w < 65536) \<Longrightarrow> le_words (le_bytes ws) = ws"
proof (induction ws)
  case (Cons w ws)
  have "w div 256 < 256" using Cons.prems [of w] by (simp add: less_mult_imp_div_less)
  then show ?case using Cons by (simp add: le_bytes_def)
qed (simp add: le_bytes_def)

lemma runes_of_valid: "valid_utf8 s \<Longrightarrow> list_all valid_rune (runes_of_string s)"
  by (auto simp: runes_of_string_def valid_utf8_iff list_all_iff good_piece_valid_rune)

lemma string_of_runes_of: "valid_utf8 s \<Longrightarrow> string_of_runes (runes_of_string s) = s"
proof -
  assume "valid_utf8 s"
  then have eq: "map (encode_rune \<circ> fst) (runes s) = map snd (runes s)"
    by (auto simp: valid_utf8_iff list_all_iff good_piece_encode)
  show ?thesis unfolding string_of_runes_def runes_of_string_def map_map eq by (rule runes_bytes)
qed

definition utf16le :: "string \<Rightarrow> string" where
  "utf16le s = le_bytes (utf16_encode (runes_of_string s))"

lemma utf16le_words: "le_words (utf16le s) = utf16_encode (runes_of_string s)"
  unfolding utf16le_def by (rule le_words_bytes) (rule utf16_encode_word)

lemma utf16le_text: "valid_utf8 s \<Longrightarrow> string_of_runes (utf16_decode (le_words (utf16le s))) = s"
  by (simp add: utf16le_words utf16_decode_encode runes_of_valid string_of_runes_of)

lemma valid_string_of_runes [simp]: "valid_utf8 (string_of_runes rs)"
  by (simp add: string_of_runes_def valid_encode_runes)

lemma valid_utf8_no_FF:
  assumes "valid_utf8 s"
  shows "take 1 s \<noteq> [CHR 0xFF]"
proof
  assume "take 1 s = [CHR 0xFF]"
  then obtain t where s: "s = CHR 0xFF # t" by (cases s) auto
  then have "decode_width s = 0"
    by (simp add: decode_width_def rune_width_def byte_in_def peek_def)
  then have bad: "invalid_piece (fst (decode_rune s), take (snd (decode_rune s)) s)"
    using invalid_piece_head [of s] s by blast
  have "(fst (decode_rune s), take (snd (decode_rune s)) s) \<in> set (runes s)"
    by (subst runes.simps) (simp add: s)
  with bad show False using assms by (auto simp: valid_utf8_def list_all_iff)
qed

lemma portable_id:
  assumes "valid_utf8 s" and "length (filter (\<lambda>c. c = nul) s) \<le> length s div 4"
  shows "normalizePortableOutput s = s"
proof -
  have "take 2 s \<noteq> [CHR 0xFF, CHR 0xFE]" using valid_utf8_no_FF [OF assms(1)] by (cases s) auto
  then show ?thesis using assms by (simp add: normalizePortableOutput_def ToValid_id)
qed

text \<open>Output is turned into text without damage.  Whatever bytes a command produces, the
  portable conversion gives valid UTF-8; UTF-8 text with few zero bytes is passed through
  unchanged; a text written as UTF-16 with a byte-order mark comes back as the text, beyond the
  basic plane too; and the Windows conversion agrees on such output unless it is a PowerShell
  envelope.\<close>

theorem output_text_preserved:
  shows "valid_utf8 (normalizePortableOutput data)
    \<and> (valid_utf8 s \<longrightarrow> length (filter (\<lambda>c. c = nul) s) \<le> length s div 4 \<longrightarrow> normalizePortableOutput s = s)
    \<and> (valid_utf8 s \<longrightarrow> normalizePortableOutput ([CHR 0xFF, CHR 0xFE] @ utf16le s) = s)
    \<and> (valid_utf8 s \<longrightarrow> \<not> HasPrefix s [CHR 0xEF, CHR 0xBB, CHR 0xBF] \<longrightarrow> \<not> HasPrefix (TrimSpace s) clixml_mark \<longrightarrow>
         normalizeWindowsOutput xml oemcp ([CHR 0xFF, CHR 0xFE] @ utf16le s) cp = s)"
proof -
  have "valid_utf8 (normalizePortableOutput data)"
    by (simp add: normalizePortableOutput_def Let_def valid_ToValid)
  moreover have "normalizePortableOutput s = s"
    if "valid_utf8 s" and "length (filter (\<lambda>c. c = nul) s) \<le> length s div 4"
    using that by (rule portable_id)
  moreover have "normalizePortableOutput ([CHR 0xFF, CHR 0xFE] @ utf16le s) = s" if "valid_utf8 s"
    using that by (simp add: normalizePortableOutput_def utf16le_text)
  moreover have "normalizeWindowsOutput xml oemcp ([CHR 0xFF, CHR 0xFE] @ utf16le s) cp = s"
    if "valid_utf8 s" "\<not> HasPrefix s [CHR 0xEF, CHR 0xBB, CHR 0xBF]" "\<not> HasPrefix (TrimSpace s) clixml_mark"
    using that by (simp add: normalizeWindowsOutput_def decodeUTF16_def utf16le_text cleanPowerShellCLIXML_def TrimPrefix_def)
  ultimately show ?thesis by blast
qed

theorem output_text_preserved_witness:
  "normalizePortableOutput ''ok'' = ''ok'' \<and> normalizePortableOutput ([CHR 0xFF, CHR 0xFE] @ utf16le ''ok'') = ''ok''"
  using output_text_preserved [of "[]" "''ok''"]
  by (simp add: valid_utf8_def runes_ascii invalid_piece_def)

text \<open>The launcher of an administrator command receives the script that was written.
  \<^verbatim>\<open>-EncodedCommand\<close> is the base64 form of the script in UTF-16, little endian, and decoding
  it the way PowerShell does gives the script back, for every script in UTF-8.\<close>

theorem encoded_script_decodes:
  assumes "valid_utf8 script"
  shows "map_option (string_of_runes \<circ> utf16_decode \<circ> le_words) (StdDecode (encodePowerShell script)) = Some script"
  using utf16le_text [OF assms] by (simp add: encodePowerShell_def std.dec_enc utf16le_def)

theorem encoded_script_decodes_witness:
  "map_option (string_of_runes \<circ> utf16_decode \<circ> le_words) (StdDecode (encodePowerShell ''exit 0'')) = Some ''exit 0''"
  by (rule encoded_script_decodes) (simp add: valid_utf8_def runes_ascii invalid_piece_def)

end
