(* ===== verification/Host_Files.thy ===== *)
theory Host_Files imports Paths begin

text \<open>
  The guest's file system as the executor sees it: a tree of directories, regular files and
  symbolic links, with path resolution that follows links.  A position in the tree is the list
  of components below the root.
\<close>

section \<open>The tree\<close>

datatype node = File string | Link string | Folder "(string \<times> node) list"

fun lookup :: "node \<Rightarrow> string list \<Rightarrow> node option" where
  "lookup n [] = Some n"
| "lookup (Folder es) (c # cs) = (case map_of es c of None \<Rightarrow> None | Some n \<Rightarrow> lookup n cs)"
| "lookup _ (c # cs) = None"

fun put_entry :: "string \<Rightarrow> node option \<Rightarrow> (string \<times> node) list \<Rightarrow> (string \<times> node) list" where
  "put_entry c new [] = (case new of None \<Rightarrow> [] | Some n \<Rightarrow> [(c, n)])"
| "put_entry c new ((d, m) # es) =
     (if d = c then (case new of None \<Rightarrow> es | Some n \<Rightarrow> (c, n) # es) else (d, m) # put_entry c new es)"

text \<open>
  \<open>put_node p new t\<close> creates, replaces or (\<open>None\<close>) removes the entry at \<open>p\<close>; nothing happens
  where the parent is not a directory.
\<close>

fun put_node :: "string list \<Rightarrow> node option \<Rightarrow> node \<Rightarrow> node" where
  "put_node [] new t = t"
| "put_node [c] new (Folder es) = Folder (put_entry c new es)"
| "put_node (c # d # cs) new (Folder es) =
     (case map_of es c of
        None \<Rightarrow> Folder es
      | Some n \<Rightarrow> Folder (put_entry c (Some (put_node (d # cs) new n)) es))"
| "put_node (c # cs) new t = t"

definition is_folder :: "node option \<Rightarrow> bool" where
  "is_folder n \<longleftrightarrow> (case n of Some (Folder es) \<Rightarrow> True | _ \<Rightarrow> False)"

definition is_link :: "node option \<Rightarrow> bool" where
  "is_link n \<longleftrightarrow> (case n of Some (Link t) \<Rightarrow> True | _ \<Rightarrow> False)"

text \<open>Every name occurs once in its directory.\<close>

fun tree_ok :: "node \<Rightarrow> bool" and entries_ok :: "(string \<times> node) list \<Rightarrow> bool" where
  "tree_ok (File s) = True"
| "tree_ok (Link s) = True"
| "tree_ok (Folder es) = entries_ok es"
| "entries_ok [] = True"
| "entries_ok ((c, n) # es) = (c \<notin> fst ` set es \<and> tree_ok n \<and> entries_ok es)"

section \<open>Following links\<close>

text \<open>
  Walks the components \<open>todo\<close> from the link-free position \<open>pos\<close>, through at most \<open>links\<close>
  links.  With \<open>create\<close> the last component may be missing.
\<close>

function walk :: "node \<Rightarrow> bool \<Rightarrow> nat \<Rightarrow> string list \<Rightarrow> string list \<Rightarrow> string list option" where
  "walk t create links pos [] = Some pos"
| "walk t create links pos (c # cs) =
     (if c = [] \<or> c = dot then walk t create links pos cs
      else if c = dotdot then walk t create links (butlast pos) cs
      else (case lookup t (pos @ [c]) of
              None \<Rightarrow> if create \<and> cs = [] then Some (pos @ [c]) else None
            | Some (File s) \<Rightarrow> if cs = [] then Some (pos @ [c]) else None
            | Some (Folder es) \<Rightarrow> walk t create links (pos @ [c]) cs
            | Some (Link target) \<Rightarrow>
                if links = 0 then None
                else walk t create (links - 1) (if rooted target then [] else pos) (split_on slash target @ cs)))"
  by pat_completeness auto
termination
  by (relation "measures [\<lambda>(t, create, links, pos, cs). links, \<lambda>(t, create, links, pos, cs). length cs]") auto

definition link_free :: "node \<Rightarrow> string list \<Rightarrow> bool" where
  "link_free t p \<longleftrightarrow> (\<forall>n\<le>length p. \<not> is_link (lookup t (take n p)))"

section \<open>The tree as a map\<close>

lemma lookup_append: "lookup t (p @ q) = (case lookup t p of None \<Rightarrow> None | Some n \<Rightarrow> lookup n q)"
proof (induction t p rule: lookup.induct)
  case (2 es c cs)
  then show ?case by (auto split: option.splits)
qed auto

lemma map_of_put_entry:
  "distinct (map fst es) \<Longrightarrow> map_of (put_entry c new es) d = (if d = c then new else map_of es d)"
  by (induction es) (auto split: option.splits simp: map_of_eq_None_iff)

lemma fst_put_entry: "fst ` set (put_entry c new es) \<subseteq> insert c (fst ` set es)"
proof (induction es)
  case (Cons e es)
  then show ?case by (cases e; cases "fst e = c"; cases new) auto
qed (cases new; simp)

lemma fst_put_entry_other: "d \<noteq> c \<Longrightarrow> d \<notin> fst ` set es \<Longrightarrow> d \<notin> fst ` set (put_entry c new es)"
  using fst_put_entry [of c new es] by blast

lemma entries_ok_distinct: "entries_ok es \<Longrightarrow> distinct (map fst es)"
proof (induction es)
  case (Cons e es)
  then show ?case by (cases e) simp
qed simp

lemma entries_ok_map_of: "entries_ok es \<Longrightarrow> map_of es c = Some n \<Longrightarrow> tree_ok n"
  by (induction es) (auto split: if_splits)

lemma entries_ok_put_entry:
  "entries_ok es \<Longrightarrow> (\<And>n. new = Some n \<Longrightarrow> tree_ok n) \<Longrightarrow> entries_ok (put_entry c new es)"
proof (induction es)
  case (Cons e es)
  then show ?case by (cases e; cases "fst e = c"; cases new) (simp_all add: fst_put_entry_other)
qed (cases new; simp)

lemma tree_ok_put:
  "tree_ok t \<Longrightarrow> (\<And>n. new = Some n \<Longrightarrow> tree_ok n) \<Longrightarrow> tree_ok (put_node p new t)"
proof (induction p new t rule: put_node.induct)
  case (3 c d cs new es)
  show ?case
  proof (cases "map_of es c")
    case (Some n)
    then have "tree_ok (put_node (d # cs) new n)"
      using 3 entries_ok_map_of by auto
    then show ?thesis using 3(2) Some entries_ok_put_entry [of es "Some (put_node (d # cs) new n)" c] by simp
  qed (use 3 in simp)
qed (auto intro: entries_ok_put_entry)

lemma tree_ok_lookup: "tree_ok t \<Longrightarrow> lookup t p = Some n \<Longrightarrow> tree_ok n"
proof (induction t p rule: lookup.induct)
  case (2 es c cs)
  then show ?case using entries_ok_map_of by (auto split: option.splits)
qed auto

text \<open>Looking up what was put, and what was not touched.\<close>

lemma lookup_put_same:
  "tree_ok t \<Longrightarrow> is_folder (lookup t p) \<Longrightarrow> lookup (put_node (p @ [c]) new t) (p @ [c]) = new"
proof (induction p arbitrary: t)
  case Nil
  then obtain es where t: "t = Folder es" by (auto simp: is_folder_def split: node.splits)
  then show ?case using Nil by (simp add: map_of_put_entry entries_ok_distinct split: option.splits)
next
  case (Cons d p)
  then obtain es n where t: "t = Folder es" "map_of es d = Some n" "is_folder (lookup n p)"
    by (cases t) (auto simp: is_folder_def split: option.splits)
  then have "tree_ok n" using Cons.prems entries_ok_map_of by auto
  then show ?case
    using Cons.IH [of n] t Cons.prems(1) by (cases p) (simp_all add: map_of_put_entry entries_ok_distinct)
qed

text \<open>Two positions that are not below each other do not interfere.\<close>

definition below :: "string list \<Rightarrow> string list \<Rightarrow> bool" where
  "below p q \<longleftrightarrow> take (length p) q = p"

lemma below_Nil [simp]: "below [] q"
  by (simp add: below_def)

lemma below_Cons [simp]: "below (c # p) (d # q) \<longleftrightarrow> c = d \<and> below p q" "\<not> below (c # p) []"
  by (auto simp: below_def)

lemma below_append [simp]: "below p (p @ q)"
  by (simp add: below_def)

lemma below_iff: "below p q \<longleftrightarrow> (\<exists>r. q = p @ r)"
  by (metis append_take_drop_id below_append below_def)

lemma below_trans: "below p q \<Longrightarrow> below q r \<Longrightarrow> below p r"
  by (auto simp: below_iff)

lemma lookup_put_other:
  "tree_ok t \<Longrightarrow> \<not> below p q \<Longrightarrow> \<not> below q p \<Longrightarrow> lookup (put_node p new t) q = lookup t q"
proof (induction p new t arbitrary: q rule: put_node.induct)
  case (2 c new es)
  then show ?case by (cases q) (simp_all add: map_of_put_entry entries_ok_distinct)
next
  case (3 c d cs new es)
  show ?case
  proof (cases "map_of es c")
    case (Some n)
    then show ?thesis
      using 3 entries_ok_map_of [of es c n]
      by (cases q) (auto simp: map_of_put_entry entries_ok_distinct)
  qed simp
qed auto

section \<open>Where a walk ends\<close>

lemma is_folder_iff: "is_folder n \<longleftrightarrow> (\<exists>es. n = Some (Folder es))"
  by (auto simp: is_folder_def split: option.splits node.splits)

lemma is_link_iff: "is_link n \<longleftrightarrow> (\<exists>s. n = Some (Link s))"
  by (auto simp: is_link_def split: option.splits node.splits)

lemma folder_prefix:
  assumes "is_folder (lookup t p)" and "n \<le> length p"
  shows "is_folder (lookup t (take n p))"
proof (cases "n = length p")
  case False
  then obtain c q where p: "p = take n p @ c # q"
    using assms(2) by (metis append_take_drop_id drop_eq_Nil le_neq_implies_less linorder_not_le neq_Nil_conv)
  have "lookup t (take n p @ c # q) \<noteq> None"
    using assms(1) p by (auto simp: is_folder_iff)
  then obtain m where m: "lookup t (take n p) = Some m" "lookup m (c # q) \<noteq> None"
    by (auto simp: lookup_append split: option.splits)
  then show ?thesis by (cases m) (auto simp: is_folder_def)
qed (use assms in simp)

lemma is_folder_butlast: "is_folder (lookup t p) \<Longrightarrow> is_folder (lookup t (butlast p))"
  using folder_prefix [of t p "length p - 1"] by (simp add: butlast_conv_take)

text \<open>
  The position a walk ends at has proper components only, lies in a directory, and is no
  link: it exists, unless it may be created.
\<close>

lemma walk_canonical:
  assumes "walk t create links pos cs = Some p" and "list_all good_part pos" and "is_folder (lookup t pos)"
    and "list_all (\<lambda>c. slash \<notin> set c) cs"
  shows "list_all good_part p \<and> (p = [] \<or> is_folder (lookup t (butlast p)))
    \<and> \<not> is_link (lookup t p) \<and> (create \<or> lookup t p \<noteq> None)"
  using assms
proof (induction t create links pos cs rule: walk.induct)
  case (1 t create links pos)
  then show ?case using is_folder_butlast [of t pos] by (auto simp: is_folder_iff is_link_iff)
next
  case (2 t create links pos c cs)
  have rest: "list_all (\<lambda>c. slash \<notin> set c) cs" using "2.prems"(4) by simp
  consider "c = [] \<or> c = dot" | "\<not> (c = [] \<or> c = dot)" "c = dotdot"
    | "\<not> (c = [] \<or> c = dot)" "c \<noteq> dotdot" "good_part c"
    using "2.prems"(4) by (auto simp: good_part_def)
  then show ?case
  proof cases
    case 1
    then show ?thesis using 2 rest by simp
  next
    case 2
    have "list_all good_part (butlast pos)"
      using "2.prems"(2) by (auto simp: list_all_iff dest: in_set_butlastD)
    then show ?thesis
      using "2.IH"(2) [OF 2] "2.prems" 2 rest is_folder_butlast by simp
  next
    case 3
    have good: "list_all good_part (pos @ [c])" using "2.prems"(2) 3(3) by simp
    show ?thesis
    proof (cases "lookup t (pos @ [c])")
      case None
      then show ?thesis using "2.prems" 3 good by (auto simp: is_link_def split: if_splits)
    next
      case (Some n)
      show ?thesis
      proof (cases n)
        case (File s)
        then show ?thesis using "2.prems" 3 good Some by (auto simp: is_link_def split: if_splits)
      next
        case (Folder es)
        then have f: "is_folder (lookup t (pos @ [c]))" using Some by (simp add: is_folder_iff)
        show ?thesis using "2.IH"(4) [OF 3(1,2) Some Folder] "2.prems" 3 good Some Folder rest f by simp
      next
        case (Link target)
        have root: "is_folder (lookup t [])" using folder_prefix [OF "2.prems"(3), of 0] by simp
        have "list_all (\<lambda>c. slash \<notin> set c) (split_on slash target @ cs)"
          using rest split_on_free by (auto simp: list_all_iff)
        then show ?thesis
          using "2.IH"(3) [OF 3(1,2) Some Link] "2.prems" 3 Some Link root
          by (simp split: if_splits)
      qed
    qed
  qed
qed

text \<open>A walk along real directories stays on its path.\<close>

lemma walk_id:
  assumes "list_all good_part cs" and "cs = [] \<or> is_folder (lookup t (pos @ butlast cs))"
    and "\<not> is_link (lookup t (pos @ cs))" and "lookup t (pos @ cs) \<noteq> None \<or> create"
  shows "walk t create links pos cs = Some (pos @ cs)"
  using assms
proof (induction cs arbitrary: pos)
  case (Cons c cs)
  have c: "\<not> (c = [] \<or> c = dot)" "c \<noteq> dotdot" using Cons.prems(1) by (auto simp: good_part_def)
  show ?case
  proof (cases "cs = []")
    case True
    then show ?thesis using Cons.prems c by (auto simp: is_link_def split: option.splits node.splits)
  next
    case False
    then have "is_folder (lookup t ((pos @ [c]) @ butlast cs))" using Cons.prems(2) by simp
    then have "is_folder (lookup t (pos @ [c]))"
      using folder_prefix [of t "(pos @ [c]) @ butlast cs" "length (pos @ [c])"] by simp
    then obtain es where "lookup t (pos @ [c]) = Some (Folder es)"
      by (auto simp: is_folder_iff)
    then show ?thesis using Cons.IH [of "pos @ [c]"] Cons.prems c False by simp
  qed
qed simp

section \<open>Growing trees\<close>

text \<open>
  A tree grows when what is there stays: files and links as they are, directories with perhaps
  more in them.  A walk that succeeded still leads to the same position.
\<close>

definition grows :: "node \<Rightarrow> node \<Rightarrow> bool" where
  "grows t u \<longleftrightarrow>
     (\<forall>q n. lookup t q = Some n \<longrightarrow> (case n of Folder es \<Rightarrow> is_folder (lookup u q) | _ \<Rightarrow> lookup u q = Some n))"

lemma growsD:
  "grows t u \<Longrightarrow> lookup t q = Some (File s) \<Longrightarrow> lookup u q = Some (File s)"
  "grows t u \<Longrightarrow> lookup t q = Some (Link s) \<Longrightarrow> lookup u q = Some (Link s)"
  "grows t u \<Longrightarrow> lookup t q = Some (Folder es) \<Longrightarrow> \<exists>es'. lookup u q = Some (Folder es')"
  unfolding grows_def by (drule spec, drule spec, drule (1) mp, simp add: is_folder_iff)+

lemma grows_refl [simp]: "grows t t"
  by (simp add: grows_def is_folder_def split: node.splits)

lemma grows_trans: "grows t u \<Longrightarrow> grows u v \<Longrightarrow> grows t v"
  unfolding grows_def [of t v]
proof (intro allI impI)
  fix q n assume "grows t u" "grows u v" "lookup t q = Some n"
  then show "case n of Folder es \<Rightarrow> is_folder (lookup v q) | _ \<Rightarrow> lookup v q = Some n"
    using growsD [of t u q] growsD [of u v q] by (cases n) (auto simp: is_folder_iff)
qed

text \<open>For a walk it is enough that nodes keep their kind, and links their targets.\<close>

definition passable :: "node \<Rightarrow> node \<Rightarrow> bool" where
  "passable t u \<longleftrightarrow>
     (\<forall>q n. lookup t q = Some n \<longrightarrow>
        (case n of Folder es \<Rightarrow> is_folder (lookup u q) | File s \<Rightarrow> \<exists>s. lookup u q = Some (File s)
           | Link s \<Rightarrow> lookup u q = Some n))"

lemma grows_passable: "grows t u \<Longrightarrow> passable t u"
  unfolding passable_def
proof (intro allI impI)
  fix q n assume "grows t u" "lookup t q = Some n"
  then show "case n of Folder es \<Rightarrow> is_folder (lookup u q) | File s \<Rightarrow> \<exists>s. lookup u q = Some (File s)
      | Link s \<Rightarrow> lookup u q = Some n"
    using growsD [of t u q] by (cases n) (auto simp: is_folder_iff)
qed

lemma passableD:
  "passable t u \<Longrightarrow> lookup t q = Some (File s) \<Longrightarrow> \<exists>s. lookup u q = Some (File s)"
  "passable t u \<Longrightarrow> lookup t q = Some (Link s) \<Longrightarrow> lookup u q = Some (Link s)"
  "passable t u \<Longrightarrow> lookup t q = Some (Folder es) \<Longrightarrow> \<exists>es'. lookup u q = Some (Folder es')"
  unfolding passable_def by (drule spec, drule spec, drule (1) mp, simp add: is_folder_iff)+

lemma walk_passable:
  assumes "walk t False links pos cs = Some p" and "passable t u"
  shows "walk u False links pos cs = Some p"
  using assms
proof (induction t "False" links pos cs rule: walk.induct)
  case (2 t links pos c cs)
  consider "c = [] \<or> c = dot" | "\<not> (c = [] \<or> c = dot)" "c = dotdot"
    | "\<not> (c = [] \<or> c = dot)" "c \<noteq> dotdot" by blast
  then show ?case
  proof cases
    case 3
    obtain n where n: "lookup t (pos @ [c]) = Some n" using "2.prems" 3 by (auto split: option.splits)
    show ?thesis
    proof (cases n)
      case (File s)
      then obtain s' where "lookup u (pos @ [c]) = Some (File s')" using n passableD(1) [OF "2.prems"(2)] by blast
      then show ?thesis using "2.prems" 3 n File by (simp split: if_splits)
    next
      case (Link s)
      then have "lookup u (pos @ [c]) = Some (Link s)" using n passableD(2) [OF "2.prems"(2), of "pos @ [c]" s] by simp
      then show ?thesis using "2.hyps"(3) [OF 3 n Link] "2.prems" 3 n Link by (simp split: if_splits)
    next
      case (Folder es)
      then obtain es' where "lookup u (pos @ [c]) = Some (Folder es')" using n passableD(3) [OF "2.prems"(2)] by blast
      then show ?thesis using "2.hyps"(4) [OF 3 n Folder] "2.prems" 3 n Folder by simp
    qed
  qed (use 2 in simp_all)
qed simp

text \<open>A walk to a directory may be continued.\<close>

lemma walk_extend:
  assumes "walk t False links pos cs = Some p" and "is_folder (lookup t p)"
  shows "\<exists>k. walk t create links pos (cs @ ds) = walk t create k p ds"
  using assms
proof (induction t "False" links pos cs rule: walk.induct)
  case (2 t links pos c cs)
  consider "c = [] \<or> c = dot" | "\<not> (c = [] \<or> c = dot)" "c = dotdot"
    | "\<not> (c = [] \<or> c = dot)" "c \<noteq> dotdot" by blast
  then show ?case
  proof cases
    case 3
    obtain n where n: "lookup t (pos @ [c]) = Some n" using "2.prems" 3 by (auto split: option.splits)
    then show ?thesis using 2 3 by (cases n) (auto simp: is_folder_def split: if_splits)
  qed (use 2 in simp_all)
qed auto

section \<open>System calls\<close>

text \<open>
  \<^verbatim>\<open>filepath.EvalSymlinks\<close> gives up after 255 links, the kernel after 40.  Paths are
  absolute.
\<close>

definition path_walk :: "node \<Rightarrow> bool \<Rightarrow> nat \<Rightarrow> string \<Rightarrow> string list option" where
  "path_walk t create links s = walk t create links [] (split_on slash s)"

definition EvalSymlinks :: "node \<Rightarrow> string \<Rightarrow> string option" where
  "EvalSymlinks t s = map_option abs_path (path_walk t False 255 s)"

definition open_read :: "node \<Rightarrow> string \<Rightarrow> node option" where
  "open_read t s = (case path_walk t False 40 s of None \<Rightarrow> None | Some p \<Rightarrow> lookup t p)"

text \<open>
  Opening for writing, with creation: the position that was opened, and the tree with the
  file there, emptied if \<open>trunc\<close>.
\<close>

definition open_write :: "node \<Rightarrow> bool \<Rightarrow> string \<Rightarrow> (string list \<times> node) option" where
  "open_write t trunc s =
     (case path_walk t True 40 s of
        None \<Rightarrow> None
      | Some p \<Rightarrow>
          (case lookup t p of
             Some (File c) \<Rightarrow> Some (p, if trunc then put_node p (Some (File [])) t else t)
           | Some _ \<Rightarrow> None
           | None \<Rightarrow> Some (p, put_node p (Some (File [])) t)))"

text \<open>The position of an entry itself: links are followed on the way, but not at the end.\<close>

definition entry_pos :: "node \<Rightarrow> string \<Rightarrow> string list option" where
  "entry_pos t s =
     (case rev (parts s) of
        [] \<Rightarrow> Some []
      | c # r \<Rightarrow>
          (case walk t False 40 [] (rev r) of
             None \<Rightarrow> None
           | Some p \<Rightarrow> if is_folder (lookup t p) then Some (p @ [c]) else None))"

datatype stat_result = Found node | Absent | Stat_error

definition Lstat :: "node \<Rightarrow> string \<Rightarrow> stat_result" where
  "Lstat t s =
     (case entry_pos t s of
        None \<Rightarrow> Stat_error
      | Some p \<Rightarrow> (case lookup t p of None \<Rightarrow> Absent | Some n \<Rightarrow> Found n))"

lemma split_abs_walk: "walk t create links pos (split_on slash (abs_path ps))
    = walk t create links pos (split_on slash (join_with [slash] ps))"
  by (simp add: abs_path_def)

lemma path_walk_abs: "list_all good_part ps \<Longrightarrow> path_walk t create links (abs_path ps) = walk t create links [] ps"
  by (cases ps) (simp_all add: path_walk_def split_abs_path)

lemma entry_pos_abs:
  assumes "list_all good_part (ps @ [c])" and "is_folder (lookup t ps)"
  shows "entry_pos t (abs_path (ps @ [c])) = Some (ps @ [c])"
proof -
  have "\<not> is_link (lookup t ps)" "lookup t ps \<noteq> None"
    using assms(2) by (auto simp: is_folder_iff is_link_iff)
  then have "walk t False 40 [] ps = Some ps"
    using walk_id [of ps t "[]" False 40] assms is_folder_butlast [of t ps] by simp
  then show ?thesis using assms by (simp add: entry_pos_def)
qed

end
