(* ===== verification/Go_Time.thy ===== *)
theory Go_Time imports Json_Text begin

text \<open>
  \<^verbatim>\<open>time.Time\<close> as text: the civil date of a number of days since 1 January of year 1 and
  the formats the program writes, \<^verbatim>\<open>time.RFC3339\<close> and the JSON form with its fraction.
\<close>

definition leap :: "nat \<Rightarrow> bool" where
  "leap y \<longleftrightarrow> y mod 4 = 0 \<and> (y mod 100 \<noteq> 0 \<or> y mod 400 = 0)"

definition month_lengths :: "nat \<Rightarrow> nat list" where
  "month_lengths y = [31, if leap y then 29 else 28, 31, 30, 31, 30, 31, 31, 30, 31, 30, 31]"

fun month_day :: "nat \<Rightarrow> nat list \<Rightarrow> nat \<Rightarrow> nat \<times> nat" where
  "month_day m [] d = (m, d + 1)"
| "month_day m (n # ns) d = (if d < n then (m, d + 1) else month_day (m + 1) ns (d - n))"

text \<open>Year and day of the year, by cycles of 400, 100, 4 and 1 years.\<close>

definition year_day :: "nat \<Rightarrow> nat \<times> nat" where
  "year_day days =
     (let n400 = days div 146097; d = days mod 146097;
          n100 = min (d div 36524) 3; d = d - n100 * 36524;
          n4 = d div 1461; d = d mod 1461;
          n1 = min (d div 365) 3
      in (400 * n400 + 100 * n100 + 4 * n4 + n1 + 1, d - n1 * 365))"

definition civil :: "nat \<Rightarrow> nat \<times> nat \<times> nat" where
  "civil days =
     (let (y, yd) = year_day days; (m, d) = month_day 1 (month_lengths y) yd in (y, m, d))"

text \<open>A number with at least \<open>w\<close> digits.\<close>

definition padded :: "nat \<Rightarrow> nat \<Rightarrow> string" where
  "padded w n = replicate (w - length (nat_decimal n)) (CHR ''0'') @ nat_decimal n"

definition date_text :: "time \<Rightarrow> string" where
  "date_text t =
     (let secs = nat (t div second); (y, m, d) = civil (secs div 86400); r = secs mod 86400
      in padded 4 y @ ''-'' @ padded 2 m @ ''-'' @ padded 2 d @ ''T''
         @ padded 2 (r div 3600) @ '':'' @ padded 2 (r div 60 mod 60) @ '':'' @ padded 2 (r mod 60))"

definition rfc3339 :: "time \<Rightarrow> string" where
  "rfc3339 t = date_text t @ ''Z''"

text \<open>The fraction without trailing zeros, as \<^verbatim>\<open>RFC3339Nano\<close> has it.\<close>

definition fraction :: "nat \<Rightarrow> string" where
  "fraction ns =
     (if ns = 0 then []
      else CHR ''.'' # rev (dropWhile (\<lambda>c. c = CHR ''0'') (rev (padded 9 ns))))"

definition rfc3339_nano :: "time \<Rightarrow> string" where
  "rfc3339_nano t = date_text t @ fraction (nat (t mod second)) @ ''Z''"

lemma date_examples:
  "civil 0 = (1, 1, 1)" "civil 719162 = (1970, 1, 1)" "civil 738944 = (2024, 2, 29)"
  "civil 146096 = (400, 12, 31)"
  unfolding civil_def year_day_def month_lengths_def leap_def Let_def by simp_all

section \<open>Dates are ASCII\<close>

definition ascii :: "string \<Rightarrow> bool" where
  "ascii s \<longleftrightarrow> list_all (\<lambda>c. (of_char c :: nat) < 0x80) s"

lemma ascii_simps [simp]:
  "ascii []" "ascii (c # s) \<longleftrightarrow> (of_char c :: nat) < 0x80 \<and> ascii s" "ascii (s @ t) \<longleftrightarrow> ascii s \<and> ascii t"
  by (simp_all add: ascii_def)

lemma ascii_valid: "ascii s \<Longrightarrow> valid_utf8 s"
  by (induction s) (simp_all add: valid_utf8_def runes_ascii invalid_piece_def)

lemma ascii_subset: "ascii s \<Longrightarrow> set t \<subseteq> set s \<Longrightarrow> ascii t"
  by (auto simp: ascii_def list_all_iff)

lemma ascii_decimal [simp]: "ascii (nat_decimal n)"
  using nat_decimal_digits [of n] by (auto simp: ascii_def list_all_iff is_digit_def)

lemma ascii_padded [simp]: "ascii (padded w n)"
  by (simp add: padded_def ascii_def [of "replicate a b" for a b] list_all_iff)

lemma ascii_date [simp]: "ascii (date_text t)"
  by (simp add: date_text_def case_prod_unfold Let_def)

lemma ascii_rfc3339 [simp]: "ascii (rfc3339 t)"
  by (simp add: rfc3339_def)

lemma ascii_rfc3339_nano [simp]: "ascii (rfc3339_nano t)"
proof -
  have "ascii (rev (dropWhile (\<lambda>c. c = CHR ''0'') (rev (padded 9 ns))))" for ns
    by (rule ascii_subset [OF ascii_padded]) (auto dest: set_dropWhileD)
  then show ?thesis by (simp add: rfc3339_nano_def fraction_def)
qed

lemma ascii_hex [simp]: "ascii (hex_encode s)"
proof -
  have "ascii hex_digits" by (simp add: hex_digits_def)
  moreover have "(of_char c :: nat) div 16 < 16 \<and> (of_char c :: nat) mod 16 < 16" for c :: char
    by (simp add: less_mult_imp_div_less)
  moreover have "length hex_digits = 16" by (simp add: hex_digits_def)
  ultimately have "ascii (hex_byte c)" for c
    unfolding hex_byte_def by (simp add: ascii_def list_all_iff)
  then show ?thesis by (induction s) (simp_all add: hex_encode_def)
qed

lemma ascii_StdEncode [simp]: "ascii (StdEncode s)"
proof -
  have alphabet: "ascii std_alphabet" by (simp add: std_alphabet_def)
  have "(of_char (std_alphabet ! d) :: nat) < 0x80" if "d \<in> set (base64_digits s)" for d
    using alphabet base64_digits_small [OF that] by (simp add: ascii_def list_all_length std_alphabet_def)
  then show ?thesis
    by (auto simp: StdEncode_def base64_encode_def ascii_def list_all_iff)
qed

end
