(* ===== verification/Protocol.thy ===== *)
theory Protocol imports Json begin

text \<open>
  The messages of \<^verbatim>\<open>internal/protocol/protocol.go\<close> as records (\<^verbatim>\<open>PairRequest\<close>,
  \<^verbatim>\<open>PairReply\<close>, \<^verbatim>\<open>Command\<close>, \<^verbatim>\<open>Result\<close>) and the canonical byte string a guest signs,
  with what the signature binds: on newline-free fields the canonical form determines the
  request, and without that side condition it does not.
\<close>

section \<open>Messages\<close>

definition Version :: int where "Version = 2"

record pair_request =
  q_Protocol :: int
  q_USBID :: string
  q_Hostname :: string
  q_OS :: string
  q_Arch :: string
  q_User :: string
  q_PublicKey :: string
  q_Nonce :: string
  q_Signature :: string
  q_Requested :: "string list"
  q_DurationSeconds :: int

record pair_reply =
  r_RequestID :: string
  r_Status :: string
  r_CompareCode :: string
  r_PairingToken :: string
  r_Error :: string
  r_SessionToken :: string
  r_ExpiresAt :: time

text \<open>The params of a command are raw JSON; an absent value is the empty string.\<close>

record command =
  c_ID :: string
  c_Name :: string
  c_Deadline :: time
  c_Params :: string

record result =
  res_ID :: string
  res_Name :: string
  res_StartedAt :: time
  res_FinishedAt :: time
  res_Output :: string
  res_Error :: string

section \<open>The canonical pair request\<close>

definition canonical_lines :: "pair_request \<Rightarrow> string list" where
  "canonical_lines q =
     [Itoa (q_Protocol q), q_USBID q, q_PublicKey q, q_Nonce q, Itoa (q_DurationSeconds q),
      q_Hostname q, q_OS q, q_Arch q, q_User q] @ q_Requested q"

definition CanonicalPairRequest :: "pair_request \<Rightarrow> string" where
  "CanonicalPairRequest q = concat (map (\<lambda>l. l @ [newline]) (canonical_lines q))"

definition newline_free :: "pair_request \<Rightarrow> bool" where
  "newline_free q \<longleftrightarrow> list_all (\<lambda>l. newline \<notin> set l) (canonical_lines q)"

lemma canonical_lines_inj:
  assumes "canonical_lines q = canonical_lines q'"
  shows "q\<lparr>q_Signature := q_Signature q'\<rparr> = q'"
  using assms by (simp add: canonical_lines_def Itoa_inj)

text \<open>C21 The signed bytes bind the whole request: two requests whose fields hold no newline
  and whose canonical forms are equal differ at most in the signature text.  No field, and
  no capability of the list, can be changed or moved without changing what is signed.\<close>

theorem canonical_binds_request:
  assumes "newline_free q" and "newline_free q'"
    and "CanonicalPairRequest q = CanonicalPairRequest q'"
  shows "q\<lparr>q_Signature := q_Signature q'\<rparr> = q'"
proof -
  have "canonical_lines q = canonical_lines q'"
    using assms by (intro terminated_concat_inj [where c = newline])
      (simp_all add: CanonicalPairRequest_def newline_free_def list_all_iff)
  then show ?thesis by (rule canonical_lines_inj)
qed

definition sample_request :: pair_request where
  "sample_request = \<lparr>q_Protocol = 2, q_USBID = ''usb'', q_Hostname = ''600'', q_OS = ''linux'',
     q_Arch = ''amd64'', q_User = ''guest'', q_PublicKey = ''AAAA'', q_Nonce = ''nonce'',
     q_Signature = ''sig'', q_Requested = [''system.info'', ''session.disconnect''],
     q_DurationSeconds = 1800\<rparr>"

lemma sample_newline_free: "newline_free sample_request"
  by code_simp

theorem canonical_binds_request_witness:
  "sample_request\<lparr>q_Signature := ''other''\<rparr>\<lparr>q_Signature := q_Signature sample_request\<rparr> = sample_request"
proof (rule canonical_binds_request)
  show "newline_free (sample_request\<lparr>q_Signature := ''other''\<rparr>)"
    using sample_newline_free by (simp add: newline_free_def canonical_lines_def)
  show "CanonicalPairRequest (sample_request\<lparr>q_Signature := ''other''\<rparr>) = CanonicalPairRequest sample_request"
    by (simp add: CanonicalPairRequest_def canonical_lines_def)
qed (rule sample_newline_free)

end
