(* ===== verification/Auth.thy ===== *)
theory Auth imports Protocol begin

text \<open>
  \<^verbatim>\<open>internal/auth/auth.go\<close>: token generation, hashing, the comparison code and the
  Ed25519 signature check of a pairing request.  SHA-256 and Ed25519 are parameters of the
  model, the fields of the record \<open>crypto\<close>; random bytes are an argument.
\<close>

record crypto =
  sha256 :: "string \<Rightarrow> string"
  ed25519_sign :: "string \<Rightarrow> string \<Rightarrow> string"
  ed25519_verify :: "string \<Rightarrow> string \<Rightarrow> string \<Rightarrow> bool"

definition Sign :: "crypto \<Rightarrow> string \<Rightarrow> string \<Rightarrow> string" where
  "Sign cr priv msg = RawURLEncode (ed25519_sign cr priv msg)"

definition Verify :: "crypto \<Rightarrow> string \<Rightarrow> string \<Rightarrow> string \<Rightarrow> bool" where
  "Verify cr pubText sigText msg =
     (case (RawURLDecode pubText, RawURLDecode sigText) of
        (Some pub, Some sig) \<Rightarrow> length pub = 32 \<and> ed25519_verify cr pub msg sig
      | _ \<Rightarrow> False)"

text \<open>\<open>Token\<close> returns the encoded random bytes; \<open>failed\<close> is the error of the entropy source.\<close>

record entropy =
  random_bytes :: string
  failed :: bool

definition Token :: "entropy \<Rightarrow> string \<times> bool" where
  "Token e = (RawURLEncode (random_bytes e), failed e)"

definition Hash :: "crypto \<Rightarrow> string \<Rightarrow> string" where
  "Hash cr s = hex_encode (sha256 cr s)"

definition CompareCode :: "crypto \<Rightarrow> string \<Rightarrow> string \<Rightarrow> string" where
  "CompareCode cr pub nonce = hex_encode (take 3 (sha256 cr (pub @ [nul] @ nonce)))"

lemma Hash_eq_iff: "inj (sha256 cr) \<Longrightarrow> Hash cr s = Hash cr t \<longleftrightarrow> s = t"
  by (auto simp: Hash_def hex.enc_eq_iff dest: injD)

lemma Hash_eq_iff_on: "inj_on (sha256 cr) A \<Longrightarrow> s \<in> A \<Longrightarrow> t \<in> A \<Longrightarrow> Hash cr s = Hash cr t \<longleftrightarrow> s = t"
  by (auto simp: Hash_def hex.enc_eq_iff dest: inj_onD)

lemma Token_inj: "fst (Token e) = fst (Token e') \<longleftrightarrow> random_bytes e = random_bytes e'"
  by (simp add: Token_def raw_url.enc_eq_iff)

text \<open>
  Signing and checking fit together, for any signature scheme whose own check accepts its
  own signatures (\<open>scheme_ok\<close>, the documented behaviour of \<^verbatim>\<open>crypto/ed25519\<close>).
\<close>

definition scheme_ok :: "crypto \<Rightarrow> string \<Rightarrow> string \<Rightarrow> bool" where
  "scheme_ok cr priv pub \<longleftrightarrow>
     length pub = 32 \<and> (\<forall>msg. ed25519_verify cr pub msg (ed25519_sign cr priv msg))"

lemma Verify_Sign:
  "scheme_ok cr priv pub \<Longrightarrow> Verify cr (RawURLEncode pub) (Sign cr priv msg) msg"
  by (simp add: Verify_def Sign_def raw_url.dec_enc scheme_ok_def)

lemma Verify_key_length: "Verify cr p s m \<Longrightarrow> \<exists>pub. RawURLDecode p = Some pub \<and> length pub = 32"
  by (auto simp: Verify_def split: option.splits)

text \<open>A toy instance for the witnesses: hashing is the identity, a signature is key and message.\<close>

definition toy_crypto :: crypto where
  "toy_crypto = \<lparr>sha256 = (\<lambda>s. s), ed25519_sign = (\<lambda>k m. k @ m), ed25519_verify = (\<lambda>k m s. s = k @ m)\<rparr>"

lemma toy_crypto_inj: "inj (sha256 toy_crypto)"
  by (simp add: toy_crypto_def inj_def)

end
