(* ===== verification/Executor_Core.thy ===== *)
theory Executor_Core imports Executor_Output Host_Files Go_Time Auth begin

text \<open>
  The core of \<^verbatim>\<open>internal/executor/executor.go\<close>: the executor's state, the resolution of guest
  paths, the decoding of parameters, and the commands that run a program and wait for it
  (\<^verbatim>\<open>readOnlyCommand\<close>, \<^verbatim>\<open>shell\<close>, \<^verbatim>\<open>powerShell\<close>, \<^verbatim>\<open>shellAdmin\<close>).  What a program writes, how
  it ends and how long it takes is decided by the guest, a function in the record \<open>guest\<close>;
  paths are those of the Unix builds.
\<close>

section \<open>State\<close>

definition MaxTransfer :: nat where "MaxTransfer = 10 * 2 ^ 20"
definition MaxChunk :: nat where "MaxChunk = 2 ^ 20"

datatype run_error = Exit_error int string | Other_error string

fun error_text :: "run_error \<Rightarrow> string" where
  "error_text (Exit_error code m) = m"
| "error_text (Other_error m) = m"

record job =
  j_pid :: int
  j_out :: capped
  j_done :: bool
  j_err :: "run_error option"
  j_started :: time
  j_finished :: time
  j_cancelled :: bool

text \<open>Owned processes and jobs are pointers in the code; here they are numbers.\<close>

record executor =
  x_roots :: "string list"
  x_workDir :: string
  x_owned :: "int \<rightharpoonup> nat"
  x_jobs :: "string \<rightharpoonup> nat"

text \<open>A program about to be run: its arguments, its directory and a script file it is given.\<close>

record exec_cmd =
  ec_argv :: "string list"
  ec_Dir :: string
  ec_script :: "(string \<times> string) option"

record run_result =
  rr_writes :: "string list"
  rr_err :: "run_error option"
  rr_expired :: bool
  rr_log :: "string option"

record guest =
  g_goos :: string
  g_arch :: string
  g_version :: string
  g_hostname :: string
  g_has_ip :: bool
  g_cwd :: "string option"
  g_now :: time
  g_run :: "exec_cmd \<Rightarrow> duration \<Rightarrow> run_result"
  g_temp :: "string option"
  g_temp_write :: bool
  g_temp_close :: bool
  g_xml :: xml_reader
  g_oemcp :: nat

text \<open>The output and the error of a command; both may be there.\<close>

type_synonym reply = "string \<times> string option"

definition failure :: "string \<Rightarrow> reply" where
  "failure m = ([], Some m)"

definition marshal :: "json \<Rightarrow> reply" where
  "marshal v = (json_text v, None)"

definition marshalWithError :: "json \<Rightarrow> string option \<Rightarrow> reply" where
  "marshalWithError v err = (json_text v, err)"

definition normalizeOutput :: "guest \<Rightarrow> string \<Rightarrow> string" where
  "normalizeOutput g data =
     (if g_goos g = ''windows'' then normalizeWindowsOutput (g_xml g) (g_oemcp g) data 0
      else normalizePortableOutput data)"

section \<open>Paths\<close>

definition Abs :: "guest \<Rightarrow> string \<Rightarrow> string option" where
  "Abs g path = (if rooted path then Some (Clean path) else map_option (\<lambda>wd. Join wd path) (g_cwd g))"

definition inside_root :: "string \<Rightarrow> string \<Rightarrow> bool" where
  "inside_root a root =
     (case Rel root a of
        None \<Rightarrow> False
      | Some rel \<Rightarrow> rel \<noteq> dotdot \<and> \<not> HasPrefix rel (dotdot @ [slash]))"

definition resolve :: "guest \<Rightarrow> node \<Rightarrow> executor \<Rightarrow> string \<Rightarrow> bool \<Rightarrow> string + string" where
  "resolve g t e path forWrite =
     (if path = [] \<or> nul \<in> set path then Inl ''invalid path''
      else case Abs g path of
        None \<Rightarrow> Inl ''getwd''
      | Some a \<Rightarrow>
          let probe = (if forWrite then Dir a else a)
          in (case EvalSymlinks t probe of
                None \<Rightarrow> Inl ''lstat''
              | Some canonical \<Rightarrow>
                  let a = (if forWrite then Join canonical (Base a) else canonical)
                  in if list_ex (inside_root a) (x_roots e) then Inr a
                     else Inl ''path outside approved directories''))"

text \<open>\<^verbatim>\<open>New\<close>: the roots, made absolute, free of links and clean, and a fresh directory.\<close>

fun new_roots :: "guest \<Rightarrow> node \<Rightarrow> string list \<Rightarrow> string list \<Rightarrow> string list option" where
  "new_roots g t [] acc = Some acc"
| "new_roots g t (r # rs) acc =
     (case Abs g r of
        None \<Rightarrow> None
      | Some a \<Rightarrow>
          (case EvalSymlinks t a of
             None \<Rightarrow> None
           | Some a \<Rightarrow> new_roots g t rs (acc @ [Clean a])))"

definition new_executor :: "guest \<Rightarrow> node \<Rightarrow> string list \<Rightarrow> executor option" where
  "new_executor g t roots =
     (case g_temp g of
        None \<Rightarrow> None
      | Some workDir \<Rightarrow>
          map_option (\<lambda>rs. \<lparr>x_roots = rs, x_workDir = workDir, x_owned = Map.empty, x_jobs = Map.empty\<rparr>)
            (new_roots g t roots []))"

definition prepare :: "executor \<Rightarrow> string list \<Rightarrow> exec_cmd" where
  "prepare e argv = \<lparr>ec_argv = argv, ec_Dir = x_workDir e, ec_script = None\<rparr>"

section \<open>Running a program\<close>

definition timeout :: "time \<Rightarrow> command \<Rightarrow> duration" where
  "timeout now c =
     (if IsZero (c_Deadline c) then 30 * second
      else let d = c_Deadline c - now
           in if d \<le> 0 then 1 else if d > 2 * minute then 2 * minute else d)"

definition exitCode :: "run_error option \<Rightarrow> int" where
  "exitCode e = (case e of None \<Rightarrow> 0 | Some (Exit_error code m) \<Rightarrow> code | Some (Other_error m) \<Rightarrow> -1)"

text \<open>The reply of a program that was run to its end, or to the end of its time.\<close>

definition run_json :: "string \<Rightarrow> int \<Rightarrow> run_error option \<Rightarrow> json" where
  "run_json out count err =
     JObject [(''exitCode'', JNumber (Itoa (exitCode err))), (''output'', JString out),
              (''truncated'', JBool (int MaxOutput \<le> count))]"

definition run_reply :: "guest \<Rightarrow> run_result \<Rightarrow> string \<Rightarrow> reply" where
  "run_reply g r expired =
     (let (raw, count) = capped_snapshot (capped_writes (rr_writes r) empty_capped);
          result = run_json (normalizeOutput g raw) count (rr_err r)
      in if rr_expired r then marshalWithError result (Some expired)
         else marshalWithError result (map_option error_text (rr_err r)))"

definition readOnlyCommand :: "guest \<Rightarrow> executor \<Rightarrow> command \<Rightarrow> string list \<Rightarrow> reply" where
  "readOnlyCommand g e c argv =
     (if length (c_Params c) \<noteq> 0 \<and> c_Params c \<noteq> ''null'' \<and> c_Params c \<noteq> ''{}'' then
        failure ''inspection command does not accept parameters''
      else run_reply g (g_run g (prepare e argv) (timeout (g_now g) c)) ''inspection timeout'')"

definition command_fields :: "string field list" where
  "command_fields = [(''command'', set_string (\<lambda>s _. s))]"

definition script_fields :: "string field list" where
  "script_fields = [(''script'', set_string (\<lambda>s _. s))]"

definition shell :: "guest \<Rightarrow> executor \<Rightarrow> command \<Rightarrow> reply" where
  "shell g e c =
     (case decode_strict command_fields [] (c_Params c) of
        None \<Rightarrow> failure ''invalid shell command''
      | Some p \<Rightarrow>
          if p = [] \<or> 8192 < length p \<or> nul \<in> set p then failure ''invalid shell command''
          else
            let argv = (if g_goos g = ''windows'' then [''cmd.exe'', ''/d'', ''/s'', ''/c'', p]
                        else [''/bin/sh'', ''-c'', p])
            in run_reply g (g_run g (prepare e argv) (timeout (g_now g) c)) ''command timeout'')"

definition crlf :: string where "crlf = [CHR 0x0D, CHR 0x0A]"

definition powershell_preamble :: string where
  "powershell_preamble =
     ''$ProgressPreference='' @ [CHR 0x27] @ ''SilentlyContinue'' @ [CHR 0x27] @ crlf
     @ ''$utf8 = New-Object System.Text.UTF8Encoding($false)'' @ crlf
     @ ''[Console]::InputEncoding = $utf8'' @ crlf
     @ ''[Console]::OutputEncoding = $utf8'' @ crlf
     @ ''$OutputEncoding = $utf8'' @ crlf"

definition powerShell :: "guest \<Rightarrow> executor \<Rightarrow> command \<Rightarrow> reply" where
  "powerShell g e c =
     (if g_goos g \<noteq> ''windows'' then failure ''PowerShell execution is currently supported only on Windows''
      else case decode_strict script_fields [] (c_Params c) of
        None \<Rightarrow> failure ''invalid PowerShell script''
      | Some p \<Rightarrow>
          if p = [] \<or> 64 * 1024 < length p \<or> nul \<in> set p then failure ''invalid PowerShell script''
          else
            (case g_temp g of
               None \<Rightarrow> failure ''create temp''
             | Some path \<Rightarrow>
                 if \<not> g_temp_write g then failure ''write temp''
                 else if \<not> g_temp_close g then failure ''close temp''
                 else
                   let script = [CHR 0xEF, CHR 0xBB, CHR 0xBF] @ powershell_preamble @ p;
                       x = (prepare e [''powershell.exe'', ''-NoLogo'', ''-NoProfile'', ''-NonInteractive'',
                              ''-ExecutionPolicy'', ''Bypass'', ''-File'', path])\<lparr>ec_script := Some (path, script)\<rparr>
                   in run_reply g (g_run g x (timeout (g_now g) c)) ''PowerShell timeout''))"

definition replace_quote :: "string \<Rightarrow> string" where
  "replace_quote s = concat (map (\<lambda>c. if c = CHR 0x27 then [CHR 0x27, CHR 0x27] else [c]) s)"

definition admin_script :: "string \<Rightarrow> string \<Rightarrow> string" where
  "admin_script cmd outPath =
     ''$cmd=[Text.Encoding]::UTF8.GetString([Convert]::FromBase64String('' @ [CHR 0x27] @ StdEncode cmd @ [CHR 0x27]
     @ '')); & cmd.exe /d /s /c $cmd *> '' @ [CHR 0x27] @ replace_quote outPath @ [CHR 0x27] @ ''; exit $LASTEXITCODE''"

definition quoted :: "string \<Rightarrow> string" where
  "quoted s = [CHR 0x27] @ s @ [CHR 0x27]"

definition admin_launcher :: "string \<Rightarrow> string" where
  "admin_launcher encodedScript =
     ''$p=Start-Process -FilePath '' @ quoted ''powershell.exe'' @ '' -Verb RunAs -ArgumentList ''
     @ quoted ''-NoProfile'' @ '','' @ quoted ''-NonInteractive'' @ '','' @ quoted ''-EncodedCommand'' @ '',''
     @ quoted encodedScript @ '' -Wait -PassThru; exit $p.ExitCode''"

definition shellAdmin :: "guest \<Rightarrow> executor \<Rightarrow> command \<Rightarrow> reply" where
  "shellAdmin g e c =
     (if g_goos g \<noteq> ''windows'' then
        failure ''administrator approval is currently supported only on Windows''
      else case decode_strict command_fields [] (c_Params c) of
        None \<Rightarrow> failure ''invalid administrator command''
      | Some p \<Rightarrow>
          if p = [] \<or> 8192 < length p \<or> nul \<in> set p then failure ''invalid administrator command''
          else
            (case g_temp g of
               None \<Rightarrow> failure ''create temp''
             | Some outPath \<Rightarrow>
                 let launcher = admin_launcher (encodePowerShell (admin_script p outPath));
                     r = g_run g (prepare e [''powershell.exe'', ''-NoProfile'', ''-NonInteractive'', ''-Command'', launcher])
                           (timeout (g_now g) c);
                     parentRaw = fst (capped_snapshot (capped_writes (rr_writes r) empty_capped));
                     resultOut = normalizeOutput g parentRaw
                       @ (case rr_log r of None \<Rightarrow> [] | Some data \<Rightarrow> normalizeOutput g (take MaxOutput data));
                     result = JObject [(''exitCode'', JNumber (Itoa (exitCode (rr_err r)))), (''output'', JString resultOut),
                                (''truncated'', JBool (MaxOutput < length resultOut)), (''uacRequired'', JBool True)]
                 in if rr_expired r then
                      marshalWithError result (Some ''administrator command timeout or UAC not approved'')
                    else marshalWithError result (map_option error_text (rr_err r))))"

section \<open>Where resolved paths lie\<close>

definition root_ok :: "string \<Rightarrow> bool" where
  "root_ok r \<longleftrightarrow> rooted r \<and> Clean r = r"

lemma root_ok_abs: "root_ok r \<Longrightarrow> \<exists>ps. list_all good_part ps \<and> r = abs_path ps"
  using parts_good Clean_rooted by (metis root_ok_def)

lemma inside_root_iff:
  "list_all good_part ps \<Longrightarrow> list_all good_part rs \<Longrightarrow> inside_root (abs_path ps) (abs_path rs) \<longleftrightarrow> below rs ps"
  using Rel_inside [of rs ps] by (auto simp: inside_root_def below_def split: option.splits)

lemma EvalSymlinks_canonical:
  assumes "EvalSymlinks t s = Some a" and "is_folder (Some t)"
  obtains ps where "a = abs_path ps" and "list_all good_part ps" and "ps = [] \<or> is_folder (lookup t (butlast ps))"
    and "\<not> is_link (lookup t ps)" and "lookup t ps \<noteq> None"
proof -
  obtain ps where ps: "a = abs_path ps" "walk t False 255 [] (split_on slash s) = Some ps"
    using assms(1) by (auto simp: EvalSymlinks_def path_walk_def)
  then show ?thesis
    using walk_canonical [OF ps(2)] assms(2) that [OF ps(1)] split_on_free by (auto simp: list_all_iff)
qed

lemma Abs_clean: "Abs g path = Some a \<Longrightarrow> (\<And>wd. g_cwd g = Some wd \<Longrightarrow> rooted wd) \<Longrightarrow> \<exists>ps. list_all good_part ps \<and> a = abs_path ps"
proof -
  assume a: "Abs g path = Some a" and wd: "\<And>wd. g_cwd g = Some wd \<Longrightarrow> rooted wd"
  have "\<exists>s. rooted s \<and> a = Clean s"
  proof (cases "rooted path")
    case True
    then show ?thesis using a by (auto simp: Abs_def)
  next
    case False
    then obtain d where d: "rooted d" "a = Join d path" using a wd by (auto simp: Abs_def)
    then have "d \<noteq> []" "rooted (d @ slash # path)" by (auto simp: rooted_def HasPrefix_iff)
    then show ?thesis using d(2) by (auto simp: Join_def)
  qed
  then show ?thesis using Clean_rooted parts_good by blast
qed

text \<open>
  What \<open>resolve\<close> accepts: a clean absolute path below a root, with no link on the way; for
  reading it exists and is no link itself, for writing its directory exists.
\<close>

definition guest_ok :: "guest \<Rightarrow> node \<Rightarrow> executor \<Rightarrow> bool" where
  "guest_ok g t e \<longleftrightarrow>
     tree_ok t \<and> is_folder (Some t) \<and> list_all root_ok (x_roots e)
     \<and> (case g_cwd g of None \<Rightarrow> True | Some wd \<Rightarrow> rooted wd)"

definition approved :: "executor \<Rightarrow> string list \<Rightarrow> bool" where
  "approved e ps \<longleftrightarrow> (\<exists>rs. list_all good_part rs \<and> abs_path rs \<in> set (x_roots e) \<and> below rs ps)"

lemma approved_iff:
  assumes "list_all good_part ps" and "list_all root_ok (x_roots e)"
  shows "list_ex (inside_root (abs_path ps)) (x_roots e) \<longleftrightarrow> approved e ps"
proof
  assume "list_ex (inside_root (abs_path ps)) (x_roots e)"
  then obtain r where r: "r \<in> set (x_roots e)" "inside_root (abs_path ps) r" by (auto simp: list_ex_iff)
  then obtain rs where "list_all good_part rs" "r = abs_path rs"
    using assms(2) root_ok_abs by (metis list_all_iff)
  then show "approved e ps" using r inside_root_iff [OF assms(1)] by (auto simp: approved_def)
next
  assume "approved e ps"
  then show "list_ex (inside_root (abs_path ps)) (x_roots e)"
    using inside_root_iff [OF assms(1)] by (auto simp: approved_def list_ex_iff)
qed

lemma resolve_read:
  assumes "guest_ok g t e" and "resolve g t e path False = Inr a"
  obtains ps where "a = abs_path ps" and "list_all good_part ps" and "approved e ps"
    and "ps = [] \<or> is_folder (lookup t (butlast ps))" and "\<not> is_link (lookup t ps)" and "lookup t ps \<noteq> None"
proof -
  obtain b where b: "EvalSymlinks t b = Some a" "list_ex (inside_root a) (x_roots e)"
    using assms(2) by (auto simp: resolve_def Let_def split: if_splits option.splits)
  have t: "is_folder (Some t)" using assms(1) by (simp add: guest_ok_def)
  show thesis
    by (rule EvalSymlinks_canonical [OF b(1) t], rule that)
       (use b(2) approved_iff assms(1) in \<open>auto simp: guest_ok_def\<close>)
qed

lemma resolve_write_parts:
  assumes "guest_ok g t e" and "resolve g t e path True = Inr a"
  obtains "a = abs_path []" and "approved e []"
  | ds cs c where "Abs g path = Some (abs_path (ds @ [c]))" and "list_all good_part (ds @ [c])"
      and "walk t False 255 [] ds = Some cs" and "list_all good_part (cs @ [c])" and "a = abs_path (cs @ [c])"
      and "cs = [] \<or> is_folder (lookup t (butlast cs))" and "\<not> is_link (lookup t cs)" and "lookup t cs \<noteq> None"
      and "approved e (cs @ [c])"
proof -
  obtain b canonical where b: "Abs g path = Some b" "EvalSymlinks t (Dir b) = Some canonical"
      "a = Join canonical (Base b)" "list_ex (inside_root a) (x_roots e)"
    using assms(2) by (auto simp: resolve_def Let_def split: if_splits option.splits)
  have t: "is_folder (Some t)" and roots: "list_all root_ok (x_roots e)"
    using assms(1) by (simp_all add: guest_ok_def)
  have "\<And>wd. g_cwd g = Some wd \<Longrightarrow> rooted wd" using assms(1) by (simp add: guest_ok_def)
  then obtain bs where bs: "list_all good_part bs" "b = abs_path bs" using Abs_clean [OF b(1)] by blast
  obtain cs where cs: "canonical = abs_path cs" "list_all good_part cs" "cs = [] \<or> is_folder (lookup t (butlast cs))"
      "\<not> is_link (lookup t cs)" "lookup t cs \<noteq> None"
    by (rule EvalSymlinks_canonical [OF b(2) t])
  show thesis
  proof (cases bs rule: rev_cases)
    case Nil
    have "EvalSymlinks t (abs_path []) = Some (abs_path [])"
      by (simp add: EvalSymlinks_def path_walk_def abs_path_def)
    then have "a = abs_path []"
      using b(2,3) bs(2) Nil Dir_Base_root Join_root by simp
    then show thesis using that(1) b(4) approved_iff [of "[]" e] roots by simp
  next
    case (snoc ds c)
    then have a: "a = abs_path (cs @ [c])" "list_all good_part (cs @ [c])"
      using b(3) bs cs(1,2) Base_abs_path [of ds c] Join_abs_path [of cs c] by simp_all
    have "Dir b = abs_path ds" using bs snoc Dir_abs_path by simp
    then obtain cs' where "walk t False 255 [] ds = Some cs'" "abs_path cs' = abs_path cs"
      using b(2) cs(1) bs(1) snoc by (auto simp: EvalSymlinks_def path_walk_abs)
    moreover have "list_all good_part cs'"
    proof -
      have "list_all (\<lambda>c. slash \<notin> set c) ds" using bs(1) snoc by (auto simp: good_part_def list_all_iff)
      then show ?thesis using walk_canonical [OF calculation(1)] t by simp
    qed
    ultimately have "walk t False 255 [] ds = Some cs"
      using cs(2) abs_path_eq_iff by simp
    then show thesis
      using that(2) b(1,4) bs snoc a cs approved_iff [OF a(2) roots] by simp
  qed
qed

lemma resolve_write:
  assumes "guest_ok g t e" and "resolve g t e path True = Inr a"
  obtains ps where "a = abs_path ps" and "list_all good_part ps" and "approved e ps"
    and "ps = [] \<or> (lookup t (butlast ps) \<noteq> None \<and> \<not> is_link (lookup t (butlast ps)))"
    and "butlast ps = [] \<or> is_folder (lookup t (butlast (butlast ps)))"
proof (rule resolve_write_parts [OF assms])
  assume "a = abs_path []" "approved e []"
  then show thesis using that [of "[]"] by simp
next
  fix ds cs c
  assume "list_all good_part (cs @ [c])" "a = abs_path (cs @ [c])" "approved e (cs @ [c])"
    "cs = [] \<or> is_folder (lookup t (butlast cs))" "\<not> is_link (lookup t cs)" "lookup t cs \<noteq> None"
  then show thesis using that [of "cs @ [c]"] by simp
qed

text \<open>The roots of a new executor are what \<open>resolve\<close> expects.\<close>

lemma new_roots_ok:
  assumes "is_folder (Some t)" and "list_all root_ok acc"
  shows "new_roots g t rs acc = Some roots \<Longrightarrow> list_all root_ok roots"
  using assms(2)
proof (induction rs arbitrary: acc)
  case (Cons r rs)
  then obtain a b where ab: "Abs g r = Some a" "EvalSymlinks t a = Some b" "new_roots g t rs (acc @ [Clean b]) = Some roots"
    by (auto split: option.splits)
  obtain ps where "b = abs_path ps" "list_all good_part ps"
    by (rule EvalSymlinks_canonical [OF ab(2) assms(1)])
  then have "root_ok (Clean b)" by (simp add: Clean_abs_path root_ok_def)
  then show ?case using Cons.IH [OF ab(3)] Cons.prems(2) by simp
qed simp

lemma new_executor_ok:
  assumes "new_executor g t roots = Some e" and "tree_ok t" and "is_folder (Some t)"
    and "\<And>wd. g_cwd g = Some wd \<Longrightarrow> rooted wd"
  shows "guest_ok g t e"
  using assms new_roots_ok [OF assms(3), of "[]" g roots]
  by (auto simp: new_executor_def guest_ok_def split: option.splits)

lemma folder_not_link: "is_folder n \<Longrightarrow> \<not> is_link n"
  by (auto simp: is_folder_iff is_link_iff)

lemma link_free_path:
  assumes "ps = [] \<or> is_folder (lookup t (butlast ps))" and "\<not> is_link (lookup t ps)"
  shows "link_free t ps"
  unfolding link_free_def
proof (intro allI impI)
  fix n assume n: "n \<le> length ps"
  show "\<not> is_link (lookup t (take n ps))"
  proof (cases "n = length ps")
    case False
    then have "take n ps = take n (butlast ps)" "n \<le> length (butlast ps)" using n by (simp_all add: take_butlast)
    moreover have "is_folder (lookup t (butlast ps))" using False n assms(1) by auto
    ultimately show ?thesis using folder_prefix folder_not_link by metis
  qed (use assms in simp)
qed

lemma link_free_butlast: "link_free t ps \<Longrightarrow> link_free t (butlast ps)"
proof (cases ps rule: rev_cases)
  case (snoc qs q)
  assume "link_free t ps"
  then have "\<not> is_link (lookup t (take n qs))" if "n \<le> length qs" for n
    using that snoc by (auto simp: link_free_def dest: spec [of _ n])
  then show ?thesis using snoc by (simp add: link_free_def)
qed simp

lemma resolve_real_path:
  assumes "guest_ok g t e" and "list_all good_part ps" and "approved e ps" and "nul \<notin> set (abs_path ps)"
    and "ps = [] \<or> is_folder (lookup t (butlast ps))" and "\<not> is_link (lookup t ps)" and "lookup t ps \<noteq> None"
  shows "resolve g t e (abs_path ps) False = Inr (abs_path ps)"
proof -
  have "walk t False 255 [] ps = Some ps"
    using walk_id [of ps t "[]" False 255] assms by simp
  then have "EvalSymlinks t (abs_path ps) = Some (abs_path ps)"
    using assms(2) by (simp add: EvalSymlinks_def path_walk_abs)
  then show ?thesis
    using assms approved_iff [of ps e] by (simp add: resolve_def Abs_def Clean_abs_path guest_ok_def)
qed

text \<open>C31 Remote file access stays inside the approved directories.  Whatever path is asked for,
  relative, with dots or through symbolic links, what \<^verbatim>\<open>resolve\<close> returns is a clean absolute
  path at or below one of the roots whose directories are real, not links; for reading the path
  exists and is no link itself.  And every real path below a root is accepted as it is.\<close>

theorem resolve_stays_inside:
  assumes "guest_ok g t e"
  shows "(\<forall>a. resolve g t e path forWrite = Inr a \<longrightarrow>
      (\<exists>ps. a = abs_path ps \<and> list_all good_part ps \<and> approved e ps \<and> link_free t (butlast ps)
         \<and> (forWrite \<or> (link_free t ps \<and> lookup t ps \<noteq> None))))
    \<and> (\<forall>ps. list_all good_part ps \<longrightarrow> approved e ps \<longrightarrow> nul \<notin> set (abs_path ps) \<longrightarrow> link_free t ps \<longrightarrow>
         (ps = [] \<or> is_folder (lookup t (butlast ps))) \<longrightarrow> lookup t ps \<noteq> None \<longrightarrow>
         resolve g t e (abs_path ps) False = Inr (abs_path ps))"
proof (intro conjI allI impI)
  fix a assume a: "resolve g t e path forWrite = Inr a"
  show "\<exists>ps. a = abs_path ps \<and> list_all good_part ps \<and> approved e ps \<and> link_free t (butlast ps)
         \<and> (forWrite \<or> (link_free t ps \<and> lookup t ps \<noteq> None))"
  proof (cases forWrite)
    case True
    then have "resolve g t e path True = Inr a" using a by simp
    then obtain ps where "a = abs_path ps" "list_all good_part ps" "approved e ps"
        "ps = [] \<or> (lookup t (butlast ps) \<noteq> None \<and> \<not> is_link (lookup t (butlast ps)))"
        "butlast ps = [] \<or> is_folder (lookup t (butlast (butlast ps)))"
      by (rule resolve_write [OF assms])
    moreover from this have "link_free t (butlast ps)"
      using assms by (intro link_free_path) (auto simp: guest_ok_def dest: folder_not_link)
    ultimately show ?thesis using True by blast
  next
    case False
    then have "resolve g t e path False = Inr a" using a by simp
    then obtain ps where ps: "a = abs_path ps" "list_all good_part ps" "approved e ps"
        "ps = [] \<or> is_folder (lookup t (butlast ps))" "\<not> is_link (lookup t ps)" "lookup t ps \<noteq> None"
      by (rule resolve_read [OF assms])
    then have "link_free t ps" by (intro link_free_path)
    moreover have "link_free t (butlast ps)"
      using \<open>link_free t ps\<close> by (rule link_free_butlast)
    ultimately show ?thesis using ps by blast
  qed
next
  fix ps assume ps: "list_all good_part ps" "approved e ps" "nul \<notin> set (abs_path ps)" "link_free t ps"
    "ps = [] \<or> is_folder (lookup t (butlast ps))" "lookup t ps \<noteq> None"
  have "\<not> is_link (lookup t ps)" using ps(4) by (auto simp: link_free_def dest: spec [of _ "length ps"])
  then show "resolve g t e (abs_path ps) False = Inr (abs_path ps)"
    using resolve_real_path [OF assms] ps by blast
qed

text \<open>A guest with an approved directory, a secret outside it and a link to the secret.\<close>

definition sample_tree :: node where
  "sample_tree = Folder [(''shared'', Folder [(''a.txt'', File ''hello''), (''out'', Link ''/secret'')]),
     (''secret'', File ''key'')]"

definition sample_guest :: guest where
  "sample_guest = \<lparr>g_goos = ''linux'', g_arch = ''amd64'', g_version = ''go1.24'', g_hostname = ''guest'',
     g_has_ip = True, g_cwd = Some ''/'', g_now = 0,
     g_run = (\<lambda>x d. \<lparr>rr_writes = [], rr_err = None, rr_expired = False, rr_log = None\<rparr>),
     g_temp = Some ''/work'', g_temp_write = True, g_temp_close = True, g_xml = (\<lambda>s. None), g_oemcp = 850\<rparr>"

definition sample_executor :: executor where
  "sample_executor = \<lparr>x_roots = [''/shared''], x_workDir = ''/work'', x_owned = Map.empty, x_jobs = Map.empty\<rparr>"

lemma sample_paths: "''/shared'' = abs_path [''shared'']" "''/shared/a.txt'' = abs_path [''shared'', ''a.txt'']"
  by (simp_all add: abs_path_def)

lemma sample_parts: "good_part ''shared''" "good_part ''a.txt''"
  by (simp_all add: good_part_def)

lemma sample_guest_ok: "guest_ok sample_guest sample_tree sample_executor"
proof -
  have "root_ok ''/shared''" using sample_parts by (simp only: sample_paths root_ok_def) (simp add: Clean_abs_path)
  then show ?thesis
    by (simp add: guest_ok_def sample_guest_def sample_tree_def sample_executor_def is_folder_def rooted_def)
qed

theorem resolve_stays_inside_witness:
  "resolve sample_guest sample_tree sample_executor ''/shared/a.txt'' False = Inr ''/shared/a.txt''
   \<and> approved sample_executor [''shared'', ''a.txt'']"
proof -
  let ?ps = "[''shared'', ''a.txt'']"
  have approved: "approved sample_executor ?ps"
    unfolding approved_def
    by (rule exI [of _ "[''shared'']"]) (simp add: sample_executor_def sample_paths(1) sample_parts)
  have "link_free sample_tree ?ps" by (simp add: link_free_def sample_tree_def is_link_def le_Suc_eq all_conj_distrib)
  moreover have "nul \<notin> set (abs_path ?ps)" by (simp add: abs_path_def)
  moreover have "is_folder (lookup sample_tree (butlast ?ps))" "lookup sample_tree ?ps \<noteq> None"
    by (simp_all add: sample_tree_def is_folder_def)
  moreover have "list_all good_part ?ps" using sample_parts by simp
  ultimately have "resolve sample_guest sample_tree sample_executor (abs_path ?ps) False = Inr (abs_path ?ps)"
    using resolve_stays_inside [OF sample_guest_ok] approved by blast
  then show ?thesis using approved by (simp add: sample_paths(2))
qed

end
