(* ===== verification/Executor_Files.thy ===== *)
theory Executor_Files imports Executor_Core "HOL-Library.List_Lexorder" "HOL-Library.Char_ord" begin

text \<open>
  The file commands of \<^verbatim>\<open>internal/executor/executor.go\<close>: listing, reading and writing whole
  files, and transfers in chunks.  Each takes the tree of files and the failures of its system
  calls, and gives its reply and the tree it leaves.  The texts of operating-system errors are
  named after the call that failed.
\<close>

section \<open>Text matching\<close>

text \<open>
  \<^verbatim>\<open>strings.ToLower\<close>; \<open>low\<close> is the part of the Unicode table above ASCII.
\<close>

definition lower_rune :: "(rune \<Rightarrow> rune) \<Rightarrow> rune \<Rightarrow> rune" where
  "lower_rune low r = (if r < 0x80 then (if byte_in 65 90 r then r + 32 else r) else low r)"

definition ToLower :: "(rune \<Rightarrow> rune) \<Rightarrow> string \<Rightarrow> string" where
  "ToLower low s = strings_Map (\<lambda>r. Some (lower_rune low r)) s"

fun Contains :: "string \<Rightarrow> string \<Rightarrow> bool" where
  "Contains s p = (HasPrefix s p \<or> (case s of [] \<Rightarrow> False | c # s \<Rightarrow> Contains s p))"

declare Contains.simps [simp del]

section \<open>The environment of a call\<close>

datatype io = Do_open | Do_read | Do_readdir | Do_stat | Do_lstat | Do_seek | Do_write | Do_close | Do_rename

text \<open>
  \<open>io_fault\<close> says which calls fail; a failing write leaves \<open>io_partial\<close> bytes behind;
  \<open>io_vanished\<close> are the names that disappear between listing and inspection.
\<close>

record io_env =
  io_fault :: "io \<Rightarrow> bool"
  io_partial :: nat
  io_vanished :: "string \<Rightarrow> bool"
  io_dirsize :: nat
  io_lower :: "rune \<Rightarrow> rune"

section \<open>Parameters\<close>

record list_params =
  lp_Path :: string
  lp_Offset :: int
  lp_Limit :: int
  lp_Filter :: string

definition list_fields :: "list_params field list" where
  "list_fields =
     [(''path'', set_string (\<lambda>s. lp_Path_update (\<lambda>_. s))), (''offset'', set_int (\<lambda>i. lp_Offset_update (\<lambda>_. i))),
      (''limit'', set_int (\<lambda>i. lp_Limit_update (\<lambda>_. i))), (''filter'', set_string (\<lambda>s. lp_Filter_update (\<lambda>_. s)))]"

definition path_fields :: "string field list" where
  "path_fields = [(''path'', set_string (\<lambda>s _. s))]"

record write_params =
  wp_Path :: string
  wp_DataBase64 :: string

definition write_fields :: "write_params field list" where
  "write_fields =
     [(''path'', set_string (\<lambda>s. wp_Path_update (\<lambda>_. s))),
      (''dataBase64'', set_string (\<lambda>s. wp_DataBase64_update (\<lambda>_. s)))]"

record chunk_params =
  cp_Path :: string
  cp_Offset :: int
  cp_Limit :: int
  cp_DataBase64 :: string
  cp_Final :: bool
  cp_ExpectedSHA256 :: string

definition read_chunk_fields :: "chunk_params field list" where
  "read_chunk_fields =
     [(''path'', set_string (\<lambda>s. cp_Path_update (\<lambda>_. s))), (''offset'', set_int (\<lambda>i. cp_Offset_update (\<lambda>_. i))),
      (''limit'', set_int (\<lambda>i. cp_Limit_update (\<lambda>_. i)))]"

definition write_chunk_fields :: "chunk_params field list" where
  "write_chunk_fields =
     [(''path'', set_string (\<lambda>s. cp_Path_update (\<lambda>_. s))), (''offset'', set_int (\<lambda>i. cp_Offset_update (\<lambda>_. i))),
      (''dataBase64'', set_string (\<lambda>s. cp_DataBase64_update (\<lambda>_. s))),
      (''final'', set_bool (\<lambda>b. cp_Final_update (\<lambda>_. b))),
      (''expectedSHA256'', set_string (\<lambda>s. cp_ExpectedSHA256_update (\<lambda>_. s)))]"

definition no_list_params :: list_params where
  "no_list_params = \<lparr>lp_Path = [], lp_Offset = 0, lp_Limit = 0, lp_Filter = []\<rparr>"

definition no_write_params :: write_params where
  "no_write_params = \<lparr>wp_Path = [], wp_DataBase64 = []\<rparr>"

definition no_chunk_params :: chunk_params where
  "no_chunk_params = \<lparr>cp_Path = [], cp_Offset = 0, cp_Limit = 0, cp_DataBase64 = [], cp_Final = False, cp_ExpectedSHA256 = []\<rparr>"

section \<open>Listing a directory\<close>

record list_item =
  li_Name :: string
  li_Directory :: bool
  li_Size :: nat

definition item_of :: "io_env \<Rightarrow> string \<times> node \<Rightarrow> list_item" where
  "item_of env v =
     (case snd v of
        File s \<Rightarrow> \<lparr>li_Name = fst v, li_Directory = False, li_Size = length s\<rparr>
      | Link s \<Rightarrow> \<lparr>li_Name = fst v, li_Directory = False, li_Size = length s\<rparr>
      | Folder es \<Rightarrow> \<lparr>li_Name = fst v, li_Directory = True, li_Size = io_dirsize env\<rparr>)"

definition item_json :: "list_item \<Rightarrow> json" where
  "item_json x =
     JObject [(''name'', JString (li_Name x)), (''directory'', JBool (li_Directory x)),
              (''size'', JNumber (Itoa (int (li_Size x))))]"

fun list_items :: "io_env \<Rightarrow> string \<Rightarrow> (string \<times> node) list \<Rightarrow> list_item list" where
  "list_items env flt [] = []"
| "list_items env flt (v # vs) =
     (if flt \<noteq> [] \<and> \<not> Contains (ToLower (io_lower env) (fst v)) (ToLower (io_lower env) flt) then list_items env flt vs
      else if io_vanished env (fst v) then list_items env flt vs
      else item_of env v # list_items env flt vs)"

definition filesList :: "guest \<Rightarrow> io_env \<Rightarrow> node \<Rightarrow> executor \<Rightarrow> command \<Rightarrow> reply" where
  "filesList g env t e c =
     (case decode_strict list_fields no_list_params (c_Params c) of
        None \<Rightarrow> failure ''invalid list request''
      | Some p \<Rightarrow>
          if lp_Offset p < 0 \<or> lp_Limit p < 0 \<or> 1000 < lp_Limit p then failure ''invalid list request''
          else
            let limit = (if lp_Limit p = 0 then 200 else lp_Limit p)
            in (case resolve g t e (lp_Path p) False of
                  Inl m \<Rightarrow> failure m
                | Inr path \<Rightarrow>
                    (case open_read t path of
                       Some (Folder vs) \<Rightarrow>
                         if io_fault env Do_readdir then failure ''readdir''
                         else
                           let out = sort_key li_Name (list_items env (lp_Filter p) vs);
                               total = int (length out);
                               offset = (if total < lp_Offset p then total else lp_Offset p);
                               fin = min total (offset + limit)
                           in marshal (JObject
                                [(''hasMore'', JBool (fin < total)),
                                 (''items'', JArray (map item_json (drop (nat offset) (take (nat fin) out)))),
                                 (''limit'', JNumber (Itoa limit)), (''offset'', JNumber (Itoa offset)),
                                 (''total'', JNumber (Itoa total))])
                     | _ \<Rightarrow> failure ''readdir'')))"

section \<open>Whole files\<close>

definition filesRead :: "guest \<Rightarrow> io_env \<Rightarrow> node \<Rightarrow> executor \<Rightarrow> command \<Rightarrow> reply" where
  "filesRead g env t e c =
     (case decode_strict path_fields [] (c_Params c) of
        None \<Rightarrow> failure ''invalid read request''
      | Some p \<Rightarrow>
          (case resolve g t e p False of
             Inl m \<Rightarrow> failure m
           | Inr path \<Rightarrow>
               if io_fault env Do_open then failure ''open''
               else (case open_read t path of
                       Some (File content) \<Rightarrow>
                         if io_fault env Do_read then failure ''read''
                         else
                           let data = take (MaxTransfer + 1) content
                           in if MaxTransfer < length data then failure ''file too large''
                              else marshal (JObject [(''dataBase64'', JString (StdEncode data)),
                                                     (''size'', JNumber (Itoa (int (length data))))])
                     | Some _ \<Rightarrow> failure ''read''
                     | None \<Rightarrow> failure ''open'')))"

text \<open>\<^verbatim>\<open>os.WriteFile\<close>: open with creation and truncation, write, close.\<close>

definition os_WriteFile :: "io_env \<Rightarrow> node \<Rightarrow> string \<Rightarrow> string \<Rightarrow> bool \<times> node" where
  "os_WriteFile env t path data =
     (if io_fault env Do_open then (False, t)
      else case open_write t True path of
        None \<Rightarrow> (False, t)
      | Some (p, t) \<Rightarrow>
          if io_fault env Do_write then (False, put_node p (Some (File (take (io_partial env) data))) t)
          else (\<not> io_fault env Do_close, put_node p (Some (File data)) t))"

definition filesWrite :: "guest \<Rightarrow> io_env \<Rightarrow> node \<Rightarrow> executor \<Rightarrow> command \<Rightarrow> reply \<times> node" where
  "filesWrite g env t e c =
     (case decode_strict write_fields no_write_params (c_Params c) of
        None \<Rightarrow> (failure ''invalid write request'', t)
      | Some p \<Rightarrow>
          (case StdDecode (wp_DataBase64 p) of
             None \<Rightarrow> (failure ''invalid or oversized file'', t)
           | Some data \<Rightarrow>
               if MaxTransfer < length data then (failure ''invalid or oversized file'', t)
               else
                 (case resolve g t e (wp_Path p) True of
                    Inl m \<Rightarrow> (failure m, t)
                  | Inr path \<Rightarrow>
                      if io_fault env Do_lstat then (failure ''lstat'', t)
                      else
                        (case Lstat t path of
                           Found n \<Rightarrow> (failure ''refusing to overwrite existing file'', t)
                         | Stat_error \<Rightarrow> (failure ''lstat'', t)
                         | Absent \<Rightarrow>
                             (case os_WriteFile env t path data of
                                (False, t) \<Rightarrow> (failure ''write'', t)
                              | (True, t) \<Rightarrow> (marshal (JObject [(''written'', JNumber (Itoa (int (length data))))]), t))))))"

section \<open>Transfers in chunks\<close>

definition filesReadChunk :: "crypto \<Rightarrow> guest \<Rightarrow> io_env \<Rightarrow> node \<Rightarrow> executor \<Rightarrow> command \<Rightarrow> reply" where
  "filesReadChunk cr g env t e c =
     (case decode_strict read_chunk_fields no_chunk_params (c_Params c) of
        None \<Rightarrow> failure ''invalid read chunk request''
      | Some p \<Rightarrow>
          if cp_Offset p < 0 \<or> cp_Limit p < 0 \<or> int MaxTransfer < cp_Limit p then failure ''invalid read chunk request''
          else
            let limit = (if cp_Limit p = 0 then 1048576 else cp_Limit p)
            in (case resolve g t e (cp_Path p) False of
                  Inl m \<Rightarrow> failure m
                | Inr path \<Rightarrow>
                    if io_fault env Do_open then failure ''open''
                    else (case open_read t path of
                            Some (File content) \<Rightarrow>
                              if io_fault env Do_stat \<or> int (length content) < cp_Offset p then failure ''offset outside file''
                              else if io_fault env Do_read then failure ''read''
                              else
                                let size = int (length content);
                                    want = min limit (size - cp_Offset p);
                                    data = take (nat want) (drop (nat (cp_Offset p)) content);
                                    fin = cp_Offset p + int (length data)
                                in marshal (JObject
                                     [(''chunkSHA256'', JString (hex_encode (sha256 cr data))),
                                      (''dataBase64'', JString (StdEncode data)),
                                      (''eof'', JBool (size \<le> fin)), (''nextOffset'', JNumber (Itoa fin)),
                                      (''offset'', JNumber (Itoa (cp_Offset p))), (''size'', JNumber (Itoa size))])
                          | Some _ \<Rightarrow> failure ''read''
                          | None \<Rightarrow> failure ''open'')))"

text \<open>\<^verbatim>\<open>strings.EqualFold\<close> with an ASCII text.\<close>

definition EqualFold :: "string \<Rightarrow> string \<Rightarrow> bool" where
  "EqualFold a b \<longleftrightarrow> fold_name a = fold_name b"

definition part_suffix :: string where
  "part_suffix = ''.openclaw-part''"

definition remove_entry :: "node \<Rightarrow> string \<Rightarrow> node" where
  "remove_entry t path = (case entry_pos t path of None \<Rightarrow> t | Some p \<Rightarrow> put_node p None t)"

text \<open>\<^verbatim>\<open>os.Rename\<close> of an entry to a name that is free.\<close>

definition rename_entry :: "node \<Rightarrow> string \<Rightarrow> string \<Rightarrow> node option" where
  "rename_entry t a b =
     (case (entry_pos t a, entry_pos t b) of
        (Some p, Some q) \<Rightarrow>
          (case lookup t p of None \<Rightarrow> None | Some n \<Rightarrow> Some (put_node q (Some n) (put_node p None t)))
      | _ \<Rightarrow> None)"

text \<open>The end of a transfer: the whole file is checked and published.\<close>

definition publish_part :: "crypto \<Rightarrow> io_env \<Rightarrow> node \<Rightarrow> string \<Rightarrow> string \<Rightarrow> string \<Rightarrow> nat \<Rightarrow> reply \<times> node" where
  "publish_part cr env t target part expected written =
     (if expected = [] then (failure ''final chunk requires expected SHA-256'', t)
      else case open_read t part of
        Some (File content) \<Rightarrow>
          if io_fault env Do_read then (failure ''read'', t)
          else
            let actual = hex_encode (sha256 cr content)
            in if \<not> EqualFold actual expected then (failure ''final SHA-256 mismatch'', remove_entry t part)
               else if io_fault env Do_lstat then (failure ''lstat'', t)
               else
                 (case Lstat t target of
                    Found n \<Rightarrow> (failure ''refusing to overwrite existing file'', t)
                  | Stat_error \<Rightarrow> (failure ''lstat'', t)
                  | Absent \<Rightarrow>
                      if io_fault env Do_rename then (failure ''rename'', t)
                      else
                        (case rename_entry t part target of
                           None \<Rightarrow> (failure ''rename'', t)
                         | Some t \<Rightarrow>
                             (marshal (JObject [(''final'', JBool True), (''sha256'', JString actual),
                                (''size'', JNumber (Itoa (int (length content)))),
                                (''written'', JNumber (Itoa (int written)))]), t)))
      | _ \<Rightarrow> (failure ''read'', t))"

definition write_at :: "nat \<Rightarrow> string \<Rightarrow> string \<Rightarrow> string" where
  "write_at offset data content = take offset content @ data @ drop (offset + length data) content"

text \<open>What is checked before anything is opened.\<close>

definition chunk_admit :: "guest \<Rightarrow> node \<Rightarrow> executor \<Rightarrow> command \<Rightarrow> string + chunk_params \<times> string \<times> string" where
  "chunk_admit g t e c =
     (case decode_strict write_chunk_fields no_chunk_params (c_Params c) of
        None \<Rightarrow> Inl ''invalid write chunk request''
      | Some p \<Rightarrow>
          if cp_Offset p < 0 then Inl ''invalid write chunk request''
          else (case StdDecode (cp_DataBase64 p) of
            None \<Rightarrow> Inl ''invalid or oversized chunk''
          | Some data \<Rightarrow>
              if MaxChunk < length data \<or> int MaxTransfer < wrap64 (cp_Offset p + int (length data)) then
                Inl ''invalid or oversized chunk''
              else (case resolve g t e (cp_Path p) True of Inl m \<Rightarrow> Inl m | Inr target \<Rightarrow> Inr (p, data, target))))"

text \<open>Writing the chunk behind what the part file holds; a last chunk publishes it.\<close>

definition store_chunk :: "crypto \<Rightarrow> io_env \<Rightarrow> node \<Rightarrow> chunk_params \<Rightarrow> string \<Rightarrow> string \<Rightarrow> reply \<times> node" where
  "store_chunk cr env t p data target =
     (if io_fault env Do_open then (failure ''open'', t)
      else case open_write t (cp_Offset p = 0) (target @ part_suffix) of
        None \<Rightarrow> (failure ''open'', t)
      | Some (q, t) \<Rightarrow>
          (case lookup t q of
             Some (File content) \<Rightarrow>
               if io_fault env Do_stat \<or> int (length content) \<noteq> cp_Offset p then (failure ''chunk offset mismatch'', t)
               else if io_fault env Do_seek then (failure ''seek'', t)
               else
                 let offset = nat (cp_Offset p);
                     written = (if io_fault env Do_write then take (io_partial env) data else data);
                     t = put_node q (Some (File (write_at offset written content))) t
                 in if io_fault env Do_write then (failure ''write'', t)
                    else if io_fault env Do_close then (failure ''close'', t)
                    else if \<not> cp_Final p then
                      (marshal (JObject [(''final'', JBool False),
                         (''nextOffset'', JNumber (Itoa (cp_Offset p + int (length data)))),
                         (''written'', JNumber (Itoa (int (length data))))]), t)
                    else publish_part cr env t target (target @ part_suffix) (cp_ExpectedSHA256 p) (length data)
           | _ \<Rightarrow> (failure ''chunk offset mismatch'', t)))"

definition filesWriteChunk :: "crypto \<Rightarrow> guest \<Rightarrow> io_env \<Rightarrow> node \<Rightarrow> executor \<Rightarrow> command \<Rightarrow> reply \<times> node" where
  "filesWriteChunk cr g env t e c =
     (case chunk_admit g t e c of
        Inl m \<Rightarrow> (failure m, t)
      | Inr (p, data, target) \<Rightarrow> store_chunk cr env t p data target)"

section \<open>Opening entries of real directories\<close>

lemma lookup_put_prefix:
  "tree_ok t \<Longrightarrow> is_folder (lookup t q) \<Longrightarrow> is_folder (lookup (put_node (q @ c # r) new t) q)"
proof (induction q arbitrary: t)
  case Nil
  then show ?case by (cases t; cases r) (auto simp: is_folder_iff split: option.splits)
next
  case (Cons d q)
  then obtain es n where t: "t = Folder es" "map_of es d = Some n" "is_folder (lookup n q)"
    by (cases t) (auto simp: is_folder_iff split: option.splits)
  then have "tree_ok n" using Cons.prems entries_ok_map_of by auto
  then show ?case
    using Cons.IH [of n] t Cons.prems(1) by (cases "q @ c # r") (auto simp: map_of_put_entry entries_ok_distinct)
qed

lemma walk_entry:
  assumes "list_all good_part (ps @ [c])" and "is_folder (lookup t ps)" and "\<not> is_link (lookup t (ps @ [c]))"
    and "lookup t (ps @ [c]) \<noteq> None \<or> create"
  shows "path_walk t create links (abs_path (ps @ [c])) = Some (ps @ [c])"
  using walk_id [of "ps @ [c]" t "[]" create links] assms by (simp add: path_walk_abs)

lemma open_read_entry:
  assumes "list_all good_part (ps @ [c])" and "is_folder (lookup t ps)" and "lookup t (ps @ [c]) = Some (File s)"
  shows "open_read t (abs_path (ps @ [c])) = Some (File s)"
  using walk_entry [OF assms(1,2), of False 40] assms(3) by (simp add: open_read_def is_link_def)

lemma open_write_entry:
  assumes "list_all good_part (ps @ [c])" and "is_folder (lookup t ps)" and "lookup t (ps @ [c]) = Some (File s)"
  shows "open_write t trunc (abs_path (ps @ [c]))
    = Some (ps @ [c], if trunc then put_node (ps @ [c]) (Some (File [])) t else t)"
  using walk_entry [OF assms(1,2), of True 40] assms(3) by (simp add: open_write_def is_link_def)

lemma open_write_new:
  assumes "list_all good_part (ps @ [c])" and "is_folder (lookup t ps)" and "lookup t (ps @ [c]) = None"
  shows "open_write t trunc (abs_path (ps @ [c])) = Some (ps @ [c], put_node (ps @ [c]) (Some (File [])) t)"
  using walk_entry [OF assms(1,2), of True 40] assms(3) by (simp add: open_write_def is_link_def)

lemma Lstat_entry:
  assumes "list_all good_part (ps @ [c])" and "is_folder (lookup t ps)"
  shows "Lstat t (abs_path (ps @ [c])) = (case lookup t (ps @ [c]) of None \<Rightarrow> Absent | Some n \<Rightarrow> Found n)"
  using entry_pos_abs [OF assms] by (simp add: Lstat_def)

lemma Lstat_Absent:
  assumes "list_all good_part ps" and "Lstat t (abs_path ps) = Absent"
    and "ps = [] \<or> (lookup t (butlast ps) \<noteq> None \<and> \<not> is_link (lookup t (butlast ps)))"
    and "butlast ps = [] \<or> is_folder (lookup t (butlast (butlast ps)))"
  obtains qs c where "ps = qs @ [c]" and "is_folder (lookup t qs)" and "lookup t ps = None"
proof (cases ps rule: rev_cases)
  case Nil
  then show thesis using assms(2) by (simp add: Lstat_def entry_pos_def split: option.splits)
next
  case (snoc qs c)
  have "walk t False 40 [] qs = Some qs"
    using walk_id [of qs t "[]" False 40] assms snoc by simp
  then have "entry_pos t (abs_path ps) = (if is_folder (lookup t qs) then Some ps else None)"
    using assms(1) snoc by (simp add: entry_pos_def)
  then show thesis
    using assms(2) that [OF snoc] by (auto simp: Lstat_def split: if_splits option.splits)
qed

text \<open>
  \<open>entry_put t ps new u\<close>: the entry at \<open>ps\<close> is now \<open>new\<close>, and everything that is not above
  or below it is as it was.
\<close>

definition entry_put :: "node \<Rightarrow> string list \<Rightarrow> node option \<Rightarrow> node \<Rightarrow> bool" where
  "entry_put t ps new u \<longleftrightarrow>
     lookup u ps = new \<and> tree_ok u
     \<and> (\<forall>q. \<not> below ps q \<longrightarrow> \<not> below q ps \<longrightarrow> lookup u q = lookup t q)
     \<and> (\<forall>q. below q ps \<longrightarrow> q \<noteq> ps \<longrightarrow> is_folder (lookup t q) \<longrightarrow> is_folder (lookup u q))"

abbreviation file_put :: "node \<Rightarrow> string list \<Rightarrow> string \<Rightarrow> node \<Rightarrow> bool" where
  "file_put t ps data u \<equiv> entry_put t ps (Some (File data)) u"

lemma entry_put_node:
  assumes "tree_ok t" and "is_folder (lookup t ps)" and "\<And>n. new = Some n \<Longrightarrow> tree_ok n"
  shows "entry_put t (ps @ [c]) new (put_node (ps @ [c]) new t)"
  unfolding entry_put_def
proof (intro conjI allI impI)
  show "lookup (put_node (ps @ [c]) new t) (ps @ [c]) = new"
    using assms(1,2) by (rule lookup_put_same)
  show "tree_ok (put_node (ps @ [c]) new t)" using assms(1,3) by (rule tree_ok_put)
  fix q
  show "lookup (put_node (ps @ [c]) new t) q = lookup t q"
    if "\<not> below (ps @ [c]) q" "\<not> below q (ps @ [c])"
    using lookup_put_other [OF assms(1) that] .
  show "is_folder (lookup (put_node (ps @ [c]) new t) q)"
    if q: "below q (ps @ [c])" "q \<noteq> ps @ [c]" "is_folder (lookup t q)"
  proof -
    obtain d r where "ps @ [c] = q @ d # r" using q(1,2) by (auto simp: below_iff) (metis append_Nil2 neq_Nil_conv)
    then show ?thesis using lookup_put_prefix [OF assms(1) q(3)] by metis
  qed
qed

lemma file_put_node:
  assumes "tree_ok t" and "is_folder (lookup t ps)"
  shows "file_put t (ps @ [c]) data (put_node (ps @ [c]) (Some (File data)) t)"
  by (rule entry_put_node [OF assms]) auto

lemma entry_put_parent: "entry_put t (ps @ [c]) new u \<Longrightarrow> is_folder (lookup t ps) \<Longrightarrow> is_folder (lookup u ps)"
  by (auto simp: entry_put_def)

lemma entry_put_trans:
  assumes "entry_put t ps a u" and "entry_put u ps b v"
  shows "entry_put t ps b v"
  using assms by (simp add: entry_put_def)

lemma file_put_again:
  assumes "entry_put t (ps @ [c]) a u" and "is_folder (lookup t ps)"
  shows "file_put t (ps @ [c]) b (put_node (ps @ [c]) (Some (File b)) u)"
proof (rule entry_put_trans [OF assms(1)], rule file_put_node)
  show "tree_ok u" using assms(1) by (simp add: entry_put_def)
  show "is_folder (lookup u ps)" by (rule entry_put_parent [OF assms])
qed

lemma lookup_below_None: "lookup t p = None \<Longrightarrow> below p q \<Longrightarrow> lookup t q = None"
  unfolding below_iff using lookup_append by fastforce

lemma lookup_folder: "lookup t (ps @ [c]) = Some n \<Longrightarrow> is_folder (Some t)"
  by (cases t; cases "ps @ [c]") (auto simp: is_folder_def)

lemma file_put_grows:
  assumes "file_put t (ps @ [c]) data u" and "is_folder (lookup t ps)" and "lookup t (ps @ [c]) = None"
  shows "grows t u"
  unfolding grows_def
proof (intro allI impI)
  fix q n assume q: "lookup t q = Some n"
  show "case n of Folder es \<Rightarrow> is_folder (lookup u q) | _ \<Rightarrow> lookup u q = Some n"
  proof (cases "below q (ps @ [c])")
    case True
    have "q \<noteq> ps @ [c]" using q assms(3) by auto
    then obtain r where "ps = q @ r"
      using True by (auto simp: below_iff append_eq_append_conv2 Cons_eq_append_conv)
    then have "is_folder (lookup t q)"
      using folder_prefix [OF assms(2), of "length q"] by simp
    then show ?thesis
      using True q \<open>q \<noteq> ps @ [c]\<close> assms(1) by (auto simp: entry_put_def is_folder_iff)
  next
    case False
    have "\<not> below (ps @ [c]) q"
      using q assms(3) lookup_below_None by fastforce
    then have "lookup u q = lookup t q" using False assms(1) by (simp add: entry_put_def)
    then show ?thesis using q by (simp add: is_folder_def split: node.splits)
  qed
qed

lemma guest_ok_file_put: "guest_ok g t e \<Longrightarrow> file_put t (ps @ [c]) data u \<Longrightarrow> guest_ok g u e"
  using lookup_folder by (auto simp: guest_ok_def entry_put_def)

text \<open>The path a file was written under also reads it.\<close>

lemma resolve_again:
  assumes "guest_ok g t e" and "resolve g t e path True = Inr (abs_path (ps @ [c]))"
    and "list_all good_part (ps @ [c])" and "is_folder (lookup t ps)" and "lookup t (ps @ [c]) = None"
    and "file_put t (ps @ [c]) data u"
  shows "resolve g u e path False = Inr (abs_path (ps @ [c]))"
  using assms(1,2)
proof (rule resolve_write_parts)
  assume "abs_path (ps @ [c]) = abs_path []"
  then have "ps @ [c] = []" using abs_path_eq_iff [of "ps @ [c]" "[]"] assms(3) by simp
  then show ?thesis by simp
next
  fix ds cs d
  assume d: "Abs g path = Some (abs_path (ds @ [d]))" "list_all good_part (ds @ [d])" "walk t False 255 [] ds = Some cs"
    "list_all good_part (cs @ [d])" "abs_path (ps @ [c]) = abs_path (cs @ [d])" "approved e (cs @ [d])"
  then have eq: "cs = ps" "d = c" using abs_path_eq_iff assms(3) by (metis append1_eq_conv)+
  have u: "lookup u (ps @ [c]) = Some (File data)" "is_folder (lookup u ps)"
    using assms(6) entry_put_parent [OF assms(6,4)] by (simp_all add: entry_put_def)
  have "walk u False 255 [] ds = Some ps"
    using walk_passable [OF d(3) grows_passable [OF file_put_grows [OF assms(6,4,5)]]] eq(1) by simp
  then obtain k where "walk u False 255 [] (ds @ [c]) = walk u False k ps [c]"
    using walk_extend u(2) by blast
  also have "\<dots> = Some (ps @ [c])"
    using u assms(3) by (auto simp: good_part_def)
  finally have "EvalSymlinks u (abs_path (ds @ [c])) = Some (abs_path (ps @ [c]))"
    using d(2) eq(2) by (simp add: EvalSymlinks_def path_walk_abs)
  moreover have "list_ex (inside_root (abs_path (ps @ [c]))) (x_roots e)"
    using approved_iff [OF assms(3)] d(6) eq assms(1) by (simp add: guest_ok_def)
  moreover have "path \<noteq> []" "nul \<notin> set path"
    using assms(2) by (auto simp: resolve_def split: if_splits)
  ultimately show ?thesis
    using d(1) eq(2) by (simp add: resolve_def)
qed

text \<open>What a free name resolves to: an entry of a real directory.\<close>

lemma resolve_free:
  assumes "guest_ok g t e" and "resolve g t e path True = Inr a" and "Lstat t a = Absent"
  obtains ps c where "a = abs_path (ps @ [c])" and "list_all good_part (ps @ [c])" and "approved e (ps @ [c])"
    and "is_folder (lookup t ps)" and "lookup t (ps @ [c]) = None"
proof -
  obtain qs where qs: "a = abs_path qs" "list_all good_part qs" "approved e qs"
      "qs = [] \<or> (lookup t (butlast qs) \<noteq> None \<and> \<not> is_link (lookup t (butlast qs)))"
      "butlast qs = [] \<or> is_folder (lookup t (butlast (butlast qs)))"
    by (rule resolve_write [OF assms(1,2)])
  have absent: "Lstat t (abs_path qs) = Absent" using assms(3) qs(1) by simp
  obtain ps c where "qs = ps @ [c]" "is_folder (lookup t ps)" "lookup t qs = None"
    by (rule Lstat_Absent [OF qs(2) absent qs(4,5)])
  then show thesis using that qs by blast
qed

lemma os_WriteFile_new:
  assumes "guest_ok g t e" and "list_all good_part (ps @ [c])" and "is_folder (lookup t ps)" and "lookup t (ps @ [c]) = None"
    and "os_WriteFile env t (abs_path (ps @ [c])) data = (ok, u)"
  shows "(u = t \<and> \<not> ok) \<or> (\<exists>d. file_put t (ps @ [c]) d u \<and> (ok \<longrightarrow> d = data))"
proof (cases "io_fault env Do_open")
  case False
  let ?v = "put_node (ps @ [c]) (Some (File [])) t"
  have "file_put t (ps @ [c]) [] ?v"
    using file_put_node assms(1,3) by (auto simp: guest_ok_def)
  then have "file_put t (ps @ [c]) d (put_node (ps @ [c]) (Some (File d)) ?v)" for d
    using file_put_again assms(3) by blast
  then show ?thesis
    using assms(5) False open_write_new [OF assms(2,3,4), of True] by (auto simp: os_WriteFile_def split: if_splits)
qed (use assms(5) in \<open>simp add: os_WriteFile_def\<close>)

lemma resolve_new:
  assumes "guest_ok g t e" and "list_all good_part (ps @ [c])" and "approved e (ps @ [c])" and "nul \<notin> set (abs_path (ps @ [c]))"
    and "is_folder (lookup t ps)"
  shows "resolve g t e (abs_path (ps @ [c])) True = Inr (abs_path (ps @ [c]))"
proof -
  have "\<not> is_link (lookup t ps)" "lookup t ps \<noteq> None"
    using assms(5) by (auto simp: is_folder_iff is_link_iff)
  then have "walk t False 255 [] ps = Some ps"
    using walk_id [of ps t "[]" False 255] assms(2,5) is_folder_butlast [of t ps] by simp
  then have "EvalSymlinks t (abs_path ps) = Some (abs_path ps)"
    using assms(2) by (simp add: EvalSymlinks_def path_walk_abs)
  moreover have "good_part c" using assms(2) by simp
  ultimately show ?thesis
    using assms approved_iff [OF assms(2)] Dir_abs_path [OF assms(2)] Base_abs_path [of ps c] Join_abs_path [OF assms(2)]
    by (simp add: resolve_def Abs_def Clean_abs_path guest_ok_def)
qed

section \<open>Requests\<close>

text \<open>The parameters an operator sends.\<close>

definition path_request :: "string \<Rightarrow> string" where
  "path_request path = json_text (JObject [(''path'', JString path)])"

definition write_request :: "string \<Rightarrow> string \<Rightarrow> string" where
  "write_request path data = json_text (JObject [(''path'', JString path), (''dataBase64'', JString (StdEncode data))])"

lemma decode_strict_text:
  "json_ok (JObject ms) \<Longrightarrow> json_depth (JObject ms) \<le> 10000 \<Longrightarrow>
   decode_strict fs r (json_text (JObject ms)) = set_fields True fs ms r"
  using parse_first [OF parse_text [of "JObject ms"]]
  by (simp add: decode_strict_def del: json_text.simps json_ok.simps json_depth.simps)

lemma decode_path_request: "valid_utf8 path \<Longrightarrow> decode_strict path_fields [] (path_request path) = Some path"
  unfolding path_request_def by (subst decode_strict_text) (simp_all add: path_fields_def find_field_def ascii_valid)

lemma decode_write_request:
  "valid_utf8 path \<Longrightarrow>
   decode_strict write_fields no_write_params (write_request path data)
     = Some \<lparr>wp_Path = path, wp_DataBase64 = StdEncode data\<rparr>"
  unfolding write_request_def
  by (subst decode_strict_text) (simp_all add: write_fields_def find_field_def no_write_params_def ascii_valid)

definition calm :: "io_env \<Rightarrow> bool" where
  "calm env \<longleftrightarrow> io_fault env = (\<lambda>_. False)"

text \<open>What \<^verbatim>\<open>files.read\<close> answers for a file with the content \<open>data\<close>.\<close>

definition read_answer :: "string \<Rightarrow> reply" where
  "read_answer data =
     marshal (JObject [(''dataBase64'', JString (StdEncode data)), (''size'', JNumber (Itoa (int (length data))))])"

lemma filesRead_entry:
  assumes "resolve g t e p False = Inr (abs_path (ps @ [c]))" and "list_all good_part (ps @ [c])"
    and "is_folder (lookup t ps)" and "lookup t (ps @ [c]) = Some (File data)" and "length data \<le> MaxTransfer"
    and "calm env" and "decode_strict path_fields [] (c_Params cmd) = Some p"
  shows "filesRead g env t e cmd = read_answer data"
  using assms open_read_entry [OF assms(2-4)] by (simp add: filesRead_def read_answer_def calm_def)

lemma filesWrite_cases:
  assumes "filesWrite g env t e c = (r, u)"
  obtains "u = t" and "snd r \<noteq> None"
  | p data path where "decode_strict write_fields no_write_params (c_Params c) = Some p"
      and "StdDecode (wp_DataBase64 p) = Some data" and "length data \<le> MaxTransfer"
      and "resolve g t e (wp_Path p) True = Inr path" and "Lstat t path = Absent"
      and "os_WriteFile env t path data = (snd r = None, u)"
  using assms
  by (auto simp: filesWrite_def failure_def marshal_def split: option.splits if_splits sum.splits stat_result.splits prod.splits bool.splits)

text \<open>A free name in an approved directory.\<close>

definition free_name :: "node \<Rightarrow> executor \<Rightarrow> string list \<Rightarrow> bool" where
  "free_name t e ps \<longleftrightarrow>
     ps \<noteq> [] \<and> list_all good_part ps \<and> approved e ps \<and> nul \<notin> set (abs_path ps) \<and> valid_utf8 (abs_path ps)
     \<and> is_folder (lookup t (butlast ps)) \<and> lookup t ps = None"

lemma free_nameE:
  assumes "free_name t e qs"
  obtains ps x where "qs = ps @ [x]" and "list_all good_part (ps @ [x])" and "approved e (ps @ [x])"
    and "nul \<notin> set (abs_path (ps @ [x]))" and "valid_utf8 (abs_path (ps @ [x]))" and "is_folder (lookup t ps)"
    and "lookup t (ps @ [x]) = None"
  using assms by (cases qs rule: rev_cases) (auto simp: free_name_def)

section \<open>Reading back what was written\<close>

text \<open>An upload adds one new file and nothing else.  Whatever the request and whatever system
  call fails, \<^verbatim>\<open>files.write\<close> either leaves the tree as it is, with an error, or puts one file
  where no entry was, in a real directory below an approved root; everything that was there stays.
  After a success the file holds exactly the decoded bytes and \<^verbatim>\<open>files.read\<close> of the same path
  answers them.  A free name in an approved directory is accepted.\<close>

theorem upload_reads_back:
  assumes "guest_ok g t e" and "filesWrite g env t e c = (r, u)"
  shows "((u = t \<and> snd r \<noteq> None) \<or>
       (\<exists>p ps data. decode_strict write_fields no_write_params (c_Params c) = Some p \<and> list_all good_part ps
          \<and> resolve g t e (wp_Path p) True = Inr (abs_path ps)
          \<and> approved e ps \<and> lookup t ps = None \<and> file_put t ps data u \<and> grows t u
          \<and> (snd r = None \<longrightarrow> StdDecode (wp_DataBase64 p) = Some data
               \<and> (\<forall>env' c'. calm env' \<longrightarrow> decode_strict path_fields [] (c_Params c') = Some (wp_Path p) \<longrightarrow>
                    filesRead g env' u e c' = read_answer data))))
    \<and> (\<forall>ps content. free_name t e ps \<longrightarrow> calm env \<longrightarrow> length content \<le> MaxTransfer \<longrightarrow>
         c_Params c = write_request (abs_path ps) content \<longrightarrow> snd r = None)"
proof (intro conjI allI impI)
  show "(u = t \<and> snd r \<noteq> None) \<or>
      (\<exists>p ps data. decode_strict write_fields no_write_params (c_Params c) = Some p \<and> list_all good_part ps
         \<and> resolve g t e (wp_Path p) True = Inr (abs_path ps)
         \<and> approved e ps \<and> lookup t ps = None \<and> file_put t ps data u \<and> grows t u
         \<and> (snd r = None \<longrightarrow> StdDecode (wp_DataBase64 p) = Some data
              \<and> (\<forall>env' c'. calm env' \<longrightarrow> decode_strict path_fields [] (c_Params c') = Some (wp_Path p) \<longrightarrow>
                   filesRead g env' u e c' = read_answer data)))"
    using assms(2)
  proof (rule filesWrite_cases)
    fix p data path
    assume p: "decode_strict write_fields no_write_params (c_Params c) = Some p" "StdDecode (wp_DataBase64 p) = Some data"
      "length data \<le> MaxTransfer" "resolve g t e (wp_Path p) True = Inr path" "Lstat t path = Absent"
      "os_WriteFile env t path data = (snd r = None, u)"
    obtain ps x where ps: "path = abs_path (ps @ [x])" "list_all good_part (ps @ [x])" "approved e (ps @ [x])"
        "is_folder (lookup t ps)" "lookup t (ps @ [x]) = None"
      by (rule resolve_free [OF assms(1) p(4,5)])
    have "(u = t \<and> snd r \<noteq> None) \<or> (\<exists>d. file_put t (ps @ [x]) d u \<and> (snd r = None \<longrightarrow> d = data))"
      by (rule os_WriteFile_new [OF assms(1) ps(2,4,5)]) (use p(6) ps(1) in simp)
    then show ?thesis
    proof (elim disjE exE conjE)
      fix d assume d: "file_put t (ps @ [x]) d u" "snd r = None \<longrightarrow> d = data"
      have grows: "grows t u" by (rule file_put_grows [OF d(1) ps(4,5)])
      have "resolve g u e (wp_Path p) False = Inr (abs_path (ps @ [x]))"
        by (rule resolve_again [OF assms(1) _ ps(2,4,5) d(1)]) (use p(4) ps(1) in simp)
      then have "filesRead g env' u e c' = read_answer d"
        if "snd r = None" "calm env'" "decode_strict path_fields [] (c_Params c') = Some (wp_Path p)" for env' c'
        using that d p(3) ps(2) entry_put_parent [OF d(1) ps(4)]
        by (intro filesRead_entry) (auto simp: entry_put_def)
      then show ?thesis
        using p ps d grows
        by (intro disjI2 exI [of _ p] exI [of _ "ps @ [x]"] exI [of _ d]) auto
    qed simp
  qed simp
next
  fix qs content
  assume free: "free_name t e qs" "calm env" "length content \<le> MaxTransfer" "c_Params c = write_request (abs_path qs) content"
  then obtain ps x where x: "qs = ps @ [x]" "list_all good_part (ps @ [x])" "approved e (ps @ [x])" "nul \<notin> set (abs_path (ps @ [x]))"
      "valid_utf8 (abs_path (ps @ [x]))" "is_folder (lookup t ps)" "lookup t (ps @ [x]) = None"
    by (elim free_nameE)
  have "Lstat t (abs_path (ps @ [x])) = Absent" using Lstat_entry [OF x(2,6)] x(7) by simp
  moreover have "fst (os_WriteFile env t (abs_path (ps @ [x])) content)"
    using free(2) open_write_new [OF x(2,6,7)] by (simp add: os_WriteFile_def calm_def)
  ultimately show "snd r = None"
    using assms(2) x free decode_write_request [OF x(5), of content] resolve_new [OF assms(1) x(2,3,4,6)]
    by (auto simp: filesWrite_def calm_def marshal_def std.dec_enc split: prod.splits bool.splits)
qed

definition sample_env :: io_env where
  "sample_env = \<lparr>io_fault = (\<lambda>_. False), io_partial = 0, io_vanished = (\<lambda>_. False), io_dirsize = 4096, io_lower = id\<rparr>"

definition sample_upload :: command where
  "sample_upload = \<lparr>c_ID = ''c1'', c_Name = ''files.write'', c_Deadline = 0,
     c_Params = write_request (abs_path [''shared'', ''b.txt'']) ''data''\<rparr>"

lemma sample_approved: "list_all good_part ps \<Longrightarrow> approved sample_executor (''shared'' # ps)"
  unfolding approved_def
  by (rule exI [of _ "[''shared'']"]) (simp add: sample_executor_def sample_paths(1) sample_parts below_def)

lemma sample_free_name: "free_name sample_tree sample_executor [''shared'', ''b.txt'']"
proof -
  have b: "good_part ''b.txt''" by (simp add: good_part_def)
  then have "approved sample_executor [''shared'', ''b.txt'']" using sample_approved [of "[''b.txt'']"] by simp
  then show ?thesis
    using b sample_parts(1) by (simp add: free_name_def sample_tree_def is_folder_def abs_path_def ascii_valid)
qed

theorem upload_reads_back_witness:
  "snd (fst (filesWrite sample_guest sample_env sample_tree sample_executor sample_upload)) = None
   \<and> (\<exists>ps. file_put sample_tree ps ''data'' (snd (filesWrite sample_guest sample_env sample_tree sample_executor sample_upload)))"
proof -
  obtain r u where ru: "filesWrite sample_guest sample_env sample_tree sample_executor sample_upload = (r, u)"
    by fastforce
  have calm: "calm sample_env" "valid_utf8 (abs_path [''shared'', ''b.txt''])"
    using sample_free_name by (simp_all add: calm_def sample_env_def free_name_def)
  have size: "length ''data'' \<le> MaxTransfer" by (simp add: MaxTransfer_def)
  note up = upload_reads_back [OF sample_guest_ok ru]
  have "c_Params sample_upload = write_request (abs_path [''shared'', ''b.txt'']) ''data''" by (simp add: sample_upload_def)
  then have ok: "snd r = None" using conjunct2 [OF up] sample_free_name calm(1) size by blast
  then show ?thesis
    using up ru decode_write_request [OF calm(2), of "''data''"] by (auto simp: sample_upload_def std.dec_enc)
qed

end
