(* ===== verification/Csv.thy ===== *)
theory Csv imports Go_Text begin

text \<open>
  The reader of \<^verbatim>\<open>encoding/csv\<close> with its defaults: fields separated by commas, lines that may end
  in a carriage return, quoted fields that may hold separators, line ends and doubled quotes;
  empty lines are skipped and every record must have as many fields as the first.
\<close>

abbreviation comma :: char where "comma \<equiv> CHR '',''"
abbreviation dquote :: char where "dquote \<equiv> CHR 0x22"
abbreviation cr_char :: char where "cr_char \<equiv> CHR 0x0D"

text \<open>A carriage return before a line end, or before the end of the text, is dropped.\<close>

fun csv_norm :: "string \<Rightarrow> string" where
  "csv_norm [] = []"
| "csv_norm [c] = (if c = cr_char then [] else [c])"
| "csv_norm (c # d # s) = (if c = cr_char \<and> d = newline then newline # csv_norm s else c # csv_norm (d # s))"

fun csv_quoted :: "string \<Rightarrow> string \<Rightarrow> (string \<times> string) option" where
  "csv_quoted acc [] = None"
| "csv_quoted acc (c # s) =
     (if c \<noteq> dquote then csv_quoted (acc @ [c]) s
      else case s of
        [] \<Rightarrow> Some (acc, [])
      | d # r \<Rightarrow>
          if d = dquote then csv_quoted (acc @ [dquote]) r
          else if d = comma \<or> d = newline then Some (acc, s) else None)"

definition csv_plain :: "char \<Rightarrow> bool" where
  "csv_plain c \<longleftrightarrow> c \<noteq> comma \<and> c \<noteq> newline"

definition csv_field :: "string \<Rightarrow> (string \<times> string) option" where
  "csv_field s =
     (if s \<noteq> [] \<and> hd s = dquote then csv_quoted [] (tl s)
      else let f = takeWhile csv_plain s in if dquote \<in> set f then None else Some (f, dropWhile csv_plain s))"

lemma csv_quoted_shorter: "csv_quoted acc s = Some (f, r) \<Longrightarrow> length r < length s"
  by (induction acc s rule: csv_quoted.induct) (auto split: if_splits list.splits)

lemma csv_field_shorter: "csv_field s = Some (f, r) \<Longrightarrow> length r \<le> length s"
proof -
  assume a: "csv_field s = Some (f, r)"
  have "length (dropWhile csv_plain s) \<le> length s" by (rule length_dropWhile_le)
  then show ?thesis
    using a csv_quoted_shorter [of "[]" "tl s" f r] by (auto simp: csv_field_def Let_def split: if_splits)
qed

text \<open>The fields of one record, and what follows its line.\<close>

function csv_record :: "string list \<Rightarrow> string \<Rightarrow> (string list \<times> string) option" where
  "csv_record acc s =
     (case csv_field s of
        None \<Rightarrow> None
      | Some (f, []) \<Rightarrow> Some (acc @ [f], [])
      | Some (f, c # r) \<Rightarrow> if c = comma then csv_record (acc @ [f]) r else Some (acc @ [f], r))"
  by pat_completeness auto
termination
  by (relation "measure (length \<circ> snd)") (auto dest: csv_field_shorter)

declare csv_record.simps [simp del]

lemma csv_record_shorter: "csv_record acc s = Some (fs, r) \<Longrightarrow> s \<noteq> [] \<Longrightarrow> length r < length s"
proof (induction acc s rule: csv_record.induct)
  case (1 acc s)
  obtain f q where f: "csv_field s = Some (f, q)"
    using "1.prems"(1) by (subst (asm) csv_record.simps) (auto split: option.splits)
  show ?case
  proof (cases q)
    case Nil
    then show ?thesis using 1 f by (subst (asm) csv_record.simps) simp
  next
    case (Cons c p)
    have p: "length p < length s" using csv_field_shorter [OF f] Cons by simp
    show ?thesis
    proof (cases "c = comma")
      case True
      then have "csv_record (acc @ [f]) p = Some (fs, r)" using 1 f Cons by (subst (asm) csv_record.simps) simp
      then show ?thesis
        using "1.IH" [OF f _ Cons] True p
        by (cases "p = []") (auto simp: csv_record.simps [of _ "[]"] csv_field_def)
    next
      case False
      then show ?thesis using 1 f Cons p by (subst (asm) csv_record.simps) simp
    qed
  qed
qed

text \<open>All records; an error anywhere is an error of the whole.\<close>

function csv_records :: "string \<Rightarrow> string list list option" where
  "csv_records s =
     (if s = [] then Some []
      else if hd s = newline then csv_records (tl s)
      else case csv_record [] s of
        None \<Rightarrow> None
      | Some (fs, r) \<Rightarrow> map_option (\<lambda>rs. fs # rs) (csv_records r))"
  by pat_completeness auto
termination
proof (relation "measure length")
  fix s x fs r assume "s \<noteq> []" "csv_record [] s = Some x" "(fs, r) = x"
  then show "(r, s) \<in> measure length" using csv_record_shorter by fastforce
qed auto

declare csv_records.simps [simp del]

definition csv_ReadAll :: "string \<Rightarrow> string list list option" where
  "csv_ReadAll s =
     (case csv_records (csv_norm s) of
        None \<Rightarrow> None
      | Some [] \<Rightarrow> Some []
      | Some (r # rs) \<Rightarrow> if list_all (\<lambda>x. length x = length r) rs then Some (r # rs) else None)"

section \<open>Reading what was written\<close>

text \<open>Every field in quotes, every line ended as on Windows: the output of \<^verbatim>\<open>tasklist\<close>.\<close>

definition csv_quote :: "string \<Rightarrow> string" where
  "csv_quote f = dquote # concat (map (\<lambda>c. if c = dquote then [dquote, dquote] else [c]) f) @ [dquote]"

fun csv_line :: "string list \<Rightarrow> string" where
  "csv_line [] = []"
| "csv_line [f] = csv_quote f"
| "csv_line (f # x # fs) = csv_quote f @ comma # csv_line (x # fs)"

definition csv_text :: "string list list \<Rightarrow> string" where
  "csv_text rs = concat (map (\<lambda>r. csv_line r @ [cr_char, newline]) rs)"

lemma csv_norm_Cons: "c \<noteq> cr_char \<Longrightarrow> csv_norm (c # s) = c # csv_norm s"
  by (cases s) simp_all

lemma csv_norm_append: "cr_char \<notin> set s \<Longrightarrow> csv_norm (s @ t) = s @ csv_norm t"
  by (induction s) (auto simp: csv_norm_Cons)

definition csv_escape :: "string \<Rightarrow> string" where
  "csv_escape f = concat (map (\<lambda>c. if c = dquote then [dquote, dquote] else [c]) f)"

lemma csv_quoted_escape:
  "s = [] \<or> hd s = comma \<or> hd s = newline \<Longrightarrow> csv_quoted acc (csv_escape f @ dquote # s) = Some (acc @ f, s)"
proof (induction f arbitrary: acc)
  case Nil
  then show ?case by (cases s) (auto simp: csv_escape_def)
next
  case (Cons c f)
  show ?case using Cons.IH [OF Cons.prems, of "acc @ [c]"] by (cases "c = dquote") (simp_all add: csv_escape_def)
qed

lemma csv_field_quote:
  "s = [] \<or> hd s = comma \<or> hd s = newline \<Longrightarrow> csv_field (csv_quote f @ s) = Some (f, s)"
  using csv_quoted_escape [of s "[]" f] by (simp add: csv_field_def csv_quote_def csv_escape_def)

lemma csv_record_line: "fs \<noteq> [] \<Longrightarrow> csv_record acc (csv_line fs @ newline # s) = Some (acc @ fs, s)"
proof (induction fs arbitrary: acc rule: csv_line.induct)
  case (2 f)
  then show ?case using csv_field_quote [of "newline # s" f] by (subst csv_record.simps) simp
next
  case (3 f x fs)
  then show ?case
    using csv_field_quote [of "comma # csv_line (x # fs) @ newline # s" f] by (subst csv_record.simps) simp
qed simp

lemma csv_line_start: "fs \<noteq> [] \<Longrightarrow> \<exists>t. csv_line fs = dquote # t"
  by (cases fs rule: csv_line.cases) (simp_all add: csv_quote_def)

lemma csv_records_lines:
  "list_all (\<lambda>fs. fs \<noteq> []) rs \<Longrightarrow> csv_records (concat (map (\<lambda>r. csv_line r @ [newline]) rs)) = Some rs"
proof (induction rs)
  case Nil
  then show ?case by (subst csv_records.simps) simp
next
  case (Cons fs rs)
  then obtain t where "csv_line fs = dquote # t" using csv_line_start by auto
  then show ?case
    using Cons csv_record_line [of fs "[]"] by (subst csv_records.simps) simp
qed

lemma csv_line_cr: "list_all (\<lambda>f. cr_char \<notin> set f) fs \<Longrightarrow> cr_char \<notin> set (csv_line fs)"
  by (induction fs rule: csv_line.induct) (auto simp: csv_quote_def split: if_splits)

lemma csv_norm_text:
  "list_all (list_all (\<lambda>f. cr_char \<notin> set f)) rs \<Longrightarrow>
   csv_norm (csv_text rs) = concat (map (\<lambda>r. csv_line r @ [newline]) rs)"
  by (induction rs) (simp_all add: csv_text_def csv_norm_append csv_line_cr)

theorem csv_ReadAll_text:
  assumes "list_all (\<lambda>r. length r = n) rs" and "0 < n" and "list_all (list_all (\<lambda>f. cr_char \<notin> set f)) rs"
  shows "csv_ReadAll (csv_text rs) = Some rs"
proof -
  have "list_all (\<lambda>fs. fs \<noteq> []) rs" using assms(1,2) by (auto simp: list_all_iff)
  then show ?thesis
    using assms(1) csv_records_lines [of rs] csv_norm_text [OF assms(3)]
    by (auto simp: csv_ReadAll_def list_all_iff split: list.splits)
qed

end
