(* ===== verification/Executor_Inventory.thy ===== *)
theory Executor_Inventory imports Executor_Files Csv begin

text \<open>
  The inventory commands of \<^verbatim>\<open>internal/executor/executor.go\<close>: processes and services, read from
  the output of the system's own tools, filtered, sorted and answered page by page.
\<close>

section \<open>Options\<close>

record list_options =
  lo_Offset :: int
  lo_Limit :: int
  lo_Filter :: string

definition option_fields :: "list_options field list" where
  "option_fields =
     [(''offset'', set_int (\<lambda>i. lo_Offset_update (\<lambda>_. i))), (''limit'', set_int (\<lambda>i. lo_Limit_update (\<lambda>_. i))),
      (''filter'', set_string (\<lambda>s. lo_Filter_update (\<lambda>_. s)))]"

definition no_options :: list_options where
  "no_options = \<lparr>lo_Offset = 0, lo_Limit = 0, lo_Filter = []\<rparr>"

definition decodeListOptions :: "string \<Rightarrow> list_options option" where
  "decodeListOptions raw =
     (let raw = (if length raw = 0 then ''{}'' else raw)
      in case decode_strict option_fields no_options raw of
        None \<Rightarrow> None
      | Some options \<Rightarrow>
          if lo_Offset options < 0 \<or> lo_Limit options < 0 \<or> 500 < lo_Limit options
             \<or> 256 < length (lo_Filter options) \<or> nul \<in> set (lo_Filter options) then None
          else Some (if lo_Limit options = 0 then options\<lparr>lo_Limit := 100\<rparr> else options))"

section \<open>Processes\<close>

record process_item =
  pi_Name :: string
  pi_PID :: int
  pi_Session :: string
  pi_Memory :: string

definition process_json :: "process_item \<Rightarrow> json" where
  "process_json x =
     JObject ([(''name'', JString (pi_Name x)), (''pid'', JNumber (Itoa (pi_PID x)))]
       @ (if pi_Session x = [] then [] else [(''session'', JString (pi_Session x))])
       @ (if pi_Memory x = [] then [] else [(''memory'', JString (pi_Memory x))]))"

definition process_record :: "string list \<Rightarrow> process_item list" where
  "process_record r =
     (if length r < 2 then []
      else case Atoi (r ! 1) of
        None \<Rightarrow> []
      | Some pid \<Rightarrow>
          [\<lparr>pi_Name = r ! 0, pi_PID = pid, pi_Session = (if 2 < length r then r ! 2 else []),
            pi_Memory = (if 4 < length r then r ! 4 else [])\<rparr>])"

definition process_line :: "string \<Rightarrow> process_item list" where
  "process_line line =
     (let fields = Fields line
      in if length fields < 2 then []
         else case Atoi (fields ! 0) of
           None \<Rightarrow> []
         | Some pid \<Rightarrow> [\<lparr>pi_Name = join_with '' '' (drop 1 fields), pi_PID = pid, pi_Session = [], pi_Memory = []\<rparr>])"

definition parseProcessInventory :: "guest \<Rightarrow> string \<Rightarrow> process_item list option" where
  "parseProcessInventory g raw =
     (if g_goos g = ''windows'' then map_option (\<lambda>records. concat (map process_record records)) (csv_ReadAll raw)
      else Some (concat (map process_line (split_on newline raw))))"

definition process_search :: "process_item \<Rightarrow> string" where
  "process_search x = pi_Name x @ '' '' @ Itoa (pi_PID x) @ '' '' @ pi_Session x"

section \<open>Services\<close>

record service_item =
  si_Name :: string
  si_DisplayName :: string
  si_Status :: string
  si_StartType :: string

definition service_json :: "service_item \<Rightarrow> json" where
  "service_json x =
     JObject ([(''name'', JString (si_Name x))]
       @ (if si_DisplayName x = [] then [] else [(''displayName'', JString (si_DisplayName x))])
       @ (if si_Status x = [] then [] else [(''status'', JString (si_Status x))])
       @ (if si_StartType x = [] then [] else [(''startType'', JString (si_StartType x))]))"

definition service_fields :: "service_item field list" where
  "service_fields =
     [(''name'', set_string (\<lambda>s. si_Name_update (\<lambda>_. s))),
      (''displayName'', set_string (\<lambda>s. si_DisplayName_update (\<lambda>_. s))),
      (''status'', set_string (\<lambda>s. si_Status_update (\<lambda>_. s))),
      (''startType'', set_string (\<lambda>s. si_StartType_update (\<lambda>_. s)))]"

definition no_service :: service_item where
  "no_service = \<lparr>si_Name = [], si_DisplayName = [], si_Status = [], si_StartType = []\<rparr>"

fun all_Some :: "'a option list \<Rightarrow> 'a list option" where
  "all_Some [] = Some []"
| "all_Some (None # xs) = None"
| "all_Some (Some x # xs) = map_option (\<lambda>xs. x # xs) (all_Some xs)"

text \<open>\<^verbatim>\<open>json.Unmarshal\<close> into a slice of structs.\<close>

fun set_slice :: "'r field list \<Rightarrow> 'r \<Rightarrow> json \<Rightarrow> 'r list option" where
  "set_slice fs r (JArray vs) = all_Some (map (\<lambda>v. set_struct False fs v r) vs)"
| "set_slice fs r JNull = Some []"
| "set_slice fs r v = None"

definition service_line :: "bool \<Rightarrow> string \<Rightarrow> service_item list" where
  "service_line darwin line =
     (let fields = Fields line
      in if fields = [] then []
         else if darwin then
           [no_service\<lparr>si_Name := fields ! 0,
              si_DisplayName := (if 2 < length fields then join_with '' '' (drop 2 fields) else [])\<rparr>]
         else
           [no_service\<lparr>si_Name := fields ! 0, si_Status := (if 2 < length fields then fields ! 2 else []),
              si_DisplayName := (if 4 < length fields then join_with '' '' (drop 4 fields) else [])\<rparr>])"

definition parseServiceInventory :: "guest \<Rightarrow> string \<Rightarrow> service_item list option" where
  "parseServiceInventory g raw =
     (if g_goos g = ''windows'' then Option.bind (parse_json raw) (set_slice service_fields no_service)
      else Some (concat (map (service_line (g_goos g = ''darwin'')) (split_on newline raw))))"

definition service_search :: "service_item \<Rightarrow> string" where
  "service_search x = si_Name x @ '' '' @ si_DisplayName x @ '' '' @ si_Status x @ '' '' @ si_StartType x"

section \<open>Pages\<close>

text \<open>What a request with a filter selects, in the order it is answered.\<close>

definition matching :: "(rune \<Rightarrow> rune) \<Rightarrow> ('a \<Rightarrow> string) \<Rightarrow> string \<Rightarrow> 'a list \<Rightarrow> 'a list" where
  "matching low searchable flt items =
     (let needle = ToLower low flt;
          filtered = filter (\<lambda>x. needle = [] \<or> Contains (ToLower low (searchable x)) needle) items
      in sort_key (\<lambda>x. ToLower low (searchable x)) filtered)"

definition marshalPage :: "(rune \<Rightarrow> rune) \<Rightarrow> ('a \<Rightarrow> json) \<Rightarrow> 'a list \<Rightarrow> list_options \<Rightarrow> ('a \<Rightarrow> string) \<Rightarrow> reply" where
  "marshalPage low enc items options searchable =
     (let filtered = matching low searchable (lo_Filter options) items;
          total = int (length filtered);
          start = min (lo_Offset options) total;
          fin = min (start + lo_Limit options) total
      in marshal (JObject
           [(''hasMore'', JBool (fin < total)),
            (''items'', JArray (map enc (drop (nat start) (take (nat fin) filtered)))),
            (''limit'', JNumber (Itoa (lo_Limit options))), (''offset'', JNumber (Itoa start)),
            (''summary'', JObject [(''matched'', JNumber (Itoa total)), (''returned'', JNumber (Itoa (fin - start)))]),
            (''total'', JNumber (Itoa total))]))"

text \<open>The tools are run for at most the time the command has left; cut-off output is refused.\<close>

definition collected :: "guest \<Rightarrow> executor \<Rightarrow> command \<Rightarrow> string list \<Rightarrow> string \<Rightarrow> string + string" where
  "collected g e c argv excess =
     (let r = g_run g (prepare e argv) (timeout (g_now g) c);
          (raw, count) = capped_snapshot (capped_writes (rr_writes r) empty_capped)
      in case rr_err r of
        Some err \<Rightarrow> Inl (error_text err)
      | None \<Rightarrow> if int MaxOutput \<le> count then Inl excess else Inr raw)"

definition processList :: "(rune \<Rightarrow> rune) \<Rightarrow> guest \<Rightarrow> executor \<Rightarrow> command \<Rightarrow> reply" where
  "processList low g e c =
     (case decodeListOptions (c_Params c) of
        None \<Rightarrow> failure ''invalid inventory list request''
      | Some options \<Rightarrow>
          let argv = (if g_goos g = ''windows'' then [''tasklist.exe'', ''/FO'', ''CSV'', ''/NH'']
                      else [''ps'', ''-eo'', ''pid=,comm=''])
          in (case collected g e c argv ''process inventory exceeded safe collection limit'' of
                Inl m \<Rightarrow> failure m
              | Inr raw \<Rightarrow>
                  (case parseProcessInventory g raw of
                     None \<Rightarrow> failure ''parse process inventory''
                   | Some items \<Rightarrow> marshalPage low process_json items options process_search)))"

definition service_script :: string where
  "service_script =
     ''@(Get-Service | ForEach-Object { [pscustomobject]@'' @ ''{name=$_.Name;displayName=$_.DisplayName;''
     @ ''status=$_.Status.ToString();startType=$_.StartType.ToString()} }) | ConvertTo-Json -Compress''"

definition serviceList :: "(rune \<Rightarrow> rune) \<Rightarrow> guest \<Rightarrow> executor \<Rightarrow> command \<Rightarrow> reply" where
  "serviceList low g e c =
     (case decodeListOptions (c_Params c) of
        None \<Rightarrow> failure ''invalid inventory list request''
      | Some options \<Rightarrow>
          let argv = (if g_goos g = ''windows'' then
                        [''powershell.exe'', ''-NoProfile'', ''-NonInteractive'', ''-Command'', service_script]
                      else if g_goos g = ''darwin'' then [''launchctl'', ''list'']
                      else [''systemctl'', ''list-units'', ''--type=service'', ''--all'', ''--no-pager'',
                            ''--no-legend'', ''--plain''])
          in (case collected g e c argv ''service inventory exceeded safe collection limit'' of
                Inl m \<Rightarrow> failure m
              | Inr raw \<Rightarrow>
                  (case parseServiceInventory g raw of
                     None \<Rightarrow> failure ''parse service inventory''
                   | Some items \<Rightarrow> marshalPage low service_json items options service_search)))"

section \<open>Inventories are read as they were printed\<close>

text \<open>One line of \<^verbatim>\<open>ps\<close>: the pid, right-aligned, and the command.  One record of \<^verbatim>\<open>tasklist\<close>.\<close>

definition ps_line :: "nat \<Rightarrow> process_item \<Rightarrow> string" where
  "ps_line pad x = replicate pad (CHR '' '') @ Itoa (pi_PID x) @ '' '' @ pi_Name x"

definition tasklist_row :: "string \<Rightarrow> process_item \<Rightarrow> string list" where
  "tasklist_row num x = [pi_Name x, Itoa (pi_PID x), pi_Session x, num, pi_Memory x]"

definition plain_word :: "string \<Rightarrow> bool" where
  "plain_word w \<longleftrightarrow> ascii w \<and> list_all (\<lambda>c. \<not> IsSpace (of_char c)) w"

lemma fields_of_word: "plain_word w \<Longrightarrow> fields_of acc (runes (w @ s)) = fields_of (acc @ w) (runes s)"
  by (induction w arbitrary: acc) (simp_all add: plain_word_def runes_ascii)

lemma Fields_space: "Fields (CHR '' '' # s) = Fields s"
  by (simp add: Fields_def runes_ascii IsSpace_def)

lemma Fields_word_space: "plain_word w \<Longrightarrow> w \<noteq> [] \<Longrightarrow> Fields (w @ CHR '' '' # s) = w # Fields s"
  using fields_of_word [of w "[]"] by (simp add: Fields_def runes_ascii IsSpace_def)

lemma Fields_pad: "Fields (replicate n (CHR '' '') @ s) = Fields s"
  by (induction n) (simp_all add: Fields_space)

lemma plain_Itoa: "plain_word (Itoa i)" "Itoa i \<noteq> []"
proof -
  have "plain_word (nat_decimal n)" for n
    using nat_decimal_digits [of n]
    by (auto simp: plain_word_def ascii_def list_all_iff is_digit_def IsSpace_def byte_in_def)
  then show "plain_word (Itoa i)"
    by (auto simp: Itoa_def plain_word_def IsSpace_def byte_in_def)
  show "Itoa i \<noteq> []" by (simp add: Itoa_def)
qed

text \<open>A command that \<^verbatim>\<open>ps\<close> prints on its line: some words with single spaces between them.\<close>

definition ps_name :: "string \<Rightarrow> bool" where
  "ps_name name \<longleftrightarrow> Fields name \<noteq> [] \<and> join_with '' '' (Fields name) = name \<and> newline \<notin> set name"

lemma process_line_ps:
  assumes "in_int64 (pi_PID x)" and "ps_name (pi_Name x)" and "pi_Session x = []" and "pi_Memory x = []"
  shows "process_line (ps_line pad x) = [x]"
proof -
  have "Fields (ps_line pad x) = Itoa (pi_PID x) # Fields (pi_Name x)"
    using Fields_word_space [OF plain_Itoa(1,2), of "pi_PID x" "pi_Name x"] by (simp add: ps_line_def Fields_pad)
  then show ?thesis
    using assms Atoi_Itoa [OF assms(1)] by (cases "Fields (pi_Name x)") (simp_all add: process_line_def ps_name_def Suc_le_eq)
qed

lemma ps_line_newline: "ps_name (pi_Name x) \<Longrightarrow> newline \<notin> set (ps_line pad x)"
  using Itoa_no_newline by (auto simp: ps_line_def ps_name_def)

lemma split_on_lines:
  "(\<And>l. l \<in> set ls \<Longrightarrow> d \<notin> set l) \<Longrightarrow> split_on d (concat (map (\<lambda>l. l @ [d]) ls)) = ls @ [[]]"
  by (induction ls) (simp_all add: split_on_append_free)

lemma process_record_row: "in_int64 (pi_PID x) \<Longrightarrow> process_record (tasklist_row num x) = [x]"
  by (simp add: process_record_def tasklist_row_def Atoi_Itoa)

text \<open>The process inventory is exact.  On Unix the output of \<^verbatim>\<open>ps\<close>, one line for each process
  with its number and its command in any alignment, is read as exactly these processes, in order.
  On Windows so are the records of \<^verbatim>\<open>tasklist\<close>, also when names hold quotes, commas or line ends.\<close>

theorem process_inventory_exact:
  assumes "\<forall>x\<in>set xs. in_int64 (pi_PID x)"
  shows "(g_goos g \<noteq> ''windows'' \<and> (\<forall>x\<in>set xs. ps_name (pi_Name x) \<and> pi_Session x = [] \<and> pi_Memory x = []) \<longrightarrow>
      parseProcessInventory g (concat (map (\<lambda>x. ps_line (pad x) x @ [newline]) xs)) = Some xs)
    \<and> (g_goos g = ''windows'' \<and> (\<forall>x\<in>set xs. \<forall>f\<in>set (tasklist_row num x). cr_char \<notin> set f) \<longrightarrow>
      parseProcessInventory g (csv_text (map (tasklist_row num) xs)) = Some xs)"
proof (intro conjI impI)
  assume unix: "g_goos g \<noteq> ''windows'' \<and> (\<forall>x\<in>set xs. ps_name (pi_Name x) \<and> pi_Session x = [] \<and> pi_Memory x = [])"
  have "split_on newline (concat (map (\<lambda>l. l @ [newline]) (map (\<lambda>x. ps_line (pad x) x) xs)))
      = map (\<lambda>x. ps_line (pad x) x) xs @ [[]]"
    by (rule split_on_lines) (use unix ps_line_newline in auto)
  moreover have "concat (map (\<lambda>x. process_line (ps_line (pad x) x)) ys) = ys" if "set ys \<subseteq> set xs" for ys
    using that by (induction ys) (use assms unix process_line_ps in auto)
  moreover have "process_line [] = []" by (simp add: process_line_def Fields_def)
  ultimately show "parseProcessInventory g (concat (map (\<lambda>x. ps_line (pad x) x @ [newline]) xs)) = Some xs"
    using unix by (simp add: parseProcessInventory_def comp_def)
next
  assume windows: "g_goos g = ''windows'' \<and> (\<forall>x\<in>set xs. \<forall>f\<in>set (tasklist_row num x). cr_char \<notin> set f)"
  have "csv_ReadAll (csv_text (map (tasklist_row num) xs)) = Some (map (tasklist_row num) xs)"
    by (rule csv_ReadAll_text [of 5]) (use windows in \<open>auto simp: list_all_iff, simp add: tasklist_row_def\<close>)
  moreover have "concat (map (\<lambda>x. process_record (tasklist_row num x)) ys) = ys" if "set ys \<subseteq> set xs" for ys
    using that by (induction ys) (use assms process_record_row in auto)
  ultimately show "parseProcessInventory g (csv_text (map (tasklist_row num) xs)) = Some xs"
    using windows by (simp add: parseProcessInventory_def comp_def)
qed

definition sample_process :: process_item where
  "sample_process = \<lparr>pi_Name = ''my tool'', pi_PID = 42, pi_Session = [], pi_Memory = []\<rparr>"

theorem process_inventory_exact_witness:
  "parseProcessInventory sample_guest (concat (map (\<lambda>x. ps_line 4 x @ [newline]) [sample_process])) = Some [sample_process]"
proof -
  have "Fields ''my tool'' = [''my'', ''tool'']"
    using Fields_word_space [of "''my''" "''tool''"] fields_of_word [of "''tool''" "[]" "[]"]
    by (simp add: plain_word_def IsSpace_def byte_in_def Fields_def)
  then have "ps_name (pi_Name sample_process)" by (simp add: sample_process_def ps_name_def)
  moreover have "\<forall>x\<in>set [sample_process]. in_int64 (pi_PID x)" by (simp add: sample_process_def in_int64_def)
  ultimately show ?thesis
    using conjunct1 [OF process_inventory_exact [of "[sample_process]" sample_guest "\<lambda>x. 4"]]
    by (simp add: sample_guest_def sample_process_def)
qed

end
