(* ===== verification/Executor_Transfers.thy ===== *)
theory Executor_Transfers imports Executor_Files begin

text \<open>
  What chunked transfers do to the tree: every \<^verbatim>\<open>files.write-chunk\<close> touches the target and
  the file beside it that collects the chunks, the target only appears whole and with the
  expected checksum, and a file sent in chunks arrives.  Two ways past the approved directories
  are shown as well.
\<close>

section \<open>The part file\<close>

fun part_pos :: "string list \<Rightarrow> string list" where
  "part_pos [] = [part_suffix]"
| "part_pos [c] = [c @ part_suffix]"
| "part_pos (c # d # cs) = c # part_pos (d # cs)"

lemma part_pos_snoc [simp]: "part_pos (ps @ [c]) = ps @ [c @ part_suffix]"
  by (induction ps rule: part_pos.induct) simp_all

lemma part_pos_cases:
  obtains "ps = []" and "part_pos ps = [part_suffix]"
  | qs c where "ps = qs @ [c]" and "part_pos ps = qs @ [c @ part_suffix]"
  by (cases ps rule: rev_cases) auto

lemma join_with_snoc: "join_with sep (ps @ [c @ s]) = join_with sep (ps @ [c]) @ s"
  by (induction sep ps rule: join_with.induct) simp_all

lemma part_path: "abs_path ps @ part_suffix = abs_path (part_pos ps)"
  by (cases rule: part_pos_cases [of ps]) (simp_all add: abs_path_def join_with_snoc)

lemma good_part_suffix: "good_part c \<Longrightarrow> good_part (c @ part_suffix)" "good_part part_suffix"
  by (auto simp: good_part_def part_suffix_def)

lemma good_part_pos: "list_all good_part ps \<Longrightarrow> list_all good_part (part_pos ps)"
  using good_part_suffix by (cases rule: part_pos_cases [of ps]) auto

lemma part_pos_other:
  assumes "ps \<noteq> []"
  shows "\<not> below ps (part_pos ps)" and "\<not> below (part_pos ps) ps"
  using assms by (cases ps rule: rev_cases; simp add: below_iff part_suffix_def)+

text \<open>A walk along real directories takes no links.\<close>

lemma walk_along:
  assumes "list_all good_part cs" and "is_folder (lookup t (pos @ cs))"
  shows "walk t create links pos (cs @ ds) = walk t create links (pos @ cs) ds"
  using assms
proof (induction cs arbitrary: pos)
  case (Cons c cs)
  have "is_folder (lookup t (pos @ [c]))"
    using folder_prefix [OF Cons.prems(2), of "length (pos @ [c])"] by simp
  then obtain es where "lookup t (pos @ [c]) = Some (Folder es)" by (auto simp: is_folder_iff)
  moreover have "\<not> (c = [] \<or> c = dot)" "c \<noteq> dotdot" using Cons.prems(1) by (auto simp: good_part_def)
  ultimately show ?case using Cons.IH [of "pos @ [c]"] Cons.prems by simp
qed simp

text \<open>Nothing is opened below a regular file.\<close>

lemma walk_file:
  assumes "list_all good_part (ps @ [c])" and "ps \<noteq> []" and "is_folder (lookup t (butlast ps))"
    and "lookup t ps = Some (File s)"
  shows "walk t create links [] (ps @ [c]) = None"
proof -
  obtain qs d where ps: "ps = qs @ [d]" using assms(2) by (cases ps rule: rev_cases) auto
  have "walk t create links [] (qs @ [d, c]) = walk t create links qs [d, c]"
    using walk_along [of qs t "[]"] assms(1,3) ps by simp
  then show ?thesis using assms(1,4) ps by (simp add: good_part_def)
qed

text \<open>What opening the part file gives, when it is no link.\<close>

lemma open_part:
  assumes "guest_ok g t e" and "resolve g t e path True = Inr (abs_path ps)" and "list_all good_part ps"
    and "\<not> is_link (lookup t (part_pos ps))" and "open_write t trunc (abs_path ps @ part_suffix) = Some (q, u)"
  shows "q = part_pos ps \<and> is_folder (lookup t (butlast (part_pos ps)))
    \<and> (\<exists>s. entry_put t q (Some (File s)) u \<and> (trunc \<longrightarrow> s = [])
         \<and> (\<not> trunc \<longrightarrow> (lookup t q = Some (File s) \<or> (lookup t q = None \<and> s = []))))"
proof -
  obtain rs where rs: "abs_path ps = abs_path rs" "list_all good_part rs"
      "rs = [] \<or> (lookup t (butlast rs) \<noteq> None \<and> \<not> is_link (lookup t (butlast rs)))"
      "butlast rs = [] \<or> is_folder (lookup t (butlast (butlast rs)))"
    by (rule resolve_write [OF assms(1,2)])
  then have eq: "rs = ps" using abs_path_eq_iff assms(3) by blast
  have tree: "tree_ok t" "is_folder (Some t)" using assms(1) by (simp_all add: guest_ok_def)
  obtain qs c where pos: "part_pos ps = qs @ [c]" "butlast ps = qs"
    by (cases rule: part_pos_cases [of ps]) auto
  have good: "list_all good_part (qs @ [c])" using good_part_pos [OF assms(3)] pos by simp
  have folder: "is_folder (lookup t qs)"
  proof (cases "qs = []")
    case False
    then have "lookup t qs \<noteq> None" "\<not> is_link (lookup t qs)" "is_folder (lookup t (butlast qs))"
      using rs eq pos by auto
    moreover have "lookup t qs \<noteq> Some (File s)" for s
      using walk_file [OF good False calculation(3), of s True 40] assms(5) good
      by (auto simp: open_write_def part_path pos path_walk_abs)
    ultimately show ?thesis by (auto simp: is_folder_def is_link_def split: option.splits node.splits)
  qed (use tree in simp)
  have link: "\<not> is_link (lookup t (qs @ [c]))" using assms(4) pos by simp
  have opened: "open_write t trunc (abs_path (qs @ [c])) = Some (q, u)" using assms(5) by (simp add: part_path pos)
  show ?thesis
  proof (cases "lookup t (qs @ [c])")
    case None
    then have "q = qs @ [c]" "u = put_node (qs @ [c]) (Some (File [])) t"
      using opened open_write_new [OF good folder None, of trunc] by auto
    then show ?thesis using file_put_node [OF tree(1) folder, of c "[]"] None folder pos by auto
  next
    case (Some n)
    show ?thesis
    proof (cases n)
      case (File s)
      then have u: "q = qs @ [c]" "u = (if trunc then put_node (qs @ [c]) (Some (File [])) t else t)"
        using opened open_write_entry [OF good folder, of s trunc] Some by simp_all
      have "entry_put t (qs @ [c]) (Some (File s)) t"
        using Some File tree by (simp add: entry_put_def)
      then show ?thesis using u file_put_node [OF tree(1) folder, of c "[]"] Some File folder pos by auto
    next
      case (Folder es)
      have "path_walk t True 40 (abs_path (qs @ [c])) = Some (qs @ [c])"
        using walk_entry [OF good folder link, of True 40] by simp
      then show ?thesis using opened Some Folder by (simp add: open_write_def)
    qed (use link Some in \<open>simp add: is_link_def\<close>)
  qed
qed

section \<open>One chunk\<close>

lemma write_at_end: "length content = n \<Longrightarrow> write_at n d content = content @ d"
  by (simp add: write_at_def)

text \<open>
  The outcomes of storing a chunk: nothing was opened; the part file was opened but nothing
  written; the chunk, or a piece of it, was appended; or the part file was also published.
\<close>

lemma store_chunk_cases:
  assumes "store_chunk cr env t p data target = (r, u)"
  obtains "u = t" and "snd r \<noteq> None"
  | q v where "open_write t (cp_Offset p = 0) (target @ part_suffix) = Some (q, v)" and "u = v" and "snd r \<noteq> None"
  | q v content d where "open_write t (cp_Offset p = 0) (target @ part_suffix) = Some (q, v)"
      and "lookup v q = Some (File content)" and "int (length content) = cp_Offset p"
      and "u = put_node q (Some (File (content @ d))) v" and "snd r \<noteq> None \<or> \<not> cp_Final p"
  | q v content where "open_write t (cp_Offset p = 0) (target @ part_suffix) = Some (q, v)"
      and "lookup v q = Some (File content)" and "int (length content) = cp_Offset p" and "cp_Final p"
      and "publish_part cr env (put_node q (Some (File (content @ data))) v) target (target @ part_suffix)
             (cp_ExpectedSHA256 p) (length data) = (r, u)"
proof (cases "io_fault env Do_open \<or> open_write t (cp_Offset p = 0) (target @ part_suffix) = None")
  case True
  then have "u = t \<and> snd r \<noteq> None" using assms by (auto simp: store_chunk_def failure_def split: if_splits)
  then show thesis using that(1) by blast
next
  case False
  then obtain q v where qv: "open_write t (cp_Offset p = 0) (target @ part_suffix) = Some (q, v)" by auto
  show thesis
  proof (cases "\<exists>content. lookup v q = Some (File content) \<and> int (length content) = cp_Offset p \<and> \<not> io_fault env Do_stat
      \<and> \<not> io_fault env Do_seek")
    case True
    then obtain content where content: "lookup v q = Some (File content)" "int (length content) = cp_Offset p"
        "\<not> io_fault env Do_stat" "\<not> io_fault env Do_seek" by blast
    then have n: "nat (cp_Offset p) = length content" by simp
    let ?w = "put_node q (Some (File (content @ data))) v"
    consider "io_fault env Do_write" | "\<not> io_fault env Do_write" "io_fault env Do_close \<or> \<not> cp_Final p"
      | "\<not> io_fault env Do_write" "\<not> io_fault env Do_close" "cp_Final p" by blast
    then show thesis
    proof cases
      case 1
      then have "u = put_node q (Some (File (content @ take (io_partial env) data))) v" "snd r \<noteq> None"
        using assms False qv content n by (auto simp: store_chunk_def failure_def write_at_end Let_def)
      then show thesis using that(3) [OF qv content(1,2)] by blast
    next
      case 2
      then have "u = ?w" "snd r \<noteq> None \<or> \<not> cp_Final p"
        using assms False qv content n by (auto simp: store_chunk_def failure_def write_at_end Let_def split: if_splits)
      then show thesis using that(3) [OF qv content(1,2)] by blast
    next
      case 3
      then have "publish_part cr env ?w target (target @ part_suffix) (cp_ExpectedSHA256 p) (length data) = (r, u)"
        using assms False qv content n by (simp add: store_chunk_def write_at_end Let_def)
      then show thesis using that(4) [OF qv content(1,2)] 3 by blast
    qed
  next
    case no: False
    then have "u = v \<and> snd r \<noteq> None"
      using assms False qv
      by (auto simp: store_chunk_def failure_def Let_def split: option.splits node.splits if_splits)
    then show thesis using that(2) [OF qv] by blast
  qed
qed

lemma filesWriteChunk_cases:
  assumes "filesWriteChunk cr g env t e c = (r, u)"
  obtains "u = t" and "snd r \<noteq> None"
  | p data target where "decode_strict write_chunk_fields no_chunk_params (c_Params c) = Some p"
      and "StdDecode (cp_DataBase64 p) = Some data" and "resolve g t e (cp_Path p) True = Inr target"
      and "store_chunk cr env t p data target = (r, u)"
proof (cases "chunk_admit g t e c")
  case (Inl m)
  then have "u = t \<and> snd r \<noteq> None" using assms by (auto simp: filesWriteChunk_def failure_def)
  then show thesis using that(1) by blast
next
  case (Inr x)
  then obtain p data target where x: "chunk_admit g t e c = Inr (p, data, target)" by (cases x) auto
  then show thesis
    using assms that(2) [of p data target]
    by (auto simp: filesWriteChunk_def chunk_admit_def split: option.splits if_splits sum.splits)
qed

text \<open>The outcomes of publishing: an error; a wrong checksum; or the file at its target.\<close>

lemma publish_part_cases:
  assumes "guest_ok g w e" and "list_all good_part ps" and "is_folder (lookup w (butlast (part_pos ps)))"
    and "lookup w (part_pos ps) = Some (File content)"
    and "publish_part cr env w (abs_path ps) (abs_path ps @ part_suffix) expected n = (r, u)"
  obtains "u = w" and "snd r \<noteq> None"
  | "entry_put w (part_pos ps) None u" and "snd r \<noteq> None" and "\<not> EqualFold (hex_encode (sha256 cr content)) expected"
  | v where "expected \<noteq> []" and "EqualFold (hex_encode (sha256 cr content)) expected" and "ps \<noteq> []" and "lookup w ps = None"
      and "entry_put w (part_pos ps) None v" and "file_put v ps content u"
      and "r = marshal (JObject [(''final'', JBool True), (''sha256'', JString (hex_encode (sha256 cr content))),
                 (''size'', JNumber (Itoa (int (length content)))), (''written'', JNumber (Itoa (int n)))])"
proof -
  obtain qs c where pos: "part_pos ps = qs @ [c]" "butlast (part_pos ps) = qs"
    by (cases rule: part_pos_cases [of ps]) auto
  have good: "list_all good_part (qs @ [c])" using good_part_pos [OF assms(2)] pos by simp
  have tree: "tree_ok w" "is_folder (Some w)" "is_folder (lookup w qs)" using assms(1,3) pos by (simp_all add: guest_ok_def)
  let ?part = "abs_path (qs @ [c])" and ?v = "put_node (qs @ [c]) None w"
  have part: "abs_path ps @ part_suffix = ?part" by (simp add: part_path pos)
  have read: "open_read w ?part = Some (File content)"
    using open_read_entry [OF good tree(3)] assms(4) pos by simp
  have place: "entry_pos w ?part = Some (qs @ [c])" by (rule entry_pos_abs [OF good tree(3)])
  have gone: "entry_put w (qs @ [c]) None ?v" by (rule entry_put_node [OF tree(1,3)]) simp
  let ?actual = "hex_encode (sha256 cr content)"
  consider "u = w" "snd r \<noteq> None" | "\<not> EqualFold ?actual expected" "u = ?v" "snd r \<noteq> None"
    | "expected \<noteq> []" "EqualFold ?actual expected" "Lstat w (abs_path ps) = Absent"
        "rename_entry w ?part (abs_path ps) = Some u"
        "r = marshal (JObject [(''final'', JBool True), (''sha256'', JString ?actual),
           (''size'', JNumber (Itoa (int (length content)))), (''written'', JNumber (Itoa (int n)))])"
    using assms(5) read place
    by (auto simp: publish_part_def part failure_def remove_entry_def Let_def split: if_splits stat_result.splits option.splits)
  then show thesis
  proof cases
    case 1
    then show thesis using that(1) by simp
  next
    case 2
    then show thesis using that(2) gone pos by simp
  next
    case 3
    show thesis
    proof (cases rule: part_pos_cases [of ps])
      case 1
      then have "Lstat w (abs_path ps) = Found w"
        by (simp add: Lstat_def entry_pos_def abs_path_def parts_def)
      then show thesis using 3(3) by simp
    next
      case (2 rs d)
      then have rs: "rs = qs" "list_all good_part (qs @ [d])" using pos assms(2) by auto
      then have "entry_pos w (abs_path ps) = Some (qs @ [d])" using 2 entry_pos_abs [OF rs(2) tree(3)] by simp
      moreover have "lookup w (qs @ [d]) = None"
        using Lstat_entry [OF rs(2) tree(3)] 3(3) 2(1) rs(1) by (simp split: option.splits)
      moreover have "u = put_node (qs @ [d]) (Some (File content)) ?v"
        using 3(4) calculation(1) place assms(4) pos by (simp add: rename_entry_def)
      moreover have "tree_ok ?v" "is_folder (lookup ?v qs)"
        using gone entry_put_parent [OF gone tree(3)] by (simp_all add: entry_put_def)
      ultimately show thesis
        using that(3) [of ?v] 3 gone pos 2(1) rs(1) file_put_node by auto
    qed
  qed
qed

lemma guest_ok_entry_put:
  assumes "guest_ok g t e" and "entry_put t (ps @ [c]) new u"
  shows "guest_ok g u e"
proof -
  have "is_folder (lookup t [])" using assms(1) by (simp add: guest_ok_def)
  moreover have "below [] (ps @ [c])" "[] \<noteq> ps @ [c]" by simp_all
  ultimately have "is_folder (lookup u [])" using assms(2) unfolding entry_put_def by metis
  then show ?thesis using assms by (simp add: guest_ok_def entry_put_def)
qed

definition apart :: "string list \<Rightarrow> string list \<Rightarrow> bool" where
  "apart p q \<longleftrightarrow> \<not> below p q \<and> \<not> below q p"

lemma entry_put_apart: "entry_put t p new u \<Longrightarrow> apart p q \<Longrightarrow> lookup u q = lookup t q"
  by (simp add: entry_put_def apart_def)

lemma part_pos_apart: "ps \<noteq> [] \<Longrightarrow> apart (part_pos ps) ps" "ps \<noteq> [] \<Longrightarrow> apart ps (part_pos ps)"
  using part_pos_other by (simp_all add: apart_def)

definition published :: "crypto \<Rightarrow> chunk_params \<Rightarrow> node \<Rightarrow> string list \<Rightarrow> reply \<Rightarrow> node \<Rightarrow> bool" where
  "published cr p t ps r u \<longleftrightarrow>
     lookup t ps = None \<and> snd r = None \<and> cp_Final p \<and> lookup u (part_pos ps) = None
     \<and> (\<exists>content. lookup u ps = Some (File content)
          \<and> EqualFold (hex_encode (sha256 cr content)) (cp_ExpectedSHA256 p))"

text \<open>A chunk touches its part file and publishes only what was checked.  Whatever the request
  and whatever system call fails, and provided the part file beside the target is no symbolic
  link, \<^verbatim>\<open>files.write-chunk\<close> changes nothing but the part file and the target.  The target changes
  only from absent to a whole file whose checksum is the expected one, in the reply of a
  successful last chunk, and then the part file is gone.\<close>

theorem write_chunk_confined:
  assumes "guest_ok g t e" and "filesWriteChunk cr g env t e c = (r, u)"
    and "decode_strict write_chunk_fields no_chunk_params (c_Params c) = Some p"
    and "resolve g t e (cp_Path p) True = Inr (abs_path ps)" and "list_all good_part ps" and "ps \<noteq> []"
    and "\<not> is_link (lookup t (part_pos ps))"
  shows "guest_ok g u e \<and> (\<forall>q. apart ps q \<longrightarrow> apart (part_pos ps) q \<longrightarrow> lookup u q = lookup t q)
    \<and> (lookup u ps = lookup t ps \<or> published cr p t ps r u)"
  using assms(2)
proof (rule filesWriteChunk_cases)
  fix p' data target
  assume "decode_strict write_chunk_fields no_chunk_params (c_Params c) = Some p'"
    "StdDecode (cp_DataBase64 p') = Some data" "resolve g t e (cp_Path p') True = Inr target"
    "store_chunk cr env t p' data target = (r, u)"
  then have store: "store_chunk cr env t p data (abs_path ps) = (r, u)" using assms(3,4) by simp
  obtain qs x where pos: "part_pos ps = qs @ [x]" "butlast (part_pos ps) = qs"
    by (cases rule: part_pos_cases [of ps]) auto
  note apart = part_pos_apart [OF assms(6)]
  have opened: "q = part_pos ps \<and> is_folder (lookup t qs) \<and> (\<exists>s. file_put t (part_pos ps) s v)"
    if "open_write t (cp_Offset p = 0) (abs_path ps @ part_suffix) = Some (q, v)" for q v
    using open_part [OF assms(1,4,5,7) that] pos by auto
  have kept: ?thesis if "entry_put t (part_pos ps) new u" for new
    using that entry_put_apart [OF that] guest_ok_entry_put [OF assms(1), of qs x new u] pos(1) apart by auto
  show ?thesis
    using store
  proof (rule store_chunk_cases)
    fix q v
    assume "open_write t (cp_Offset p = 0) (abs_path ps @ part_suffix) = Some (q, v)" "u = v"
    then show ?thesis using opened kept by blast
  next
    fix q v content d
    assume "open_write t (cp_Offset p = 0) (abs_path ps @ part_suffix) = Some (q, v)"
      "u = put_node q (Some (File (content @ d))) v"
    then show ?thesis using opened kept file_put_again pos(1) by metis
  next
    fix q v content
    assume v: "open_write t (cp_Offset p = 0) (abs_path ps @ part_suffix) = Some (q, v)" "cp_Final p"
      "publish_part cr env (put_node q (Some (File (content @ data))) v) (abs_path ps) (abs_path ps @ part_suffix)
         (cp_ExpectedSHA256 p) (length data) = (r, u)"
    let ?w = "put_node q (Some (File (content @ data))) v"
    have w: "file_put t (part_pos ps) (content @ data) ?w" "q = part_pos ps" "is_folder (lookup t qs)"
      using opened [OF v(1)] file_put_again pos(1) by metis+
    have "guest_ok g ?w e" using guest_ok_entry_put [OF assms(1)] w(1) pos(1) by simp
    moreover have "is_folder (lookup ?w (butlast (part_pos ps)))" "lookup ?w (part_pos ps) = Some (File (content @ data))"
      using w entry_put_parent [of t qs x] pos by (simp_all add: entry_put_def)
    ultimately show ?thesis
      using v(3)
    proof (rule publish_part_cases [OF _ assms(5)])
      assume "u = ?w"
      then show ?thesis using kept w(1) by blast
    next
      assume "entry_put ?w (part_pos ps) None u"
      then show ?thesis using kept entry_put_trans w(1) by blast
    next
      fix z
      assume z: "EqualFold (hex_encode (sha256 cr (content @ data))) (cp_ExpectedSHA256 p)" "lookup ?w ps = None"
        "entry_put ?w (part_pos ps) None z" "file_put z ps (content @ data) u"
        "r = marshal (JObject [(''final'', JBool True), (''sha256'', JString (hex_encode (sha256 cr (content @ data)))),
           (''size'', JNumber (Itoa (int (length (content @ data))))), (''written'', JNumber (Itoa (int (length data))))])"
      have tz: "entry_put t (part_pos ps) None z" using entry_put_trans w(1) z(3) by blast
      have "lookup u q = lookup t q" if "apart ps q" "apart (part_pos ps) q" for q
        using entry_put_apart [OF z(4) that(1)] entry_put_apart [OF tz that(2)] by simp
      moreover have "guest_ok g u e"
        using guest_ok_entry_put [OF assms(1), of qs x] guest_ok_entry_put [of g z e "butlast ps" "last ps"] tz z(4) pos(1) assms(6)
        by simp
      moreover have "lookup u (part_pos ps) = None" "lookup t ps = None" "lookup u ps = Some (File (content @ data))"
        using entry_put_apart [OF z(4) apart(2)] entry_put_apart [OF w(1) apart(1)] tz z(2,4)
        by (simp_all add: entry_put_def)
      ultimately show ?thesis using z(1,5) v(2) by (auto simp: published_def marshal_def)
    qed
  qed (use assms(1) in simp)
qed (use assms(1) in simp)

section \<open>A file sent in chunks\<close>

definition chunk_request :: "string \<Rightarrow> nat \<Rightarrow> string \<Rightarrow> bool \<Rightarrow> string \<Rightarrow> string" where
  "chunk_request path off data fin expected =
     json_text (JObject [(''path'', JString path), (''offset'', JNumber (Itoa (int off))),
       (''dataBase64'', JString (StdEncode data)), (''final'', JBool fin), (''expectedSHA256'', JString expected)])"

definition chunk_of :: "string \<Rightarrow> nat \<Rightarrow> string \<Rightarrow> bool \<Rightarrow> string \<Rightarrow> chunk_params" where
  "chunk_of path off data fin expected =
     \<lparr>cp_Path = path, cp_Offset = int off, cp_Limit = 0, cp_DataBase64 = StdEncode data, cp_Final = fin,
      cp_ExpectedSHA256 = expected\<rparr>"

lemma MaxTransfer_int64: "n \<le> MaxTransfer \<Longrightarrow> in_int64 (int n)"
  by (simp add: MaxTransfer_def in_int64_def)

lemma decode_chunk_request:
  assumes "valid_utf8 path" and "valid_utf8 expected" and "off \<le> MaxTransfer"
  shows "decode_strict write_chunk_fields no_chunk_params (chunk_request path off data fin expected)
    = Some (chunk_of path off data fin expected)"
  unfolding chunk_request_def
  by (subst decode_strict_text)
     (use assms in \<open>auto simp: write_chunk_fields_def find_field_def no_chunk_params_def chunk_of_def ascii_valid
        Atoi_Itoa MaxTransfer_int64\<close>)

definition chunk_command :: "string \<Rightarrow> command" where
  "chunk_command params = \<lparr>c_ID = ''upload'', c_Name = ''files.write-chunk'', c_Deadline = 0, c_Params = params\<rparr>"

text \<open>The chunks one after the other, each at the offset it has in the whole; the last is final.\<close>

fun upload_chunks :: "crypto \<Rightarrow> guest \<Rightarrow> io_env \<Rightarrow> executor \<Rightarrow> string \<Rightarrow> string \<Rightarrow> nat \<Rightarrow> string list \<Rightarrow> node \<Rightarrow> reply \<times> node" where
  "upload_chunks cr g env e path expected off [] t = (failure ''no chunks'', t)"
| "upload_chunks cr g env e path expected off [d] t =
     filesWriteChunk cr g env t e (chunk_command (chunk_request path off d True expected))"
| "upload_chunks cr g env e path expected off (d # x # ds) t =
     (case filesWriteChunk cr g env t e (chunk_command (chunk_request path off d False expected)) of
        (r, t) \<Rightarrow>
          if snd r \<noteq> None then (r, t) else upload_chunks cr g env e path expected (off + length d) (x # ds) t)"

text \<open>The part file holds what was sent so far; before the first byte it may be any regular file.\<close>

definition part_holds :: "node \<Rightarrow> string list \<Rightarrow> string \<Rightarrow> bool" where
  "part_holds t pp s \<longleftrightarrow> lookup t pp = Some (File s) \<or> (s = [] \<and> (lookup t pp = None \<or> (\<exists>old. lookup t pp = Some (File old))))"

lemma open_part_holds:
  assumes "tree_ok t" and "list_all good_part (qs @ [x])" and "is_folder (lookup t qs)" and "part_holds t (qs @ [x]) s"
  shows "\<exists>v. open_write t (length s = 0) (abs_path (qs @ [x])) = Some (qs @ [x], v) \<and> file_put t (qs @ [x]) s v"
proof (cases "lookup t (qs @ [x])")
  case None
  then show ?thesis
    using assms(4) open_write_new [OF assms(2,3)] file_put_node [OF assms(1,3), of x "[]"] by (auto simp: part_holds_def)
next
  case (Some n)
  then obtain old where old: "lookup t (qs @ [x]) = Some (File old)" "s \<noteq> [] \<longrightarrow> old = s"
    using assms(4) by (auto simp: part_holds_def)
  have "file_put t (qs @ [x]) old t" using old(1) assms(1) by (simp add: entry_put_def)
  then show ?thesis
    using open_write_entry [OF assms(2,3) old(1), of "s = []"] old(2) file_put_node [OF assms(1,3), of x "[]"]
    by (cases "s = []") auto
qed

text \<open>A name in an approved directory, taken or free.\<close>

definition name_ok :: "node \<Rightarrow> executor \<Rightarrow> string list \<Rightarrow> bool" where
  "name_ok t e ps \<longleftrightarrow>
     ps \<noteq> [] \<and> list_all good_part ps \<and> approved e ps \<and> nul \<notin> set (abs_path ps) \<and> valid_utf8 (abs_path ps)
     \<and> is_folder (lookup t (butlast ps))"

lemma free_name_ok: "free_name t e ps \<Longrightarrow> name_ok t e ps"
  by (simp add: free_name_def name_ok_def)

lemma chunk_admitted:
  assumes "guest_ok g t e" and "name_ok t e ps" and "n + length d \<le> MaxTransfer" and "length d \<le> MaxChunk" and "valid_utf8 expected"
  shows "chunk_admit g t e (chunk_command (chunk_request (abs_path ps) n d fin expected))
    = Inr (chunk_of (abs_path ps) n d fin expected, d, abs_path ps)"
proof -
  obtain qs c where ps: "ps = qs @ [c]" "is_folder (lookup t qs)"
    using assms(2) by (cases ps rule: rev_cases) (auto simp: name_ok_def)
  have "wrap64 (int n + int (length d)) = int (n + length d)"
    using wrap64_id [OF MaxTransfer_int64 [OF assms(3)]] by simp
  then show ?thesis
    using resolve_new [OF assms(1), of qs c] ps assms(2-4) decode_chunk_request [OF _ assms(5), of "abs_path ps" n d fin]
    by (simp add: chunk_admit_def chunk_command_def chunk_of_def std.dec_enc name_ok_def)
qed

text \<open>A chunk in order: it is appended, and a last one is published or thrown away.\<close>

lemma chunk_in_order:
  assumes "guest_ok g t e" and "name_ok t e ps" and "part_holds t (part_pos ps) s" and "calm env"
    and "length (s @ d) \<le> MaxTransfer" and "length d \<le> MaxChunk" and "valid_utf8 expected"
  obtains w where "file_put t (part_pos ps) (s @ d) w"
    and "filesWriteChunk cr g env t e (chunk_command (chunk_request (abs_path ps) (length s) d fin expected))
      = (if fin then publish_part cr env w (abs_path ps) (abs_path ps @ part_suffix) expected (length d)
         else (marshal (JObject [(''final'', JBool False), (''nextOffset'', JNumber (Itoa (int (length (s @ d))))),
                 (''written'', JNumber (Itoa (int (length d))))]), w))"
proof -
  obtain qs c where ps: "ps = qs @ [c]" "list_all good_part (qs @ [c])" "is_folder (lookup t qs)"
    using assms(2) by (cases ps rule: rev_cases) (auto simp: name_ok_def)
  have pp: "part_pos ps = qs @ [c @ part_suffix]" "list_all good_part (qs @ [c @ part_suffix])"
    using ps(1,2) good_part_suffix by auto
  obtain v where v: "open_write t (length s = 0) (abs_path (part_pos ps)) = Some (part_pos ps, v)" "file_put t (part_pos ps) s v"
    using open_part_holds [OF _ pp(2) ps(3)] assms(1,3) pp(1) by (auto simp: guest_ok_def)
  let ?p = "chunk_of (abs_path ps) (length s) d fin expected" and ?w = "put_node (part_pos ps) (Some (File (s @ d))) v"
  have w: "file_put t (part_pos ps) (s @ d) ?w" using file_put_again v(2) ps(3) pp(1) by metis
  have "chunk_admit g t e (chunk_command (chunk_request (abs_path ps) (length s) d fin expected)) = Inr (?p, d, abs_path ps)"
    using chunk_admitted [OF assms(1,2) _ assms(6,7)] assms(5) by simp
  moreover have "lookup v (part_pos ps) = Some (File s)" using v(2) by (simp add: entry_put_def)
  ultimately show thesis
    using that [OF w] v(1) assms(4)
    by (simp add: filesWriteChunk_def store_chunk_def chunk_of_def part_path calm_def write_at_end Let_def)
qed

lemma publish_part_calm:
  assumes "guest_ok g w e" and "list_all good_part (qs @ [c])" and "is_folder (lookup w qs)"
    and "lookup w (qs @ [c]) = None" and "lookup w (part_pos (qs @ [c])) = Some (File content)" and "calm env" and "expected \<noteq> []"
    and "publish_part cr env w (abs_path (qs @ [c])) (abs_path (qs @ [c]) @ part_suffix) expected n = (r, u)"
  shows "if EqualFold (hex_encode (sha256 cr content)) expected
    then snd r = None \<and> (\<exists>v. entry_put w (part_pos (qs @ [c])) None v \<and> file_put v (qs @ [c]) content u)
    else snd r = Some ''final SHA-256 mismatch'' \<and> entry_put w (part_pos (qs @ [c])) None u"
proof -
  let ?pp = "qs @ [c @ part_suffix]" and ?v = "put_node (qs @ [c @ part_suffix]) None w"
  have good: "list_all good_part ?pp" using assms(2) good_part_suffix by simp
  have gone: "entry_put w ?pp None ?v"
    using assms(1,3) by (intro entry_put_node) (auto simp: guest_ok_def)
  then have "file_put ?v (qs @ [c]) content (put_node (qs @ [c]) (Some (File content)) ?v)"
    using assms(3) entry_put_parent by (intro file_put_node) (auto simp: entry_put_def)
  then show ?thesis
    using assms gone open_read_entry [OF good assms(3)] entry_pos_abs [OF good assms(3)] entry_pos_abs [OF assms(2,3)]
      Lstat_entry [OF assms(2,3)]
    by (auto simp: publish_part_def part_path calm_def failure_def marshal_def remove_entry_def rename_entry_def)
qed

lemma part_lookup_free: "free_name t e ps \<Longrightarrow> ps \<noteq> [] \<and> list_all good_part ps \<and> lookup t ps = None"
  by (simp add: free_name_def)

lemma free_name_entry_put:
  assumes "free_name t e ps" and "entry_put t (part_pos ps) new u"
  shows "free_name u e ps"
proof -
  have ps: "ps \<noteq> []" "is_folder (lookup t (butlast ps))" "lookup t ps = None" using assms(1) by (simp_all add: free_name_def)
  then obtain qs c where "ps = qs @ [c]" by (cases ps rule: rev_cases) auto
  then have "is_folder (lookup u (butlast ps))" using entry_put_parent assms(2) ps(2) by auto
  moreover have "lookup u ps = None" using entry_put_apart [OF assms(2)] part_pos_apart ps by simp
  ultimately show ?thesis using assms(1) by (simp add: free_name_def)
qed


text \<open>A chunked transfer into the sample directory.\<close>

definition sample_chunk :: command where
  "sample_chunk = chunk_command (chunk_request (abs_path [''shared'', ''b.txt'']) 0 ''hello'' True (hex_encode ''hello''))"

lemma sample_sizes: "5 \<le> MaxTransfer" "5 \<le> MaxChunk" "3 \<le> MaxChunk" "2 \<le> MaxChunk" "1 \<le> MaxTransfer" "1 \<le> MaxChunk"
  by (simp_all add: MaxTransfer_def MaxChunk_def)

lemma sample_calm: "calm sample_env"
  by (simp add: calm_def sample_env_def)

lemma sample_part: "lookup sample_tree (part_pos [''shared'', ''b.txt'']) = None"
  by (simp add: sample_tree_def part_suffix_def)

lemma EqualFold_refl [simp]: "EqualFold s s"
  by (simp add: EqualFold_def)


theorem write_chunk_confined_witness:
  "guest_ok sample_guest (snd (filesWriteChunk toy_crypto sample_guest sample_env sample_tree sample_executor sample_chunk)) sample_executor
   \<and> lookup (snd (filesWriteChunk toy_crypto sample_guest sample_env sample_tree sample_executor sample_chunk)) [''secret''] = Some (File ''key'')"
proof -
  let ?ps = "[''shared'', ''b.txt'']"
  obtain r u where ru: "filesWriteChunk toy_crypto sample_guest sample_env sample_tree sample_executor sample_chunk = (r, u)" by fastforce
  have ok: "name_ok sample_tree sample_executor ?ps" by (rule free_name_ok [OF sample_free_name])
  have p: "decode_strict write_chunk_fields no_chunk_params (c_Params sample_chunk)
      = Some (chunk_of (abs_path ?ps) 0 ''hello'' True (hex_encode ''hello''))"
    using ok by (simp add: sample_chunk_def chunk_command_def name_ok_def ascii_valid decode_chunk_request)
  have r: "resolve sample_guest sample_tree sample_executor (cp_Path (chunk_of (abs_path ?ps) 0 ''hello'' True (hex_encode ''hello''))) True
      = Inr (abs_path ?ps)"
    using resolve_new [OF sample_guest_ok, of "[''shared'']" "''b.txt''"] ok by (simp add: name_ok_def chunk_of_def)
  have "\<not> is_link (lookup sample_tree (part_pos ?ps))" using sample_part by (simp add: is_link_def)
  then have "guest_ok sample_guest u sample_executor \<and> lookup u [''secret''] = lookup sample_tree [''secret'']"
    using write_chunk_confined [OF sample_guest_ok ru p r] ok by (simp add: name_ok_def apart_def)
  then show ?thesis using ru by (simp add: sample_tree_def)
qed

text \<open>C33 Two ways out of the approved directories.  A transfer to the path of an approved
  directory itself collects its chunks in a file beside that directory, outside it.  And if the
  part file of a name is a symbolic link to a regular file, wherever that lies, the first chunk
  overwrites this file.\<close>

theorem chunks_leave_roots:
  assumes "guest_ok g t e" and "calm env" and "name_ok t e ps" and "length d \<le> MaxChunk"
  shows "(abs_path ps \<in> set (x_roots e) \<longrightarrow> part_holds t (part_pos ps) [] \<longrightarrow>
      (\<exists>v u. filesWriteChunk cr g env t e (chunk_command (chunk_request (abs_path ps) 0 d False [])) = (marshal v, u)
         \<and> file_put t (part_pos ps) d u \<and> \<not> below ps (part_pos ps)))
    \<and> (\<forall>ss old. lookup t (part_pos ps) = Some (Link (abs_path ss)) \<longrightarrow> ss \<noteq> [] \<longrightarrow> list_all good_part ss \<longrightarrow>
         is_folder (lookup t (butlast ss)) \<longrightarrow> lookup t ss = Some (File old) \<longrightarrow>
         (\<exists>v u. filesWriteChunk cr g env t e (chunk_command (chunk_request (abs_path ps) 0 d False [])) = (marshal v, u)
            \<and> file_put t ss d u))"
proof (intro conjI impI allI)
  have size: "length d \<le> MaxTransfer" using assms(4) by (simp add: MaxTransfer_def MaxChunk_def)
  have utf8: "valid_utf8 []" by (simp add: ascii_valid)
  {
    assume "part_holds t (part_pos ps) []"
    then obtain u where "file_put t (part_pos ps) ([] @ d) u"
        "filesWriteChunk cr g env t e (chunk_command (chunk_request (abs_path ps) (length []) d False []))
          = (marshal (JObject [(''final'', JBool False), (''nextOffset'', JNumber (Itoa (int (length ([] @ d))))),
               (''written'', JNumber (Itoa (int (length d))))]), u)"
      using chunk_in_order [OF assms(1,3) _ assms(2), of "[]" d "[]" cr False] size assms(4) utf8 by auto
    then show "\<exists>v u. filesWriteChunk cr g env t e (chunk_command (chunk_request (abs_path ps) 0 d False [])) = (marshal v, u)
        \<and> file_put t (part_pos ps) d u \<and> \<not> below ps (part_pos ps)"
      using part_pos_other assms(3) by (auto simp: name_ok_def)
  }
  fix ss old
  assume ss: "lookup t (part_pos ps) = Some (Link (abs_path ss))" "ss \<noteq> []" "list_all good_part ss"
    "is_folder (lookup t (butlast ss))" "lookup t ss = Some (File old)"
  obtain qs x where pos: "part_pos ps = qs @ [x]" "list_all good_part (qs @ [x])" "is_folder (lookup t qs)"
    using assms(3) good_part_pos [of ps] by (cases rule: part_pos_cases [of ps]) (auto simp: name_ok_def)
  obtain rs y where rs: "ss = rs @ [y]" using ss(2) by (cases ss rule: rev_cases) auto
  have tree: "tree_ok t" using assms(1) by (simp add: guest_ok_def)
  have "walk t True k [] (split_on slash (abs_path ss)) = Some ss" for k
    using walk_id [of ss t "[]" True k] ss split_abs_path [of ss] by (simp add: is_link_def)
  moreover have "walk t True 40 [] (qs @ [x]) = walk t True 40 qs [x]"
    using walk_along [of qs t "[]" True 40 "[x]"] pos by simp
  ultimately have "path_walk t True 40 (abs_path (part_pos ps)) = Some ss"
    using pos ss(1) by (simp add: path_walk_abs good_part_def)
  then have "open_write t True (abs_path (part_pos ps)) = Some (ss, put_node ss (Some (File [])) t)"
    using ss(5) by (simp add: open_write_def)
  moreover have put: "file_put t ss s (put_node ss (Some (File s)) t)" for s
    using file_put_node [OF tree, of rs y s] ss(4) rs by simp
  moreover have "file_put t ss d (put_node ss (Some (File d)) (put_node ss (Some (File [])) t))"
    using file_put_again [OF put [unfolded rs], of d] ss(4) rs by simp
  ultimately show "\<exists>v u. filesWriteChunk cr g env t e (chunk_command (chunk_request (abs_path ps) 0 d False [])) = (marshal v, u)
      \<and> file_put t ss d u"
    using chunk_admitted [OF assms(1,3) _ assms(4) utf8, of 0 False] size assms(2)
    by (auto simp: filesWriteChunk_def store_chunk_def chunk_of_def part_path calm_def write_at_end entry_put_def Let_def)
qed

lemma sample_root_ok: "name_ok sample_tree sample_executor [''shared'']"
  using sample_approved [of "[]"] sample_parts
  by (simp add: name_ok_def sample_tree_def is_folder_def abs_path_def ascii_valid)

theorem chunks_leave_roots_witness:
  "\<exists>v u. filesWriteChunk toy_crypto sample_guest sample_env sample_tree sample_executor
      (chunk_command (chunk_request (abs_path [''shared'']) 0 ''x'' False [])) = (marshal v, u)
    \<and> lookup u [''shared.openclaw-part''] = Some (File ''x'') \<and> \<not> below [''shared''] [''shared.openclaw-part'']"
proof -
  have "abs_path [''shared''] \<in> set (x_roots sample_executor)" by (simp add: sample_executor_def abs_path_def)
  moreover have "part_holds sample_tree (part_pos [''shared'']) []"
    by (simp add: part_holds_def sample_tree_def part_suffix_def)
  moreover have "length ''x'' \<le> MaxChunk" using sample_sizes by simp
  ultimately show ?thesis
    using chunks_leave_roots [OF sample_guest_ok sample_calm sample_root_ok, of "''x''" toy_crypto]
    by (auto simp: entry_put_def part_suffix_def)
qed

end
