(* ===== verification/Paging.thy ===== *)
theory Paging imports Json_Text begin

text \<open>
  Answers in pages.  A provider has a whole list and gives the part that starts at an offset,
  with a flag whether there is more; a client goes on at the end of what it got.  The contract
  is the locale \<open>pager\<close>; its consequence is that the client ends and has the whole.
\<close>

text \<open>The client, with a bound on the number of requests.\<close>

fun collect :: "(nat \<Rightarrow> 'p option) \<Rightarrow> ('p \<Rightarrow> 'b list) \<Rightarrow> ('p \<Rightarrow> bool) \<Rightarrow> nat \<Rightarrow> nat \<Rightarrow> 'b list option" where
  "collect ask content more 0 off = None"
| "collect ask content more (Suc k) off =
     (case ask off of
        None \<Rightarrow> None
      | Some p \<Rightarrow>
          if more p then map_option (\<lambda>xs. content p @ xs) (collect ask content more k (off + length (content p)))
          else Some (content p))"

locale pager =
  fixes ok :: "'s \<Rightarrow> bool" and whole :: "'s \<Rightarrow> 'b list" and ask :: "'s \<Rightarrow> nat \<Rightarrow> 'p option"
    and content :: "'p \<Rightarrow> 'b list" and more :: "'p \<Rightarrow> bool"
  assumes page: "ok s \<Longrightarrow> off \<le> length (whole s) \<Longrightarrow>
    \<exists>p n. ask s off = Some p \<and> 0 < n \<and> content p = take n (drop off (whole s)) \<and> more p = (off + n < length (whole s))"
begin

lemma collect_from:
  "ok s \<Longrightarrow> off \<le> length (whole s) \<Longrightarrow> length (whole s) - off < k \<Longrightarrow>
   collect (ask s) content more k off = Some (drop off (whole s))"
proof (induction k arbitrary: off)
  case (Suc k)
  obtain p n where p: "ask s off = Some p" "0 < n" "content p = take n (drop off (whole s))"
      "more p = (off + n < length (whole s))"
    using page [OF Suc.prems(1,2)] by auto
  show ?case
  proof (cases "more p")
    case True
    then have n: "length (content p) = n" "off + n < length (whole s)" using p by simp_all
    then have "collect (ask s) content more k (off + n) = Some (drop (off + n) (whole s))"
      using Suc p(2) by simp
    moreover have "take n (drop off (whole s)) @ drop (off + n) (whole s) = drop off (whole s)"
      by (metis add.commute append_take_drop_id drop_drop)
    ultimately show ?thesis using p n True by simp
  qed (use p in simp)
qed simp

lemma collect_whole: "ok s \<Longrightarrow> length (whole s) < k \<Longrightarrow> collect (ask s) content more k 0 = Some (whole s)"
  using collect_from [of s 0 k] by simp

end

section \<open>Reading a page\<close>

definition member :: "string \<Rightarrow> json \<Rightarrow> json option" where
  "member k v = (case v of JObject ms \<Rightarrow> map_of ms k | _ \<Rightarrow> None)"

definition page_items :: "json \<Rightarrow> json list" where
  "page_items v = (case member ''items'' v of Some (JArray vs) \<Rightarrow> vs | _ \<Rightarrow> [])"

definition page_more :: "json \<Rightarrow> bool" where
  "page_more v \<longleftrightarrow> member ''hasMore'' v = Some (JBool True)"

text \<open>The value of a reply that is a success.\<close>

definition reply_value :: "string \<times> string option \<Rightarrow> json option" where
  "reply_value r = (if snd r = None then parse_json (fst r) else None)"

end
