(* ===== verification/Executor_Paging.thy ===== *)
theory Executor_Paging imports Executor_Inventory Executor_Transfers Paging "HOL-Library.Multiset" begin

text \<open>
  The four commands that answer in pages keep the contract \<open>pager\<close>: \<^verbatim>\<open>files.read-chunk\<close>,
  \<^verbatim>\<open>files.list\<close>, \<^verbatim>\<open>process.list\<close> and \<^verbatim>\<open>service.list\<close>.  A client that asks again at the end
  of what it got therefore ends, and has everything once and in order.
\<close>

section \<open>What is asked\<close>

record asking =
  as_crypto :: crypto
  as_low :: "rune \<Rightarrow> rune"
  as_guest :: guest
  as_env :: io_env
  as_tree :: node
  as_exec :: executor
  as_path :: string
  as_filter :: string
  as_limit :: nat

definition ask_command :: "json \<Rightarrow> command" where
  "ask_command v = \<lparr>c_ID = ''page'', c_Name = ''page'', c_Deadline = 0, c_Params = json_text v\<rparr>"

lemma small_int64: "n \<le> MaxTransfer \<Longrightarrow> in_int64 (int n)"
  by (simp add: MaxTransfer_def in_int64_def)

lemma reply_value_marshal: "json_ok v \<Longrightarrow> json_depth v \<le> 10000 \<Longrightarrow> reply_value (marshal v) = Some v"
  by (simp add: reply_value_def marshal_def parse_text)

lemma items_ok_iff: "items_ok xs \<longleftrightarrow> list_all json_ok xs"
  by (induction xs) simp_all

lemma items_depth_le: "list_all (\<lambda>v. json_depth v \<le> n) xs \<Longrightarrow> items_depth xs \<le> n"
  by (induction xs) simp_all

section \<open>A file in chunks\<close>

definition reading_ask :: "asking \<Rightarrow> nat \<Rightarrow> json option" where
  "reading_ask s off =
     reply_value (filesReadChunk (as_crypto s) (as_guest s) (as_env s) (as_tree s) (as_exec s)
       (ask_command (JObject [(''path'', JString (as_path s)), (''offset'', JNumber (Itoa (int off))),
          (''limit'', JNumber (Itoa (int (as_limit s))))])))"

definition reading_whole :: "asking \<Rightarrow> string" where
  "reading_whole s =
     (case resolve (as_guest s) (as_tree s) (as_exec s) (as_path s) False of
        Inl m \<Rightarrow> []
      | Inr p \<Rightarrow> (case open_read (as_tree s) p of Some (File content) \<Rightarrow> content | _ \<Rightarrow> []))"

definition reading_ok :: "asking \<Rightarrow> bool" where
  "reading_ok s \<longleftrightarrow>
     calm (as_env s) \<and> valid_utf8 (as_path s) \<and> 0 < as_limit s \<and> as_limit s \<le> MaxTransfer
     \<and> in_int64 (int (length (reading_whole s)))
     \<and> (case resolve (as_guest s) (as_tree s) (as_exec s) (as_path s) False of
          Inl m \<Rightarrow> False
        | Inr p \<Rightarrow> (case open_read (as_tree s) p of Some (File content) \<Rightarrow> True | _ \<Rightarrow> False))"

definition chunk_data :: "json \<Rightarrow> string" where
  "chunk_data v =
     (case member ''dataBase64'' v of
        Some (JString b) \<Rightarrow> (case StdDecode b of Some d \<Rightarrow> d | None \<Rightarrow> [])
      | _ \<Rightarrow> [])"

definition chunk_more :: "json \<Rightarrow> bool" where
  "chunk_more v \<longleftrightarrow> member ''eof'' v \<noteq> Some (JBool True)"

lemma in_int64_le: "in_int64 (int n) \<Longrightarrow> m \<le> n \<Longrightarrow> in_int64 (int m)"
  by (simp add: in_int64_def)

lemma reading_page:
  assumes "reading_ok s" and "off \<le> length (reading_whole s)"
  shows "\<exists>v n. reading_ask s off = Some v \<and> 0 < n \<and> chunk_data v = take n (drop off (reading_whole s))
    \<and> chunk_more v = (off + n < length (reading_whole s))"
proof -
  obtain p content where p: "resolve (as_guest s) (as_tree s) (as_exec s) (as_path s) False = Inr p"
      "open_read (as_tree s) p = Some (File content)" "reading_whole s = content"
    using assms(1) by (auto simp: reading_ok_def reading_whole_def split: sum.splits option.splits node.splits)
  let ?n = "as_limit s" and ?data = "take (as_limit s) (drop off content)"
  let ?v = "JObject [(''chunkSHA256'', JString (hex_encode (sha256 (as_crypto s) ?data))),
      (''dataBase64'', JString (StdEncode ?data)), (''eof'', JBool (length content \<le> off + length ?data)),
      (''nextOffset'', JNumber (Itoa (int (off + length ?data)))), (''offset'', JNumber (Itoa (int off))),
      (''size'', JNumber (Itoa (int (length content))))]"
  have ok: "valid_utf8 (as_path s)" "0 < ?n" "?n \<le> MaxTransfer" "in_int64 (int (length content))"
    using assms(1) p(3) by (auto simp: reading_ok_def)
  have "in_int64 (int off)" "in_int64 (int ?n)"
    using in_int64_le [OF ok(4)] assms(2) p(3) small_int64 [OF ok(3)] by simp_all
  then have params: "decode_strict read_chunk_fields no_chunk_params (json_text (JObject [(''path'', JString (as_path s)),
      (''offset'', JNumber (Itoa (int off))), (''limit'', JNumber (Itoa (int ?n)))]))
    = Some (no_chunk_params\<lparr>cp_Path := as_path s, cp_Offset := int off, cp_Limit := int ?n\<rparr>)"
    by (subst decode_strict_text)
       (use ok(1) in \<open>auto simp: read_chunk_fields_def find_field_def no_chunk_params_def ascii_valid Atoi_Itoa\<close>)
  let ?m = "min (length content - off) ?n"
  have want: "min (int ?n) (int (length content) - int off) = int ?m"
    using assms(2) p(3) by (auto simp: min_def of_nat_diff)
  have eof: "(int (length content) \<le> int off + int ?m) = (length content \<le> off + ?m)" by linarith
  have data: "take ?m (drop off content) = ?data" by (metis length_drop take_all_iff take_take nle_le min.commute)
  have "filesReadChunk (as_crypto s) (as_guest s) (as_env s) (as_tree s) (as_exec s)
      (ask_command (JObject [(''path'', JString (as_path s)), (''offset'', JNumber (Itoa (int off))),
         (''limit'', JNumber (Itoa (int ?n)))])) = marshal ?v"
    using assms p ok params
    by (simp add: filesReadChunk_def ask_command_def reading_ok_def calm_def Let_def want data eof del: json_text.simps)
  moreover have "reply_value (marshal ?v) = Some ?v"
    by (rule reply_value_marshal) (auto simp: ascii_valid)
  ultimately have "reading_ask s off = Some ?v" by (simp add: reading_ask_def)
  moreover have "chunk_data ?v = ?data" by (simp add: chunk_data_def member_def std.dec_enc)
  moreover have "chunk_more ?v = (off + ?n < length content)"
    using assms(2) p(3) by (auto simp: chunk_more_def member_def min_def)
  ultimately show ?thesis using ok(2) p(3) by blast
qed

interpretation reading: pager reading_ok reading_whole reading_ask chunk_data chunk_more
  by unfold_locales (rule reading_page)

section \<open>Inventories\<close>

lemma list_all_take_drop: "list_all P xs \<Longrightarrow> list_all P (take m (drop n xs))"
  by (auto simp: list_all_iff dest!: in_set_takeD in_set_dropD)

text \<open>A page of any inventory.\<close>

lemma marshalPage_page:
  assumes "lo_Offset opts = int off" and "lo_Limit opts = int n" and "off \<le> length xs"
    and "xs = map enc (matching low searchable (lo_Filter opts) items)"
    and "list_all (\<lambda>v. json_ok v \<and> json_depth v \<le> 9000) xs"
  shows "\<exists>v. reply_value (marshalPage low enc items opts searchable) = Some v
    \<and> page_items v = take n (drop off xs) \<and> page_more v = (off + n < length xs)"
proof -
  let ?f = "matching low searchable (lo_Filter opts) items"
  have len: "length ?f = length xs" using assms(4) by simp
  have start: "min (int off) (int (length xs)) = int off" using assms(3) by simp
  have fin: "nat (min (int off + int n) (int (length xs))) = min (off + n) (length xs)" by linarith
  have more: "(min (int off + int n) (int (length xs)) < int (length xs)) = (off + n < length xs)" by linarith
  have slice: "map enc (drop off (take (min (off + n) (length xs)) ?f)) = take n (drop off xs)"
    using assms(4) by (simp add: drop_map take_map drop_take min_def)
  let ?v = "JObject
      [(''hasMore'', JBool (off + n < length xs)), (''items'', JArray (take n (drop off xs))),
       (''limit'', JNumber (Itoa (int n))), (''offset'', JNumber (Itoa (int off))),
       (''summary'', JObject [(''matched'', JNumber (Itoa (int (length xs)))),
          (''returned'', JNumber (Itoa (min (int off + int n) (int (length xs)) - int off)))]),
       (''total'', JNumber (Itoa (int (length xs))))]"
  have "marshalPage low enc items opts searchable = marshal ?v"
    unfolding marshalPage_def Let_def len assms(1,2) start more fin slice nat_int by (rule refl)
  moreover have "reply_value (marshal ?v) = Some ?v"
  proof (rule reply_value_marshal)
    have part: "list_all (\<lambda>v. json_ok v \<and> json_depth v \<le> 9000) (take n (drop off xs))"
      by (rule list_all_take_drop [OF assms(5)])
    then have "items_depth (take n (drop off xs)) \<le> 9000" by (intro items_depth_le) (simp add: list_all_iff)
    then show "json_depth ?v \<le> 10000" by simp
    have "items_ok (take n (drop off xs))" using part by (simp add: items_ok_iff list_all_iff)
    then show "json_ok ?v" by (auto simp: ascii_valid)
  qed
  ultimately show ?thesis by (auto simp: page_items_def page_more_def member_def)
qed

text \<open>What is asked for, and the whole answer, once the tool of the platform has been run.\<close>

definition page_request :: "asking \<Rightarrow> nat \<Rightarrow> json" where
  "page_request s off =
     JObject [(''offset'', JNumber (Itoa (int off))), (''limit'', JNumber (Itoa (int (as_limit s)))),
       (''filter'', JString (as_filter s))]"

definition page_ok :: "asking \<Rightarrow> json list \<Rightarrow> bool" where
  "page_ok s xs \<longleftrightarrow>
     valid_utf8 (as_filter s) \<and> length (as_filter s) \<le> 256 \<and> nul \<notin> set (as_filter s)
     \<and> 0 < as_limit s \<and> as_limit s \<le> 500 \<and> in_int64 (int (length xs))
     \<and> list_all (\<lambda>v. json_ok v \<and> json_depth v \<le> 9000) xs"

lemma decode_page_request:
  assumes "page_ok s xs" and "off \<le> length xs"
  shows "decodeListOptions (json_text (page_request s off))
    = Some \<lparr>lo_Offset = int off, lo_Limit = int (as_limit s), lo_Filter = as_filter s\<rparr>"
proof -
  have "in_int64 (int off)" "in_int64 (int (as_limit s))"
    using assms in_int64_le by (auto simp: page_ok_def in_int64_def)
  then have "decode_strict option_fields no_options (json_text (page_request s off))
      = Some \<lparr>lo_Offset = int off, lo_Limit = int (as_limit s), lo_Filter = as_filter s\<rparr>"
    unfolding page_request_def
    by (subst decode_strict_text)
       (use assms(1) in \<open>auto simp: option_fields_def find_field_def no_options_def ascii_valid Atoi_Itoa page_ok_def\<close>)
  moreover have "json_text (page_request s off) \<noteq> []" by (simp add: page_request_def)
  ultimately show ?thesis using assms(1) by (simp add: decodeListOptions_def page_ok_def)
qed

lemma inventory_page:
  assumes "page_ok s xs" and "off \<le> length xs" and "xs = map enc (matching (as_low s) searchable (as_filter s) items)"
    and "r = marshalPage (as_low s) enc items
      \<lparr>lo_Offset = int off, lo_Limit = int (as_limit s), lo_Filter = as_filter s\<rparr> searchable"
  shows "\<exists>v n. reply_value r = Some v \<and> 0 < n \<and> page_items v = take n (drop off xs) \<and> page_more v = (off + n < length xs)"
proof -
  let ?opts = "\<lparr>lo_Offset = int off, lo_Limit = int (as_limit s), lo_Filter = as_filter s\<rparr>"
  have "0 < as_limit s" "list_all (\<lambda>v. json_ok v \<and> json_depth v \<le> 9000) xs"
    using assms(1) by (simp_all add: page_ok_def)
  then show ?thesis
    using marshalPage_page [of ?opts off "as_limit s" xs enc "as_low s" searchable items] assms(2-4) by auto
qed

lemma collected_text:
  "collected g e (ask_command v) argv excess = Inr raw \<Longrightarrow> collected g e (ask_command w) argv excess' = Inr raw"
  by (auto simp: collected_def ask_command_def timeout_def Let_def split: prod.splits option.splits if_splits)

lemma ask_params [simp]: "c_Params (ask_command v) = json_text v"
  by (simp add: ask_command_def)

definition tool_output :: "asking \<Rightarrow> string list \<Rightarrow> string option" where
  "tool_output s argv =
     (case collected (as_guest s) (as_exec s) (ask_command JNull) argv [] of Inl m \<Rightarrow> None | Inr raw \<Rightarrow> Some raw)"

lemma tool_output_collected:
  "tool_output s argv = Some raw \<Longrightarrow> collected (as_guest s) (as_exec s) (ask_command v) argv excess = Inr raw"
  unfolding tool_output_def by (auto split: sum.splits intro: collected_text)

definition processes_items :: "asking \<Rightarrow> process_item list option" where
  "processes_items s =
     Option.bind (tool_output s (if g_goos (as_guest s) = ''windows'' then [''tasklist.exe'', ''/FO'', ''CSV'', ''/NH'']
        else [''ps'', ''-eo'', ''pid=,comm='']))
       (parseProcessInventory (as_guest s))"

definition processes_whole :: "asking \<Rightarrow> json list" where
  "processes_whole s =
     (case processes_items s of
        None \<Rightarrow> []
      | Some items \<Rightarrow> map process_json (matching (as_low s) process_search (as_filter s) items))"

definition processes_ok :: "asking \<Rightarrow> bool" where
  "processes_ok s \<longleftrightarrow> processes_items s \<noteq> None \<and> page_ok s (processes_whole s)"

definition processes_ask :: "asking \<Rightarrow> nat \<Rightarrow> json option" where
  "processes_ask s off = reply_value (processList (as_low s) (as_guest s) (as_exec s) (ask_command (page_request s off)))"

lemma processes_page:
  assumes "processes_ok s" and "off \<le> length (processes_whole s)"
  shows "\<exists>v n. processes_ask s off = Some v \<and> 0 < n \<and> page_items v = take n (drop off (processes_whole s))
    \<and> page_more v = (off + n < length (processes_whole s))"
proof -
  have ok: "page_ok s (processes_whole s)" using assms(1) by (simp add: processes_ok_def)
  obtain items where items: "processes_items s = Some items" using assms(1) by (auto simp: processes_ok_def)
  then obtain raw where raw: "tool_output s (if g_goos (as_guest s) = ''windows'' then [''tasklist.exe'', ''/FO'', ''CSV'', ''/NH'']
        else [''ps'', ''-eo'', ''pid=,comm='']) = Some raw"
      "parseProcessInventory (as_guest s) raw = Some items"
    unfolding processes_items_def by (auto simp: bind_eq_Some_conv)
  show ?thesis
    unfolding processes_ask_def
    by (rule inventory_page [OF ok assms(2)])
       (use items raw(2) tool_output_collected [OF raw(1)] decode_page_request [OF ok assms(2)]
         in \<open>simp_all add: processes_whole_def processList_def Let_def\<close>)
qed

interpretation processes: pager processes_ok processes_whole processes_ask page_items page_more
  by unfold_locales (rule processes_page)

definition services_argv :: "asking \<Rightarrow> string list" where
  "services_argv s =
     (if g_goos (as_guest s) = ''windows'' then [''powershell.exe'', ''-NoProfile'', ''-NonInteractive'', ''-Command'', service_script]
      else if g_goos (as_guest s) = ''darwin'' then [''launchctl'', ''list'']
      else [''systemctl'', ''list-units'', ''--type=service'', ''--all'', ''--no-pager'', ''--no-legend'', ''--plain''])"

definition services_items :: "asking \<Rightarrow> service_item list option" where
  "services_items s =
     Option.bind (tool_output s (services_argv s))
       (parseServiceInventory (as_guest s))"

definition services_whole :: "asking \<Rightarrow> json list" where
  "services_whole s =
     (case services_items s of
        None \<Rightarrow> []
      | Some items \<Rightarrow> map service_json (matching (as_low s) service_search (as_filter s) items))"

definition services_ok :: "asking \<Rightarrow> bool" where
  "services_ok s \<longleftrightarrow> services_items s \<noteq> None \<and> page_ok s (services_whole s)"

definition services_ask :: "asking \<Rightarrow> nat \<Rightarrow> json option" where
  "services_ask s off = reply_value (serviceList (as_low s) (as_guest s) (as_exec s) (ask_command (page_request s off)))"

lemma services_page:
  assumes "services_ok s" and "off \<le> length (services_whole s)"
  shows "\<exists>v n. services_ask s off = Some v \<and> 0 < n \<and> page_items v = take n (drop off (services_whole s))
    \<and> page_more v = (off + n < length (services_whole s))"
proof -
  have ok: "page_ok s (services_whole s)" using assms(1) by (simp add: services_ok_def)
  obtain items where items: "services_items s = Some items" using assms(1) by (auto simp: services_ok_def)
  then obtain raw where raw: "tool_output s (services_argv s) = Some raw"
      "parseServiceInventory (as_guest s) raw = Some items"
    unfolding services_items_def by (auto simp: bind_eq_Some_conv)
  show ?thesis
    unfolding services_ask_def
    by (rule inventory_page [OF ok assms(2)])
       (use items raw(2) tool_output_collected [OF raw(1)] decode_page_request [OF ok assms(2)]
         in \<open>simp_all add: services_whole_def serviceList_def Let_def services_argv_def [symmetric]\<close>)
qed

interpretation services: pager services_ok services_whole services_ask page_items page_more
  by unfold_locales (rule services_page)

section \<open>Directories\<close>

definition listing_entries :: "asking \<Rightarrow> (string \<times> node) list option" where
  "listing_entries s =
     (case resolve (as_guest s) (as_tree s) (as_exec s) (as_path s) False of
        Inl m \<Rightarrow> None
      | Inr p \<Rightarrow> (case open_read (as_tree s) p of Some (Folder vs) \<Rightarrow> Some vs | _ \<Rightarrow> None))"

definition listing_whole :: "asking \<Rightarrow> json list" where
  "listing_whole s =
     (case listing_entries s of
        None \<Rightarrow> []
      | Some vs \<Rightarrow> map item_json (sort_key li_Name (list_items (as_env s) (as_filter s) vs)))"

definition listing_ok :: "asking \<Rightarrow> bool" where
  "listing_ok s \<longleftrightarrow>
     calm (as_env s) \<and> valid_utf8 (as_path s) \<and> valid_utf8 (as_filter s) \<and> 0 < as_limit s \<and> as_limit s \<le> 1000
     \<and> in_int64 (int (length (listing_whole s)))
     \<and> (case listing_entries s of None \<Rightarrow> False | Some vs \<Rightarrow> list_all (\<lambda>v. valid_utf8 (fst v)) vs)"

definition listing_ask :: "asking \<Rightarrow> nat \<Rightarrow> json option" where
  "listing_ask s off =
     reply_value (filesList (as_guest s) (as_env s) (as_tree s) (as_exec s)
       (ask_command (JObject [(''path'', JString (as_path s)), (''offset'', JNumber (Itoa (int off))),
          (''limit'', JNumber (Itoa (int (as_limit s)))), (''filter'', JString (as_filter s))])))"

lemma list_items_names:
  "list_all (\<lambda>v. valid_utf8 (fst v)) vs \<Longrightarrow> x \<in> set (list_items env flt vs) \<Longrightarrow> valid_utf8 (li_Name x)"
  by (induction env flt vs rule: list_items.induct) (auto simp: item_of_def split: node.splits if_splits)

lemma item_json_ok: "valid_utf8 (li_Name x) \<Longrightarrow> json_ok (item_json x)" "json_depth (item_json x) = 1"
  by (auto simp: item_json_def ascii_valid)

lemma listing_page:
  assumes "listing_ok s" and "off \<le> length (listing_whole s)"
  shows "\<exists>v n. listing_ask s off = Some v \<and> 0 < n \<and> page_items v = take n (drop off (listing_whole s))
    \<and> page_more v = (off + n < length (listing_whole s))"
proof -
  obtain p vs where p: "resolve (as_guest s) (as_tree s) (as_exec s) (as_path s) False = Inr p"
      "open_read (as_tree s) p = Some (Folder vs)" "list_all (\<lambda>v. valid_utf8 (fst v)) vs" "listing_entries s = Some vs"
    using assms(1) by (auto simp: listing_ok_def listing_entries_def split: sum.splits option.splits node.splits)
  let ?n = "as_limit s"
  obtain out where out: "sort_key li_Name (list_items (as_env s) (as_filter s) vs) = out" by blast
  let ?xs = "map item_json out"
  have whole: "listing_whole s = ?xs" using p(4) out by (simp add: listing_whole_def)
  have le: "off \<le> length out" using assms(2) whole by simp
  have ok: "valid_utf8 (as_path s)" "valid_utf8 (as_filter s)" "0 < ?n" "?n \<le> 1000" "in_int64 (int (length out))"
    using assms(1) whole by (auto simp: listing_ok_def)
  have "in_int64 (int off)" "in_int64 (int ?n)"
    using in_int64_le [OF ok(5) le] ok(4) by (simp_all add: in_int64_def)
  then have params: "decode_strict list_fields no_list_params (json_text (JObject [(''path'', JString (as_path s)),
      (''offset'', JNumber (Itoa (int off))), (''limit'', JNumber (Itoa (int ?n))), (''filter'', JString (as_filter s))]))
    = Some \<lparr>lp_Path = as_path s, lp_Offset = int off, lp_Limit = int ?n, lp_Filter = as_filter s\<rparr>"
    by (subst decode_strict_text)
       (use ok(1,2) in \<open>auto simp: list_fields_def find_field_def no_list_params_def ascii_valid Atoi_Itoa\<close>)
  have fin: "nat (min (int (length out)) (int off + int ?n)) = min (off + ?n) (length out)" by linarith
  have more: "(min (int (length out)) (int off + int ?n) < int (length out)) = (off + ?n < length out)" by linarith
  have cut: "(if int (length out) < int off then int (length out) else int off) = int off" using le by simp
  have slice: "map item_json (drop off (take (min (off + ?n) (length out)) out)) = take ?n (drop off ?xs)"
    by (simp add: drop_map take_map drop_take min_def)
  let ?v = "JObject [(''hasMore'', JBool (off + ?n < length out)), (''items'', JArray (take ?n (drop off ?xs))),
      (''limit'', JNumber (Itoa (int ?n))), (''offset'', JNumber (Itoa (int off))), (''total'', JNumber (Itoa (int (length out))))]"
  have "filesList (as_guest s) (as_env s) (as_tree s) (as_exec s)
      (ask_command (JObject [(''path'', JString (as_path s)), (''offset'', JNumber (Itoa (int off))),
         (''limit'', JNumber (Itoa (int ?n))), (''filter'', JString (as_filter s))])) = marshal ?v"
    unfolding filesList_def Let_def ask_params params
    using p(1,2) ok(3,4) assms(1) le
    by (simp add: out listing_ok_def calm_def fin more slice del: json_text.simps)
  moreover have "reply_value (marshal ?v) = Some ?v"
  proof (rule reply_value_marshal)
    have all: "list_all (\<lambda>v. json_ok v \<and> json_depth v = 1) ?xs"
      using list_items_names [OF p(3)] item_json_ok out by (auto simp: list_all_iff)
    then have part: "list_all (\<lambda>v. json_ok v \<and> json_depth v = 1) (take ?n (drop off ?xs))" by (rule list_all_take_drop)
    then have "items_depth (take ?n (drop off ?xs)) \<le> 1" by (intro items_depth_le) (simp add: list_all_iff)
    then show "json_depth ?v \<le> 10000" by simp
    have "items_ok (take ?n (drop off ?xs))" using part by (simp add: items_ok_iff list_all_iff)
    then show "json_ok ?v" by (auto simp: ascii_valid)
  qed
  ultimately show ?thesis
    using ok(3) whole by (auto simp: listing_ask_def page_items_def page_more_def member_def)
qed

interpretation listing: pager listing_ok listing_whole listing_ask page_items page_more
  by unfold_locales (rule listing_page)

section \<open>Asking for everything\<close>

lemma matching_spec:
  "sorted (map (\<lambda>x. ToLower low (search x)) (matching low search flt xs))
   \<and> mset (matching low search flt xs)
     = mset (filter (\<lambda>x. ToLower low flt = [] \<or> Contains (ToLower low (search x)) (ToLower low flt)) xs)"
  unfolding matching_def Let_def by (intro conjI sorted_sort_key mset_sort)


text \<open>The sample file, two bytes at a time.\<close>

definition sample_asking :: asking where
  "sample_asking = \<lparr>as_crypto = toy_crypto, as_low = id, as_guest = sample_guest, as_env = sample_env, as_tree = sample_tree,
     as_exec = sample_executor, as_path = abs_path [''shared'', ''a.txt''], as_filter = [], as_limit = 2\<rparr>"

lemma sample_reading: "reading_ok sample_asking" "reading_whole sample_asking = ''hello''"
proof -
  let ?ps = "[''shared'', ''a.txt'']"
  have good: "list_all good_part ?ps" using sample_parts by simp
  have folder: "is_folder (lookup sample_tree [''shared''])" by (simp add: sample_tree_def is_folder_def)
  have entry: "lookup sample_tree ?ps = Some (File ''hello'')" by (simp add: sample_tree_def)
  have path: "nul \<notin> set (abs_path ?ps)" "valid_utf8 (abs_path ?ps)" by (simp_all add: abs_path_def ascii_valid)
  have "resolve sample_guest sample_tree sample_executor (abs_path ?ps) False = Inr (abs_path ?ps)"
    by (rule resolve_real_path [OF sample_guest_ok good sample_approved path(1)])
       (use sample_parts folder entry in \<open>simp_all add: is_link_def\<close>)
  moreover have "open_read sample_tree (abs_path ?ps) = Some (File ''hello'')"
    using open_read_entry [of "[''shared'']" "''a.txt''"] good folder entry by simp
  ultimately show "reading_whole sample_asking = ''hello''" "reading_ok sample_asking"
    using path(2) sample_calm by (simp_all add: reading_ok_def reading_whole_def sample_asking_def MaxTransfer_def in_int64_def)
qed


end
