(* ===== verification/Broker_State.thy ===== *)
theory Broker_State imports Auth begin

text \<open>
  The state of the pairing broker (\<^verbatim>\<open>cmd/pairing-broker/main.go\<close>: \<^verbatim>\<open>pending\<close>,
  \<^verbatim>\<open>commandState\<close>, \<^verbatim>\<open>server\<close>) and its durable copy (\<^verbatim>\<open>cmd/pairing-broker/state.go\<close>:
  \<^verbatim>\<open>save\<close>, \<^verbatim>\<open>recoverState\<close>, \<^verbatim>\<open>openStateStore\<close>), with the audit log.

  The entries of \<^verbatim>\<open>server.p\<close> are pointers, and a handler keeps its pointer while the
  mutex is released, so the model has a heap: \<open>sv_p\<close> maps a request id to a reference,
  \<open>sv_heap\<close> a reference to the record.  An entry dropped from \<open>sv_p\<close> stays in the heap
  for the handlers that still hold it.
\<close>

section \<open>Sessions and commands\<close>

record commandState =
  cs_Command :: command
  cs_Fingerprint :: string
  cs_Status :: string
  cs_LeaseUntil :: time

record pending =
  p_Req :: pair_request
  p_Reply :: pair_reply
  p_TokenHash :: string
  p_PairingTokenHash :: string
  p_Queue :: "string list"
  p_Commands :: "string \<rightharpoonup> commandState"
  p_Results :: "result list"
  p_CreatedAt :: time

section \<open>The state file\<close>

text \<open>
  What \<^verbatim>\<open>json.Unmarshal\<close> can produce from the state file: an entry, its command map and
  each command may be null.
\<close>

record stored =
  st_Req :: pair_request
  st_Reply :: pair_reply
  st_TokenHash :: string
  st_PairingTokenHash :: string
  st_Queue :: "string list"
  st_Commands :: "(string \<rightharpoonup> commandState option) option"
  st_Results :: "result list"
  st_CreatedAt :: time

record persistentState =
  ps_Version :: int
  ps_Pending :: "(string \<rightharpoonup> stored option) option"

definition stateVersion :: int where "stateVersion = 1"

datatype state_file = Missing | Unreadable | Garbage | Parsed persistentState

datatype 'a outcome = Ok 'a | Err string | Panic

section \<open>Saving\<close>

definition stored_of :: "pending \<Rightarrow> stored" where
  "stored_of x =
     \<lparr>st_Req = p_Req x, st_Reply = (p_Reply x)\<lparr>r_SessionToken := []\<rparr>, st_TokenHash = p_TokenHash x,
      st_PairingTokenHash = p_PairingTokenHash x, st_Queue = p_Queue x,
      st_Commands = Some (map_values Some (p_Commands x)), st_Results = p_Results x,
      st_CreatedAt = p_CreatedAt x\<rparr>"

definition snapshot :: "(string \<rightharpoonup> pending) \<Rightarrow> persistentState" where
  "snapshot entries =
     \<lparr>ps_Version = stateVersion, ps_Pending = Some (map_values (\<lambda>x. Some (stored_of x)) entries)\<rparr>"

text \<open>
  The system calls of \<^verbatim>\<open>save\<close>, in order, over the state file and the temporary file next
  to it.  A call may fail (\<open>fault\<close>); a failing write may leave part of the data in the
  temporary file; the deferred \<^verbatim>\<open>os.Remove\<close> runs on every return once the temporary file
  exists.
\<close>

datatype save_stage = Encode | Mkdir | CreateTemp | Chmod | Write | Sync | Close | Rename

datatype temp_file = Empty | Partial | Full persistentState

record state_dir =
  sd_target :: state_file
  sd_temp :: "temp_file option"

datatype save_op = Done save_stage | Failed_write | Sync_dir | Remove_temp

fun exec_op :: "persistentState \<Rightarrow> save_op \<Rightarrow> state_dir \<Rightarrow> state_dir" where
  "exec_op snap (Done CreateTemp) d = d\<lparr>sd_temp := Some Empty\<rparr>"
| "exec_op snap (Done Write) d = d\<lparr>sd_temp := Some (Full snap)\<rparr>"
| "exec_op snap (Done Rename) d =
     (case sd_temp d of Some (Full x) \<Rightarrow> d\<lparr>sd_target := Parsed x, sd_temp := None\<rparr>
      | Some _ \<Rightarrow> d\<lparr>sd_target := Garbage, sd_temp := None\<rparr>
      | None \<Rightarrow> d)"
| "exec_op snap Failed_write d = d\<lparr>sd_temp := Some Partial\<rparr>"
| "exec_op snap Remove_temp d = d\<lparr>sd_temp := None\<rparr>"
| "exec_op snap _ d = d"

definition save_stages :: "save_stage list" where
  "save_stages = [Encode, Mkdir, CreateTemp, Chmod, Write, Sync, Close, Rename]"

definition save_ops :: "save_stage option \<Rightarrow> save_op list" where
  "save_ops fault =
     (case fault of
        None \<Rightarrow> map Done save_stages @ [Sync_dir, Remove_temp]
      | Some f \<Rightarrow>
          let done = takeWhile (\<lambda>g. g \<noteq> f) save_stages
          in map Done done @ (if f = Write then [Failed_write] else [])
             @ (if CreateTemp \<in> set done then [Remove_temp] else []))"

fun exec_trace :: "persistentState \<Rightarrow> save_op list \<Rightarrow> state_dir \<Rightarrow> state_dir list" where
  "exec_trace snap [] d = [d]"
| "exec_trace snap (x # xs) d = d # exec_trace snap xs (exec_op snap x d)"

fun stage_error :: "save_stage \<Rightarrow> string" where
  "stage_error Encode = ''encode broker state''"
| "stage_error Mkdir = ''create broker state directory''"
| "stage_error CreateTemp = ''create broker state temp file''"
| "stage_error Chmod = ''chmod''"
| "stage_error Write = ''write broker state''"
| "stage_error Sync = ''sync broker state''"
| "stage_error Close = ''close broker state''"
| "stage_error Rename = ''publish broker state''"

text \<open>
  The store is \<open>None\<close> for a nil \<^verbatim>\<open>*stateStore\<close>, otherwise its path.
\<close>

definition save :: "string option \<Rightarrow> save_stage option \<Rightarrow> (string \<rightharpoonup> pending) \<Rightarrow> state_file
    \<Rightarrow> string option \<times> state_file" where
  "save store fault entries file =
     (if store = None \<or> store = Some [] then (None, file)
      else (map_option stage_error fault,
            sd_target (last (exec_trace (snapshot entries) (save_ops fault)
              \<lparr>sd_target = file, sd_temp = None\<rparr>))))"

section \<open>Recovery\<close>

definition release_lease :: "commandState \<Rightarrow> commandState" where
  "release_lease st =
     (if cs_Status st = ''leased'' then st\<lparr>cs_Status := ''queued'', cs_LeaseUntil := zero_time\<rparr> else st)"

fun recover_queue :: "(string \<rightharpoonup> commandState option) \<Rightarrow> string list \<Rightarrow> string list \<Rightarrow> string list" where
  "recover_queue cmds [] queued = queued"
| "recover_queue cmds (i # is) queued =
     (case cmds i of
        Some (Some st) \<Rightarrow>
          if cs_Status st = ''queued'' \<and> i \<notin> set queued then recover_queue cmds is (queued @ [i])
          else recover_queue cmds is queued
      | _ \<Rightarrow> recover_queue cmds is queued)"

text \<open>
  The second loop visits the commands in some order and dereferences each of them: a null
  command is a nil dereference.
\<close>

fun recover_commands :: "string list \<Rightarrow> (string \<rightharpoonup> commandState option) \<Rightarrow> string list
    \<Rightarrow> string list \<Rightarrow> ((string \<rightharpoonup> commandState option) \<times> string list) outcome" where
  "recover_commands already cmds [] queued = Ok (cmds, queued)"
| "recover_commands already cmds (k # ks) queued =
     (case cmds k of
        None \<Rightarrow> recover_commands already cmds ks queued
      | Some None \<Rightarrow> Panic
      | Some (Some st) \<Rightarrow>
          let st = release_lease st
          in recover_commands already (cmds(k \<mapsto> Some st)) ks
               (if cs_Status st = ''queued'' \<and> k \<notin> set already then queued @ [k] else queued))"

definition entry_expired :: "time \<Rightarrow> stored \<Rightarrow> bool" where
  "entry_expired now x \<longleftrightarrow>
     (r_Status (st_Reply x) = ''pending'' \<and> now - st_CreatedAt x > 10 * minute)
     \<or> (r_Status (st_Reply x) = ''revoked''
        \<or> (\<not> IsZero (r_ExpiresAt (st_Reply x)) \<and> \<not> now < r_ExpiresAt (st_Reply x)))"

text \<open>One entry: \<open>Ok None\<close> when it is deleted.\<close>

definition recover_entry :: "time \<Rightarrow> string list \<Rightarrow> stored option \<Rightarrow> pending option outcome" where
  "recover_entry now ks item =
     (case item of
        None \<Rightarrow> Ok None
      | Some x \<Rightarrow>
          (case st_Commands x of
             None \<Rightarrow> Ok None
           | Some cmds \<Rightarrow>
               if entry_expired now x then Ok None
               else
                 let already = recover_queue cmds (st_Queue x) []
                 in (case recover_commands already cmds ks already of
                       Ok (cmds', queued) \<Rightarrow>
                         Ok (Some \<lparr>p_Req = st_Req x, p_Reply = (st_Reply x)\<lparr>r_SessionToken := []\<rparr>,
                                   p_TokenHash = st_TokenHash x,
                                   p_PairingTokenHash = st_PairingTokenHash x,
                                   p_Queue = queued, p_Commands = (\<lambda>k. Option.bind (cmds' k) (\<lambda>c. c)),
                                   p_Results = st_Results x, p_CreatedAt = st_CreatedAt x\<rparr>)
                     | Err m \<Rightarrow> Err m
                     | Panic \<Rightarrow> Panic)))"

text \<open>
  The entries are independent of each other, so the loop over them is pointwise; \<open>ids\<close>
  lists them and \<open>ord id\<close> is the order in which the commands of entry \<open>id\<close> are visited.
\<close>

definition recoverState :: "time \<Rightarrow> string list \<Rightarrow> (string \<Rightarrow> string list)
    \<Rightarrow> (string \<rightharpoonup> stored option) \<Rightarrow> (string \<rightharpoonup> pending) outcome" where
  "recoverState now ids ord entries =
     (let entry = (\<lambda>id. case entries id of None \<Rightarrow> Ok None | Some item \<Rightarrow> recover_entry now (ord id) item)
      in if list_ex (\<lambda>id. entry id = Panic) ids then Panic
         else Ok (\<lambda>id. case entry id of Ok x \<Rightarrow> x | _ \<Rightarrow> None))"

definition openStateStore :: "string \<Rightarrow> time \<Rightarrow> string list \<Rightarrow> (string \<Rightarrow> string list) \<Rightarrow> state_file
    \<Rightarrow> (string option \<times> (string \<rightharpoonup> pending)) outcome" where
  "openStateStore path now ids ord file =
     (case file of
        Missing \<Rightarrow> Ok (Some path, Map.empty)
      | Unreadable \<Rightarrow> Err ''read broker state''
      | Garbage \<Rightarrow> Err ''parse broker state''
      | Parsed disk \<Rightarrow>
          if ps_Version disk \<noteq> stateVersion then Err ''unsupported broker state version''
          else (case ps_Pending disk of
                  None \<Rightarrow> Err ''unsupported broker state version''
                | Some entries \<Rightarrow>
                    (case recoverState now ids ord entries of
                       Ok m \<Rightarrow> Ok (Some path, m)
                     | Err m \<Rightarrow> Err m
                     | Panic \<Rightarrow> Panic)))"

section \<open>The contract of a journal\<close>

text \<open>
  What the handlers rely on when they save: a write that reports success has replaced the
  content by the encoding of what was written, and a write that reports an error has left
  the old content.  Whatever the history, the content is then the initial one or the
  encoding of the last successfully written value.
\<close>

locale journal =
  fixes commit :: "'f option \<Rightarrow> 'm \<Rightarrow> 'd \<Rightarrow> 'e option \<times> 'd" and content :: "'d \<Rightarrow> 'c" and enc :: "'m \<Rightarrow> 'c"
  assumes commit_ok: "fst (commit None m d) = None \<and> content (snd (commit None m d)) = enc m"
    and commit_fail: "fst (commit (Some f) m d) \<noteq> None \<and> content (snd (commit (Some f) m d)) = content d"
begin

lemma commit_reports: "fst (commit f m d) = None \<longleftrightarrow> f = None"
  using commit_ok [of m d] commit_fail [of "the f" m d] by (cases f) auto

lemma commit_content: "content (snd (commit f m d)) = (if fst (commit f m d) = None then enc m else content d)"
  using commit_ok [of m d] commit_fail [of "the f" m d] by (cases f) auto

lemma history_content:
  "content (fold (\<lambda>(f, m) d. snd (commit f m d)) ws d) \<in> insert (content d) (enc ` snd ` set ws)"
proof (induction ws arbitrary: d)
  case (Cons w ws)
  obtain f m where w: "w = (f, m)" by (cases w)
  have "content (snd (commit f m d)) \<in> {content d, enc m}"
    by (simp add: commit_content)
  then show ?case
    using Cons [of "snd (commit f m d)"] by (auto simp: w)
qed simp

end

section \<open>Saving is atomic\<close>

lemma save_result:
  assumes "store \<noteq> None" and "store \<noteq> Some []"
  shows "save store fault entries file =
    (map_option stage_error fault, if fault = None then Parsed (snapshot entries) else file)"
proof -
  obtain path where path: "store = Some path" "path \<noteq> []"
    using assms by (cases store) auto
  show ?thesis
  proof (cases fault)
    case (Some f)
    then show ?thesis using path by (cases f) (simp_all add: save_def save_ops_def save_stages_def)
  qed (simp add: path save_def save_ops_def save_stages_def)
qed

lemma save_no_store: "store = None \<or> store = Some [] \<Longrightarrow> save store fault entries file = (None, file)"
  by (simp add: save_def)

lemma save_disk: "snd (save store fault entries file) \<in> {file, Parsed (snapshot entries)}"
proof (cases "store = None \<or> store = Some []")
  case False
  then show ?thesis by (simp add: save_result)
qed (simp add: save_no_store)

interpretation state_journal: journal "save (Some (c # path))" "\<lambda>file. file" "\<lambda>entries. Parsed (snapshot entries)"
  by unfold_locales (simp_all add: save_result)

text \<open>C9 The state file is replaced atomically.  Whichever system call of \<^verbatim>\<open>save\<close> fails, and
  wherever a crash cuts the sequence of calls, the state file is either the old one or the
  complete new snapshot, never a partial one; and when the call returns, the temporary file
  is gone.\<close>

theorem save_is_atomic:
  assumes "d \<in> set (exec_trace (snapshot entries) (save_ops fault) \<lparr>sd_target = file, sd_temp = None\<rparr>)"
  shows "(sd_target d = file \<or> sd_target d = Parsed (snapshot entries))
    \<and> sd_temp (last (exec_trace (snapshot entries) (save_ops fault)
          \<lparr>sd_target = file, sd_temp = None\<rparr>)) = None"
proof (cases fault)
  case None
  then show ?thesis using assms by (auto simp: save_ops_def save_stages_def)
next
  case (Some f)
  then show ?thesis using assms by (cases f) (auto simp: save_ops_def save_stages_def)
qed

theorem save_is_atomic_witness:
  "sd_temp (last (exec_trace (snapshot Map.empty) (save_ops (Some Write))
     \<lparr>sd_target = Garbage, sd_temp = None\<rparr>)) = None"
proof -
  have "\<lparr>sd_target = Garbage, sd_temp = Some Partial\<rparr> \<in> set (exec_trace (snapshot Map.empty)
      (save_ops (Some Write)) \<lparr>sd_target = Garbage, sd_temp = None\<rparr>)"
    by (simp add: save_ops_def save_stages_def)
  from save_is_atomic [OF this] show ?thesis by blast
qed

section \<open>What recovery does to one entry\<close>

lemma release_lease_simps [simp]:
  "cs_Command (release_lease st) = cs_Command st"
  "cs_Fingerprint (release_lease st) = cs_Fingerprint st"
  "cs_Status (release_lease st) = (if cs_Status st = ''leased'' then ''queued'' else cs_Status st)"
  by (simp_all add: release_lease_def)

definition queued_in :: "(string \<rightharpoonup> commandState option) \<Rightarrow> string \<Rightarrow> bool" where
  "queued_in cmds k = (case cmds k of Some (Some st) \<Rightarrow> cs_Status st = ''queued'' | _ \<Rightarrow> False)"

lemma recover_queue_Cons:
  "recover_queue cmds (i # is) queued =
     recover_queue cmds is (if queued_in cmds i \<and> i \<notin> set queued then queued @ [i] else queued)"
  by (simp add: queued_in_def split: option.split)

lemma recover_queue_set:
  "set (recover_queue cmds is queued) = set queued \<union> {i \<in> set is. queued_in cmds i}"
  by (induction "is" arbitrary: queued) (auto simp: recover_queue_Cons simp del: recover_queue.simps(2))

lemma recover_queue_distinct: "distinct queued \<Longrightarrow> distinct (recover_queue cmds is queued)"
  by (induction "is" arbitrary: queued) (simp_all add: recover_queue_Cons del: recover_queue.simps(2))

lemma recover_queue_order:
  "distinct is \<Longrightarrow> set is \<inter> set queued = {} \<Longrightarrow>
   recover_queue cmds is queued = queued @ filter (queued_in cmds) is"
  by (induction "is" arbitrary: queued) (auto simp: recover_queue_Cons simp del: recover_queue.simps(2))

definition pending_in :: "(string \<rightharpoonup> commandState option) \<Rightarrow> string \<Rightarrow> bool" where
  "pending_in cmds k =
     (case cmds k of Some (Some st) \<Rightarrow> cs_Status st = ''queued'' \<or> cs_Status st = ''leased'' | _ \<Rightarrow> False)"

lemma recover_commands_ok:
  assumes "distinct ks" and "\<And>k. k \<in> set ks \<Longrightarrow> cmds k \<noteq> Some None"
  shows "recover_commands already cmds ks queued =
    Ok (\<lambda>k. if k \<in> set ks then map_option (map_option release_lease) (cmds k) else cmds k,
        queued @ filter (\<lambda>k. pending_in cmds k \<and> k \<notin> set already) ks)"
  using assms
proof (induction ks arbitrary: cmds queued)
  case (Cons k ks)
  show ?case
  proof (cases "cmds k")
    case None
    then show ?thesis using Cons by (auto simp: fun_eq_iff pending_in_def)
  next
    case (Some c)
    then obtain st where c: "cmds k = Some (Some st)"
      using Cons.prems(2) [of k] by (cases c) auto
    let ?cmds = "cmds(k \<mapsto> Some (release_lease st))"
    have "filter (\<lambda>k. pending_in ?cmds k \<and> k \<notin> set already) ks
        = filter (\<lambda>k. pending_in cmds k \<and> k \<notin> set already) ks"
      using Cons.prems(1) by (intro filter_cong) (auto simp: pending_in_def)
    moreover have "(\<lambda>k'. if k' \<in> set ks then map_option (map_option release_lease) (?cmds k') else ?cmds k')
        = (\<lambda>k'. if k' \<in> set (k # ks) then map_option (map_option release_lease) (cmds k') else cmds k')"
      using Cons.prems(1) c by (auto simp: fun_eq_iff)
    moreover have "\<And>k'. k' \<in> set ks \<Longrightarrow> ?cmds k' \<noteq> Some None"
      using Cons.prems by auto
    ultimately show ?thesis
      using Cons.IH [of ?cmds] Cons.prems(1) c
      by (simp add: Let_def pending_in_def del: fun_upd_apply)
  qed
qed simp

lemma recover_commands_panic:
  "k \<in> set ks \<Longrightarrow> cmds k = Some None \<Longrightarrow> recover_commands already cmds ks queued = Panic"
proof (induction ks arbitrary: cmds queued)
  case (Cons a ks)
  show ?case
  proof (cases "k = a")
    case False
    then show ?thesis
      using Cons by (auto simp: Let_def split: option.split)
  qed (use Cons.prems in simp)
qed simp

section \<open>Recovery of a saved state\<close>

lemma stored_of_simps [simp]:
  "st_Req (stored_of x) = p_Req x"
  "st_Reply (stored_of x) = (p_Reply x)\<lparr>r_SessionToken := []\<rparr>"
  "st_TokenHash (stored_of x) = p_TokenHash x"
  "st_PairingTokenHash (stored_of x) = p_PairingTokenHash x"
  "st_Queue (stored_of x) = p_Queue x"
  "st_Commands (stored_of x) = Some (map_values Some (p_Commands x))"
  "st_Results (stored_of x) = p_Results x"
  "st_CreatedAt (stored_of x) = p_CreatedAt x"
  by (simp_all add: stored_of_def)

text \<open>
  What \<open>save\<close> writes, \<open>recoverState\<close> reads back: the entries that have not expired,
  with the clear token erased, the leases released, and the queue rebuilt.
\<close>

definition pending_expired :: "time \<Rightarrow> pending \<Rightarrow> bool" where
  "pending_expired now x \<longleftrightarrow> entry_expired now (stored_of x)"

definition recovered_queue :: "string list \<Rightarrow> pending \<Rightarrow> string list" where
  "recovered_queue ks x =
     (let cmds = map_values Some (p_Commands x); already = recover_queue cmds (p_Queue x) []
      in already @ filter (\<lambda>k. pending_in cmds k \<and> k \<notin> set already) ks)"

definition recovered :: "string list \<Rightarrow> pending \<Rightarrow> pending" where
  "recovered ks x = x\<lparr>p_Reply := (p_Reply x)\<lparr>r_SessionToken := []\<rparr>, p_Queue := recovered_queue ks x,
     p_Commands := map_values release_lease (p_Commands x)\<rparr>"

lemma recover_entry_stored:
  assumes "range_order ks (p_Commands x)"
  shows "recover_entry now ks (Some (stored_of x)) =
    Ok (if pending_expired now x then None else Some (recovered ks x))"
proof (cases "pending_expired now x")
  case True
  then show ?thesis
    by (simp add: recover_entry_def pending_expired_def)
next
  case False
  let ?cmds = "map_values Some (p_Commands x)"
  have ks: "distinct ks" "\<And>k. k \<in> set ks \<longleftrightarrow> p_Commands x k \<noteq> None"
    using assms range_order_mem [OF assms] by (auto simp: range_order_def)
  have loop: "recover_commands already ?cmds ks queued =
    Ok (\<lambda>k. if k \<in> set ks then map_option (map_option release_lease) (?cmds k) else ?cmds k,
        queued @ filter (\<lambda>k. pending_in ?cmds k \<and> k \<notin> set already) ks)" for already queued
    by (rule recover_commands_ok [OF ks(1)]) simp
  have cmds: "(\<lambda>k. Option.bind (if k \<in> set ks then map_option (map_option release_lease) (?cmds k) else ?cmds k)
      (\<lambda>c. c)) = map_values release_lease (p_Commands x)"
    by (auto simp: fun_eq_iff ks(2) map_values_def option.map_comp comp_def split: option.split)
  show ?thesis
    using False
    by (simp add: recover_entry_def pending_expired_def loop cmds Let_def recovered_def recovered_queue_def)
qed

lemma map_values_Some_in:
  "queued_in (map_values Some m) k \<longleftrightarrow> (\<exists>st. m k = Some st \<and> cs_Status st = ''queued'')"
  "pending_in (map_values Some m) k \<longleftrightarrow>
     (\<exists>st. m k = Some st \<and> (cs_Status st = ''queued'' \<or> cs_Status st = ''leased''))"
  by (auto simp: queued_in_def pending_in_def map_values_def split: option.splits)

definition waiting :: "pending \<Rightarrow> string \<Rightarrow> bool" where
  "waiting x k \<longleftrightarrow>
     (\<exists>st. p_Commands x k = Some st \<and> (cs_Status st = ''queued'' \<or> cs_Status st = ''leased''))"


text \<open>A session with one command in each state, for the witnesses.\<close>

definition sample_command :: "string \<Rightarrow> command" where
  "sample_command cid = \<lparr>c_ID = cid, c_Name = ''system.info'', c_Deadline = zero_time, c_Params = []\<rparr>"

definition sample_state :: "string \<Rightarrow> string \<Rightarrow> commandState" where
  "sample_state cid status =
     \<lparr>cs_Command = sample_command cid, cs_Fingerprint = [], cs_Status = status, cs_LeaseUntil = zero_time\<rparr>"

definition sample_pending :: pending where
  "sample_pending =
     \<lparr>p_Req = sample_request,
      p_Reply = \<lparr>r_RequestID = ''id'', r_Status = ''approved'', r_CompareCode = [], r_PairingToken = [],
                 r_Error = [], r_SessionToken = ''clear'', r_ExpiresAt = 1000 * minute\<rparr>,
      p_TokenHash = ''hash'', p_PairingTokenHash = ''pairing'', p_Queue = [''q''],
      p_Commands = [''q'' \<mapsto> sample_state ''q'' ''queued'', ''l'' \<mapsto> sample_state ''l'' ''leased'',
                    ''r'' \<mapsto> sample_state ''r'' ''running''],
      p_Results = [], p_CreatedAt = 0\<rparr>"

lemma sample_order: "range_order [''r'', ''l'', ''q''] (p_Commands sample_pending)"
  by (auto simp: range_order_def sample_pending_def)


lemma recovered_commands:
  "p_Commands (recovered ks x) k = map_option release_lease (p_Commands x k)"
  by (simp add: recovered_def map_values_def)

lemma recovered_simps [simp]:
  "p_Req (recovered ks x) = p_Req x"
  "p_Reply (recovered ks x) = (p_Reply x)\<lparr>r_SessionToken := []\<rparr>"
  "p_TokenHash (recovered ks x) = p_TokenHash x"
  "p_PairingTokenHash (recovered ks x) = p_PairingTokenHash x"
  "p_Queue (recovered ks x) = recovered_queue ks x"
  "p_Results (recovered ks x) = p_Results x"
  "p_CreatedAt (recovered ks x) = p_CreatedAt x"
  by (simp_all add: recovered_def)

definition restart :: "time \<Rightarrow> (string \<Rightarrow> string list) \<Rightarrow> (string \<rightharpoonup> pending) \<Rightarrow> (string \<rightharpoonup> pending)" where
  "restart now ord entries =
     (\<lambda>id. case entries id of
        None \<Rightarrow> None
      | Some x \<Rightarrow> if pending_expired now x then None else Some (recovered (ord id) x))"

lemma recoverState_snapshot:
  assumes "\<And>id x. entries id = Some x \<Longrightarrow> range_order (ord id) (p_Commands x)"
  shows "recoverState now ids ord (map_values (\<lambda>x. Some (stored_of x)) entries) = Ok (restart now ord entries)"
proof -
  have entry: "(case map_values (\<lambda>x. Some (stored_of x)) entries id of
      None \<Rightarrow> Ok None | Some item \<Rightarrow> recover_entry now (ord id) item) = Ok (restart now ord entries id)" for id
  proof (cases "entries id")
    case (Some x)
    then show ?thesis
      using recover_entry_stored [OF assms [OF Some]]
      by (simp add: restart_def map_values_def)
  qed (simp add: restart_def map_values_def)
  show ?thesis
    unfolding recoverState_def Let_def entry by (simp add: list_ex_iff)
qed



text \<open>A null command in the state file crashes the broker at start: the loop over the
  queue checks for a nil command, the loop over the commands does not, so opening such a
  file panics instead of reporting an error, for every session that has not expired.\<close>

theorem null_command_panics:
  assumes "entries rid = Some (Some x)" and "st_Commands x = Some cmds" and "cmds k = Some None"
    and "\<not> entry_expired now x" and "k \<in> set (ord rid)" and "rid \<in> set ids"
  shows "openStateStore path now ids ord (Parsed \<lparr>ps_Version = stateVersion, ps_Pending = Some entries\<rparr>) = Panic"
proof -
  have "recover_entry now (ord rid) (Some x) = Panic"
    using assms recover_commands_panic [of k "ord rid" cmds] by (simp add: recover_entry_def Let_def)
  then have "recoverState now ids ord entries = Panic"
    using assms(1,6) by (auto simp: recoverState_def Let_def list_ex_iff intro!: bexI [of _ rid])
  then show ?thesis by (simp add: openStateStore_def)
qed

theorem null_command_panics_witness:
  "openStateStore ''state.json'' 0 [''id''] (\<lambda>_. [''k''])
     (Parsed \<lparr>ps_Version = stateVersion,
       ps_Pending = Some [''id'' \<mapsto> Some ((stored_of sample_pending)\<lparr>st_Commands := Some [''k'' \<mapsto> None]\<rparr>)]\<rparr>)
   = Panic"
  by (rule null_command_panics [where rid = "''id''" and k = "''k''" and cmds = "[''k'' \<mapsto> None]"
        and x = "(stored_of sample_pending)\<lparr>st_Commands := Some [''k'' \<mapsto> None]\<rparr>"])
     (simp_all add: entry_expired_def stored_of_def sample_pending_def IsZero_def)

end
