(* ===== verification/Broker_Server.thy ===== *)
theory Broker_Server imports Broker_State begin

text \<open>
  The broker as a state: the \<^verbatim>\<open>server\<close> record with its heap, the audit log
  (\<^verbatim>\<open>internal/audit/audit.go\<close>), HTTP requests and responses, and the access functions
  every handler uses: finding the record of a request id, storing it back, saving.
  Decoding a JSON body (\<^verbatim>\<open>limitedJSON\<close>, \<^verbatim>\<open>limitedJSONN\<close>) is its size and the decoded
  value, absent when the text is not valid for the type.
\<close>

section \<open>Audit log\<close>

datatype audit_value = AString string | AInt int | ATime time

type_synonym audit_event = "string \<rightharpoonup> audit_value"

definition Event :: "time \<Rightarrow> string \<Rightarrow> (string \<rightharpoonup> audit_value) \<Rightarrow> audit_event list \<Rightarrow> audit_event list" where
  "Event now kind fs log = log @ [fs(''at'' \<mapsto> ATime now, ''event'' \<mapsto> AString kind)]"

section \<open>The server\<close>

record server =
  sv_p :: "string \<rightharpoonup> nat"
  sv_heap :: "nat \<rightharpoonup> pending"
  sv_next :: nat
  sv_admin :: string
  sv_seen :: "string \<rightharpoonup> time"
  sv_rates :: "string \<Rightarrow> time list"
  sv_store :: "string option"
  sv_disk :: state_file
  sv_audit :: "audit_event list"

definition find_ref :: "server \<Rightarrow> string \<Rightarrow> (nat \<times> pending) option" where
  "find_ref s rid =
     (case sv_p s rid of
        None \<Rightarrow> None
      | Some r \<Rightarrow> (case sv_heap s r of None \<Rightarrow> None | Some x \<Rightarrow> Some (r, x)))"

definition entries :: "server \<Rightarrow> (string \<rightharpoonup> pending)" where
  "entries s = (\<lambda>rid. map_option snd (find_ref s rid))"

definition put :: "nat \<Rightarrow> pending \<Rightarrow> server \<Rightarrow> server" where
  "put r x s = s\<lparr>sv_heap := (sv_heap s)(r \<mapsto> x)\<rparr>"

text \<open>\<^verbatim>\<open>s.p[id] = &pending{...}\<close>: a fresh reference.\<close>

definition insert_pending :: "string \<Rightarrow> pending \<Rightarrow> server \<Rightarrow> server" where
  "insert_pending rid x s =
     s\<lparr>sv_p := (sv_p s)(rid \<mapsto> sv_next s), sv_heap := (sv_heap s)(sv_next s \<mapsto> x), sv_next := Suc (sv_next s)\<rparr>"

definition delete_pending :: "string \<Rightarrow> server \<Rightarrow> server" where
  "delete_pending rid s = s\<lparr>sv_p := delete rid (sv_p s)\<rparr>"

definition save_state :: "save_stage option \<Rightarrow> server \<Rightarrow> string option \<times> server" where
  "save_state fault s =
     (case save (sv_store s) fault (entries s) (sv_disk s) of (e, d) \<Rightarrow> (e, s\<lparr>sv_disk := d\<rparr>))"

definition log_event :: "time \<Rightarrow> string \<Rightarrow> (string \<rightharpoonup> audit_value) \<Rightarrow> server \<Rightarrow> server" where
  "log_event now kind fs s = s\<lparr>sv_audit := Event now kind fs (sv_audit s)\<rparr>"

section \<open>Requests and responses\<close>

record 'a body =
  bd_size :: nat
  bd_value :: "'a option"

definition limitedJSONN :: "nat \<Rightarrow> 'a body \<Rightarrow> 'a option" where
  "limitedJSONN limit b = (if bd_size b \<le> limit then bd_value b else None)"

definition limitedJSON :: "'a body \<Rightarrow> 'a option" where
  "limitedJSON = limitedJSONN (64 * 1024)"

record pending_view =
  pv_RequestID :: string
  pv_USBID :: string
  pv_Hostname :: string
  pv_OS :: string
  pv_Arch :: string
  pv_User :: string
  pv_Requested :: "string list"
  pv_DurationSeconds :: int
  pv_CompareCode :: string
  pv_CreatedAt :: time

record session_view =
  vw_RequestID :: string
  vw_Status :: string
  vw_Trust :: string
  vw_USBID :: string
  vw_Hostname :: string
  vw_OS :: string
  vw_Arch :: string
  vw_User :: string
  vw_Requested :: "string list"
  vw_CreatedAt :: time
  vw_ExpiresAt :: time
  vw_QueueDepth :: nat
  vw_ResultCount :: nat
  vw_CommandStatuses :: "string \<rightharpoonup> nat"

record agent_view =
  av_ID :: string
  av_Name :: string
  av_Trust :: string
  av_StartedAt :: time
  av_FinishedAt :: time
  av_Output :: string
  av_Error :: string
  av_OutputBytes :: nat
  av_OutputSHA256 :: string
  av_OutputTruncated :: bool

record envelope =
  en_trust :: string
  en_notice :: string
  en_totalOutputBytes :: nat
  en_totalOutputLimitBytes :: nat
  en_results :: "agent_view list"

datatype reply_body =
    Null
  | ErrorBody string
  | UpgradeBody string int int
  | PairBody pair_reply
  | ApprovedBody string int time
  | StatusBody string
  | RejectedBody string
  | CommandStatus string string bool
  | CommandError string string
  | QueueFull nat nat
  | Queued string nat nat
  | PendingList "pending_view list"
  | SessionList "session_view list"
  | ResultList "result list"
  | AgentEnvelope envelope
  | CommandBody command
  | NoContent

record response =
  resp_code :: nat
  resp_headers :: "(string \<times> string) list"
  resp_body :: reply_body

definition respond :: "nat \<Rightarrow> reply_body \<Rightarrow> response" where
  "respond code b = \<lparr>resp_code = code, resp_headers = [(''Content-Type'', ''application/json'')], resp_body = b\<rparr>"

definition respond_with :: "string \<times> string \<Rightarrow> nat \<Rightarrow> reply_body \<Rightarrow> response" where
  "respond_with h code b = (respond code b)\<lparr>resp_headers := [h, (''Content-Type'', ''application/json'')]\<rparr>"

definition isAdmin :: "server \<Rightarrow> string \<Rightarrow> bool" where
  "isAdmin s authorization \<longleftrightarrow> authorization = ''Bearer '' @ sv_admin s"

definition bearer :: "string \<Rightarrow> string" where
  "bearer authorization = TrimPrefix authorization ''Bearer ''"

fun contains :: "string list \<Rightarrow> string \<Rightarrow> bool" where
  "contains [] s = False"
| "contains (x # v) s = (x = s \<or> contains v s)"

lemma contains_iff [simp]: "contains v s \<longleftrightarrow> s \<in> set v"
  by (induction v) auto

section \<open>Well-formed servers\<close>

text \<open>
  Every entry of \<open>sv_p\<close> refers to an allocated record, two entries never to the same
  one, a record carries the id it is stored under, and references are allocated in order.
\<close>

definition heap_ok :: "server \<Rightarrow> bool" where
  "heap_ok s \<longleftrightarrow>
     (\<forall>rid r. sv_p s rid = Some r \<longrightarrow> (\<exists>x. sv_heap s r = Some x \<and> r_RequestID (p_Reply x) = rid))
     \<and> (\<forall>r x. sv_heap s r = Some x \<longrightarrow> r < sv_next s)"

lemma find_ref_Some:
  "find_ref s rid = Some (r, x) \<longleftrightarrow> sv_p s rid = Some r \<and> sv_heap s r = Some x"
  by (auto simp: find_ref_def split: option.splits)

lemma heap_okD:
  assumes "heap_ok s" and "sv_p s rid = Some r"
  obtains x where "sv_heap s r = Some x" and "r_RequestID (p_Reply x) = rid"
  using assms unfolding heap_ok_def by blast

lemma heap_ok_bound: "heap_ok s \<Longrightarrow> sv_heap s r = Some x \<Longrightarrow> r < sv_next s"
  by (simp add: heap_ok_def)

lemma find_ref_None: "heap_ok s \<Longrightarrow> find_ref s rid = None \<longleftrightarrow> sv_p s rid = None"
  by (auto simp: find_ref_def split: option.splits elim: heap_okD)

lemma entries_Some: "entries s rid = Some x \<longleftrightarrow> (\<exists>r. sv_p s rid = Some r \<and> sv_heap s r = Some x)"
  by (auto simp: entries_def find_ref_def split: option.splits)

lemma heap_ok_inj: "heap_ok s \<Longrightarrow> sv_p s i = Some r \<Longrightarrow> sv_p s j = Some r \<Longrightarrow> i = j"
  by (metis heap_okD option.inject)

lemma entries_put:
  assumes "heap_ok s" and "sv_p s rid = Some r"
  shows "entries (put r x s) = (entries s)(rid \<mapsto> x)"
proof
  fix i
  show "entries (put r x s) i = ((entries s)(rid \<mapsto> x)) i"
  proof (cases "i = rid")
    case True
    then show ?thesis using assms by (simp add: entries_def find_ref_def put_def)
  next
    case False
    then have "sv_p s i \<noteq> Some r" using heap_ok_inj [OF assms(1)] assms(2) by blast
    then show ?thesis
      using False by (auto simp: entries_def find_ref_def put_def split: option.split)
  qed
qed

lemma entries_put_unlisted:
  "(\<forall>rid. sv_p s rid \<noteq> Some r) \<Longrightarrow> entries (put r x s) = entries s"
  by (auto simp: entries_def find_ref_def put_def fun_eq_iff split: option.split)

lemma put_frame [simp, frame_simps]:
  "sv_p (put r x s) = sv_p s" "sv_next (put r x s) = sv_next s" "sv_admin (put r x s) = sv_admin s"
  "sv_seen (put r x s) = sv_seen s" "sv_rates (put r x s) = sv_rates s"
  "sv_store (put r x s) = sv_store s" "sv_disk (put r x s) = sv_disk s" "sv_audit (put r x s) = sv_audit s"
  "sv_heap (put r x s) = (sv_heap s)(r \<mapsto> x)"
  by (simp_all add: put_def)

lemma save_state_frame [simp, frame_simps]:
  "sv_p (snd (save_state f s)) = sv_p s" "sv_heap (snd (save_state f s)) = sv_heap s"
  "sv_next (snd (save_state f s)) = sv_next s" "sv_admin (snd (save_state f s)) = sv_admin s"
  "sv_seen (snd (save_state f s)) = sv_seen s" "sv_rates (snd (save_state f s)) = sv_rates s"
  "sv_store (snd (save_state f s)) = sv_store s" "sv_audit (snd (save_state f s)) = sv_audit s"
  by (simp_all add: save_state_def case_prod_unfold)

lemma log_event_frame [simp, frame_simps]:
  "sv_p (log_event t k f s) = sv_p s" "sv_heap (log_event t k f s) = sv_heap s"
  "sv_next (log_event t k f s) = sv_next s" "sv_admin (log_event t k f s) = sv_admin s"
  "sv_seen (log_event t k f s) = sv_seen s" "sv_rates (log_event t k f s) = sv_rates s"
  "sv_store (log_event t k f s) = sv_store s" "sv_disk (log_event t k f s) = sv_disk s"
  by (simp_all add: log_event_def)

lemma entries_cong:
  "sv_p s = sv_p t \<Longrightarrow> sv_heap s = sv_heap t \<Longrightarrow> entries s = entries t"
  unfolding entries_def find_ref_def by metis

lemma entries_save [simp]: "entries (snd (save_state f s)) = entries s"
  by (rule entries_cong) simp_all

lemma entries_log [simp]: "entries (log_event t k f s) = entries s"
  by (rule entries_cong) simp_all

lemma save_state_ok:
  "fst (save_state f s) = None \<Longrightarrow>
   sv_disk (snd (save_state f s)) =
     (if sv_store s = None \<or> sv_store s = Some [] then sv_disk s else Parsed (snapshot (entries s)))"
  by (cases "sv_store s = None \<or> sv_store s = Some []")
     (auto simp: save_state_def case_prod_unfold save_result save_no_store)

lemma save_state_error:
  "fst (save_state f s) \<noteq> None \<Longrightarrow> snd (save_state f s) = s"
  by (cases "sv_store s = None \<or> sv_store s = Some []")
     (auto simp: save_state_def case_prod_unfold save_result save_no_store split: if_splits)

lemma heap_ok_put [wf_intros]:
  "heap_ok s \<Longrightarrow> sv_heap s r = Some y \<Longrightarrow> r_RequestID (p_Reply x) = r_RequestID (p_Reply y) \<Longrightarrow>
   heap_ok (put r x s)"
  unfolding heap_ok_def put_def by (simp, metis option.inject)

lemma heap_ok_cong:
  "heap_ok s \<Longrightarrow> sv_p t = sv_p s \<Longrightarrow> sv_heap t = sv_heap s \<Longrightarrow> sv_next t = sv_next s \<Longrightarrow> heap_ok t"
  by (simp add: heap_ok_def)

lemma heap_ok_save [wf_intros]: "heap_ok s \<Longrightarrow> heap_ok (snd (save_state f s))"
  by (erule heap_ok_cong) simp_all

lemma heap_ok_log [wf_intros]: "heap_ok s \<Longrightarrow> heap_ok (log_event t k f s)"
  by (erule heap_ok_cong) simp_all

lemma heap_ok_insert [wf_intros]:
  "heap_ok s \<Longrightarrow> r_RequestID (p_Reply x) = rid \<Longrightarrow> heap_ok (insert_pending rid x s)"
  by (auto simp: heap_ok_def insert_pending_def less_Suc_eq)

lemma heap_ok_delete [wf_intros]: "heap_ok s \<Longrightarrow> heap_ok (delete_pending rid s)"
  by (auto simp: heap_ok_def delete_pending_def split: if_splits)

lemma save_state_no_fault [simp]: "fst (save_state None s) = None"
  by (simp add: save_state_def save_def case_prod_unfold)

lemma save_state_disk:
  "sv_disk (snd (save_state f s)) = sv_disk s \<or> sv_disk (snd (save_state f s)) = Parsed (snapshot (entries s))"
  using save_disk [of "sv_store s" f "entries s" "sv_disk s"]
  by (simp add: save_state_def case_prod_unfold)

text \<open>What is in the state file after a save that succeeded.\<close>

definition durable :: "server \<Rightarrow> bool" where
  "durable s \<longleftrightarrow> sv_store s = None \<or> sv_store s = Some [] \<or> sv_disk s = Parsed (snapshot (entries s))"

lemma durable_save: "save_state f s = (None, s') \<Longrightarrow> durable s'"
  using save_state_ok [of f s] save_state_frame(7) [of f s] entries_save [of f s]
  by (auto simp: durable_def split: if_splits)

lemma durable_log [simp]: "durable (log_event t k f s) \<longleftrightarrow> durable s"
  by (simp add: durable_def)

lemma save_state_None: "save_state f s = (None, s') \<Longrightarrow> \<exists>d. s' = s\<lparr>sv_disk := d\<rparr>"
  by (auto simp: save_state_def split: prod.splits)

lemma save_state_Some: "save_state f s = (Some e, s') \<Longrightarrow> s' = s"
  using save_state_error [of f s] by simp

lemma entries_disk [simp]: "entries (s\<lparr>sv_disk := d\<rparr>) = entries s"
  by (rule entries_cong) simp_all

lemma entries_insert:
  assumes "heap_ok s"
  shows "entries (insert_pending rid x s) = (entries s)(rid \<mapsto> x)"
proof
  fix i
  have "sv_p s i \<noteq> Some (sv_next s)"
    using assms by (metis heap_okD heap_ok_bound less_irrefl)
  then show "entries (insert_pending rid x s) i = ((entries s)(rid \<mapsto> x)) i"
    by (auto simp: entries_def find_ref_def insert_pending_def split: option.split)
qed

lemma entries_delete: "entries (delete_pending rid s) = delete rid (entries s)"
  by (auto simp: entries_def find_ref_def delete_pending_def fun_eq_iff split: option.split)

lemma insert_frame [simp, frame_simps]:
  "sv_admin (insert_pending rid x s) = sv_admin s" "sv_seen (insert_pending rid x s) = sv_seen s"
  "sv_rates (insert_pending rid x s) = sv_rates s" "sv_store (insert_pending rid x s) = sv_store s"
  "sv_disk (insert_pending rid x s) = sv_disk s" "sv_audit (insert_pending rid x s) = sv_audit s"
  by (simp_all add: insert_pending_def)

lemma delete_frame [simp, frame_simps]:
  "sv_admin (delete_pending rid s) = sv_admin s" "sv_seen (delete_pending rid s) = sv_seen s"
  "sv_rates (delete_pending rid s) = sv_rates s" "sv_store (delete_pending rid s) = sv_store s"
  "sv_disk (delete_pending rid s) = sv_disk s" "sv_audit (delete_pending rid s) = sv_audit s"
  "sv_heap (delete_pending rid s) = sv_heap s" "sv_next (delete_pending rid s) = sv_next s"
  "sv_p (delete_pending rid s) = delete rid (sv_p s)"
  by (simp_all add: delete_pending_def)

lemma put_put [simp]: "put r y (put r x s) = put r y s"
  by (simp add: put_def)

lemma put_same: "sv_heap s r = Some x \<Longrightarrow> put r x s = s"
  by (simp add: put_def fun_upd_idem)

lemma respond_simps [simp]:
  "resp_code (respond c b) = c" "resp_body (respond c b) = b"
  "resp_code (respond_with h c b) = c" "resp_body (respond_with h c b) = b"
  by (simp_all add: respond_def respond_with_def)

end
