(* ===== verification/Broker_Queue.thy ===== *)
theory Broker_Queue imports Broker_Server begin

text \<open>
  Commands as the broker stores them (\<^verbatim>\<open>cmd/pairing-broker/main.go\<close>): the initial state
  of a command with the fingerprint of its name and params, control commands, and the two
  depths of a queue; with the well-formedness of a session's queue.
\<close>

section \<open>Command states\<close>

text \<open>\<^verbatim>\<open>json.Marshal\<close> of the anonymous struct: \<^verbatim>\<open>params\<close> is omitted when empty.\<close>

definition fingerprint_text :: "string \<Rightarrow> string \<Rightarrow> string" where
  "fingerprint_text name params =
     ''{'' @ json_string ''name'' @ '':'' @ json_string name
     @ (if params = [] then [] else '','' @ json_string ''params'' @ '':'' @ Compact params) @ ''}''"

definition newCommandState :: "crypto \<Rightarrow> command \<Rightarrow> commandState" where
  "newCommandState cr cmd =
     \<lparr>cs_Command = cmd, cs_Fingerprint = sha256 cr (fingerprint_text (c_Name cmd) (c_Params cmd)),
      cs_Status = ''queued'', cs_LeaseUntil = zero_time\<rparr>"

definition isControlCommand :: "string \<Rightarrow> bool" where
  "isControlCommand name \<longleftrightarrow>
     name = ''shell.cancel'' \<or> name = ''process.stop-owned'' \<or> name = ''session.disconnect''"

fun queue_depths :: "(string \<rightharpoonup> commandState) \<Rightarrow> string list \<Rightarrow> nat \<times> nat \<Rightarrow> nat \<times> nat" where
  "queue_depths cmds [] (regular, control) = (regular, control)"
| "queue_depths cmds (i # q) (regular, control) =
     (case cmds i of
        None \<Rightarrow> queue_depths cmds q (regular, control)
      | Some st \<Rightarrow>
          if cs_Status st \<noteq> ''queued'' then queue_depths cmds q (regular, control)
          else if isControlCommand (c_Name (cs_Command st)) then queue_depths cmds q (regular, Suc control)
          else queue_depths cmds q (Suc regular, control))"

definition queueDepths :: "pending \<Rightarrow> nat \<times> nat" where
  "queueDepths x = queue_depths (p_Commands x) (p_Queue x) (0, 0)"

lemma newCommandState_simps [simp]:
  "cs_Command (newCommandState cr cmd) = cmd" "cs_Status (newCommandState cr cmd) = ''queued''"
  by (simp_all add: newCommandState_def)

section \<open>The queue invariant\<close>

text \<open>
  The statuses a command can have, and the order in which it goes through them.  Each
  command of the queue is there once, is known, and is queued.
\<close>

definition status_rank :: "string \<Rightarrow> nat" where
  "status_rank status =
     (if status = ''queued'' then 0 else if status = ''leased'' then 1
      else if status = ''running'' then 2 else if status = ''completed'' then 3 else 4)"

definition known_status :: "commandState \<Rightarrow> bool" where
  "known_status st \<longleftrightarrow> cs_Status st \<in> {''queued'', ''leased'', ''running'', ''completed''}"

definition queue_ok :: "pending \<Rightarrow> bool" where
  "queue_ok x \<longleftrightarrow>
     distinct (p_Queue x)
     \<and> (\<forall>i\<in>set (p_Queue x). \<exists>st. p_Commands x i = Some st \<and> cs_Status st = ''queued'')
     \<and> (\<forall>st\<in>ran (p_Commands x). known_status st)"

definition is_queued :: "pending \<Rightarrow> string \<Rightarrow> bool" where
  "is_queued x i \<longleftrightarrow> (\<exists>st. p_Commands x i = Some st \<and> cs_Status st = ''queued'')"

definition is_control :: "pending \<Rightarrow> string \<Rightarrow> bool" where
  "is_control x i \<longleftrightarrow> (\<exists>st. p_Commands x i = Some st \<and> isControlCommand (c_Name (cs_Command st)))"

lemma queue_okD:
  assumes "queue_ok x"
  shows "distinct (p_Queue x)" and "i \<in> set (p_Queue x) \<Longrightarrow> is_queued x i"
    and "p_Commands x k = Some st \<Longrightarrow> known_status st"
  using assms by (auto simp: queue_ok_def is_queued_def intro: ranI)

lemma queue_okI [intro?]:
  assumes "distinct (p_Queue x)" and "\<And>i. i \<in> set (p_Queue x) \<Longrightarrow> is_queued x i"
    and "\<And>k st. p_Commands x k = Some st \<Longrightarrow> known_status st"
  shows "queue_ok x"
  using assms by (auto simp: queue_ok_def is_queued_def ran_def)

lemma queue_ok_cong:
  "queue_ok x \<Longrightarrow> p_Queue y = p_Queue x \<Longrightarrow> p_Commands y = p_Commands x \<Longrightarrow> queue_ok y"
  by (simp add: queue_ok_def)

lemma known_new [simp]: "known_status (newCommandState cr cmd)"
  by (simp add: known_status_def)

lemma known_release [simp]: "known_status st \<Longrightarrow> known_status (release_lease st)"
  by (auto simp: known_status_def)

lemma queue_depths_counts:
  "queue_depths (p_Commands x) q (r, c) =
     (r + length (filter (\<lambda>i. is_queued x i \<and> \<not> is_control x i) q),
      c + length (filter (\<lambda>i. is_queued x i \<and> is_control x i) q))"
  by (induction q arbitrary: r c) (auto simp: is_queued_def is_control_def split: option.split)

lemma queueDepths_counts:
  "queueDepths x =
     (length (filter (\<lambda>i. is_queued x i \<and> \<not> is_control x i) (p_Queue x)),
      length (filter (\<lambda>i. is_queued x i \<and> is_control x i) (p_Queue x)))"
  by (simp add: queueDepths_def queue_depths_counts)

lemma queueDepths_length:
  assumes "queue_ok x"
  shows "fst (queueDepths x) + snd (queueDepths x) = length (p_Queue x)"
proof -
  have "filter (\<lambda>i. is_queued x i \<and> \<not> is_control x i) (p_Queue x) = filter (\<lambda>i. \<not> is_control x i) (p_Queue x)"
    "filter (\<lambda>i. is_queued x i \<and> is_control x i) (p_Queue x) = filter (is_control x) (p_Queue x)"
    using queue_okD(2) [OF assms] by (auto intro: filter_cong)
  then show ?thesis
    using sum_length_filter_compl [of "is_control x" "p_Queue x"] by (simp add: queueDepths_counts)
qed

lemma queue_ok_recovered:
  assumes "queue_ok x" and "range_order ks (p_Commands x)"
  shows "queue_ok (recovered ks x)"
proof
  let ?cmds = "map_values Some (p_Commands x)"
  let ?already = "recover_queue ?cmds (p_Queue x) []"
  have q: "recovered_queue ks x = ?already @ filter (\<lambda>k. pending_in ?cmds k \<and> k \<notin> set ?already) ks"
    by (simp add: recovered_queue_def Let_def)
  show "distinct (p_Queue (recovered ks x))"
    using assms(2) by (auto simp: q recover_queue_distinct range_order_def)
  show "is_queued (recovered ks x) i" if "i \<in> set (p_Queue (recovered ks x))" for i
    using that by (auto simp: q recover_queue_set is_queued_def recovered_commands queued_in_def
        pending_in_def map_values_def split: option.splits)
  show "known_status st" if "p_Commands (recovered ks x) k = Some st" for k st
    using that queue_okD(3) [OF assms(1)] by (auto simp: recovered_commands)
qed

end
