(* ===== verification/Broker_Pairing.thy ===== *)
theory Broker_Pairing imports Broker_Queue begin

text \<open>
  Pairing: \<^verbatim>\<open>pair\<close>, \<^verbatim>\<open>allowPair\<close>, \<^verbatim>\<open>status\<close>, \<^verbatim>\<open>approve\<close>, \<^verbatim>\<open>approveRequest\<close>,
  \<^verbatim>\<open>rejectRequest\<close>, \<^verbatim>\<open>adminReject\<close> and the validation functions of
  \<^verbatim>\<open>cmd/pairing-broker/main.go\<close>.  The lemmas give the functional behaviour of each
  handler, the rate and replay limits over a whole run, and what an accepted request looks
  like.
\<close>

section \<open>Validating a request\<close>

definition allowed_capabilities :: "string list" where
  "allowed_capabilities =
     [''system.info'', ''system.network'', ''disk.list'', ''service.list'', ''process.list'',
      ''process.start'', ''process.stop-owned'', ''shell.run'', ''shell.run-admin'', ''powershell.run'',
      ''shell.start'', ''shell.status'', ''shell.cancel'', ''files.list'', ''files.read'',
      ''files.read-chunk'', ''files.write'', ''files.write-chunk'', ''files.upload'', ''files.download'',
      ''session.disconnect'']"

fun capability_loop :: "string list \<Rightarrow> string list \<Rightarrow> bool" where
  "capability_loop seen [] = True"
| "capability_loop seen (x # v) =
     (if x \<notin> set allowed_capabilities \<or> x \<in> set seen then False else capability_loop (x # seen) v)"

definition validCapabilities :: "string list \<Rightarrow> bool" where
  "validCapabilities v = (if length v = 0 \<or> 32 < length v then False else capability_loop [] v)"

fun label_loop :: "nat \<Rightarrow> nat \<Rightarrow> (rune \<times> string) list \<Rightarrow> bool" where
  "label_loop maxRunes count [] = True"
| "label_loop maxRunes count (p # ps) =
     (if fst p = rune_error \<or> IsControl (fst p) then False
      else if maxRunes < Suc count then False
      else label_loop maxRunes (Suc count) ps)"

definition validGuestLabel :: "string \<Rightarrow> nat \<Rightarrow> bool" where
  "validGuestLabel v maxRunes =
     (if v = [] then False else label_loop maxRunes 0 (runes (ToValidUTF8 v replacement)))"

definition validPairRequest :: "pair_request \<Rightarrow> bool" where
  "validPairRequest q =
     (if q_DurationSeconds q < 60 \<or> 3600 < q_DurationSeconds q
         \<or> \<not> validGuestLabel (q_USBID q) 128
         \<or> \<not> validGuestLabel (q_Hostname q) 255
         \<or> \<not> validGuestLabel (q_User q) 256
         \<or> \<not> validGuestLabel (q_OS q) 32
         \<or> \<not> validGuestLabel (q_Arch q) 32
         \<or> length (q_PublicKey q) = 0 \<or> 128 < length (q_PublicKey q)
         \<or> length (q_Nonce q) = 0 \<or> 128 < length (q_Nonce q)
         \<or> length (q_Signature q) = 0 \<or> 256 < length (q_Signature q)
      then False else validCapabilities (q_Requested q))"

section \<open>Rate and replay limits\<close>

definition host_of :: "string \<Rightarrow> string" where
  "host_of remote = (case split_host remote of None \<Rightarrow> remote | Some h \<Rightarrow> h)"

definition allowPair :: "crypto \<Rightarrow> time \<Rightarrow> string \<Rightarrow> string \<Rightarrow> server \<Rightarrow> bool \<times> server" where
  "allowPair cr now remote replay s =
     (let host = host_of remote;
          key = Hash cr replay;
          s = s\<lparr>sv_seen := drop_where (\<lambda>t. now - t > 10 * minute) (sv_seen s)\<rparr>
      in if sv_seen s key \<noteq> None then (False, s)
         else
           let recent = filter (\<lambda>t. now - t < minute) (sv_rates s host)
           in if 10 \<le> length recent then (False, s\<lparr>sv_rates := (sv_rates s)(host := recent)\<rparr>)
              else (True, s\<lparr>sv_rates := (sv_rates s)(host := recent @ [now]),
                            sv_seen := (sv_seen s)(key \<mapsto> now)\<rparr>))"

section \<open>The pairing handlers\<close>

text \<open>
  What the run of a handler takes from outside: the clock readings in the order in which
  they are taken, the random tokens, and the failure of the save, if it fails.
\<close>

record pair_env =
  pe_now :: time
  pe_created :: time
  pe_logged :: time
  pe_id :: entropy
  pe_token :: entropy
  pe_fault :: "save_stage option"

definition pair_entry :: "crypto \<Rightarrow> pair_env \<Rightarrow> pair_request \<Rightarrow> pending" where
  "pair_entry cr env q =
     \<lparr>p_Req = q,
      p_Reply = \<lparr>r_RequestID = take 24 (Hash cr (fst (Token (pe_id env)))), r_Status = ''pending'',
                 r_CompareCode = CompareCode cr (q_PublicKey q) (q_Nonce q), r_PairingToken = [],
                 r_Error = [], r_SessionToken = [], r_ExpiresAt = zero_time\<rparr>,
      p_TokenHash = [], p_PairingTokenHash = Hash cr (fst (Token (pe_token env))), p_Queue = [],
      p_Commands = Map.empty, p_Results = [], p_CreatedAt = pe_created env\<rparr>"

text \<open>The part of \<^verbatim>\<open>pair\<close> after the limits, which stores the request.\<close>

definition pair_store :: "crypto \<Rightarrow> pair_env \<Rightarrow> string \<Rightarrow> pair_request \<Rightarrow> server \<Rightarrow> response \<times> server" where
  "pair_store cr env remote q s =
     (let x = pair_entry cr env q;
          rid = r_RequestID (p_Reply x)
      in (case save_state (pe_fault env) (insert_pending rid x s) of
           (Some e, s) \<Rightarrow> (respond 500 (ErrorBody ''state unavailable''), delete_pending rid s)
         | (None, s) \<Rightarrow>
             (respond 202 (PairBody ((p_Reply x)\<lparr>r_PairingToken := fst (Token (pe_token env))\<rparr>)),
              log_event (pe_logged env) ''pair_requested''
                [''requestId'' \<mapsto> AString rid, ''usbId'' \<mapsto> AString (q_USBID q),
                 ''compareCode'' \<mapsto> AString (r_CompareCode (p_Reply x)), ''source'' \<mapsto> AString remote] s)))"

definition pair :: "crypto \<Rightarrow> pair_env \<Rightarrow> string \<Rightarrow> string \<Rightarrow> pair_request body \<Rightarrow> server \<Rightarrow> response \<times> server" where
  "pair cr env meth remote b s =
     (if meth \<noteq> ''POST'' then (respond 405 Null, s)
      else case limitedJSON b of
        None \<Rightarrow> (respond 400 (ErrorBody ''invalid request''), s)
      | Some q \<Rightarrow>
          if q_Protocol q \<noteq> Version then
            (respond_with (''OpenClaw-Protocol-Version'', Itoa Version) 426
               (UpgradeBody ''unsupported protocol version'' (q_Protocol q) Version), s)
          else if \<not> validPairRequest q
                  \<or> \<not> Verify cr (q_PublicKey q) (q_Signature q) (CanonicalPairRequest q) then
            (respond 403 (ErrorBody ''request rejected''), s)
          else
            (case allowPair cr (pe_now env) remote (q_PublicKey q @ [nul] @ q_Nonce q) s of
               (accepted, s) \<Rightarrow>
                 if \<not> accepted then (respond 429 (ErrorBody ''rate limited or replayed''), s)
                 else pair_store cr env remote q s))"

text \<open>
  The guest polls its request until it is approved; a token that is not in memory any
  more (after a restart) is replaced.
\<close>

definition status :: "crypto \<Rightarrow> time \<Rightarrow> entropy \<Rightarrow> save_stage option \<Rightarrow> string \<Rightarrow> string \<Rightarrow> server
    \<Rightarrow> response \<times> server" where
  "status cr now e fault rid authorization s =
     (case find_ref s rid of
        None \<Rightarrow> (respond 404 Null, s)
      | Some (r, x) \<Rightarrow>
          if p_PairingTokenHash x \<noteq> Hash cr (bearer authorization) then (respond 404 Null, s)
          else if r_Status (p_Reply x) = ''approved'' \<and> r_SessionToken (p_Reply x) = []
                  \<and> now < r_ExpiresAt (p_Reply x) then
            (case Token e of (token, err) \<Rightarrow>
               if err then (respond 500 (ErrorBody ''session token unavailable''), s)
               else
                 let x' = x\<lparr>p_TokenHash := Hash cr token, p_Reply := (p_Reply x)\<lparr>r_SessionToken := token\<rparr>\<rparr>
                 in (case save_state fault (put r x' s) of
                       (Some m, s) \<Rightarrow>
                         (respond 500 (ErrorBody ''state unavailable''),
                          put r (x'\<lparr>p_TokenHash := p_TokenHash x,
                                    p_Reply := (p_Reply x')\<lparr>r_SessionToken := []\<rparr>\<rparr>) s)
                     | (None, s) \<Rightarrow> (respond 200 (PairBody ((p_Reply x')\<lparr>r_PairingToken := []\<rparr>)), s)))
          else (respond 200 (PairBody ((p_Reply x)\<lparr>r_PairingToken := []\<rparr>)), s))"

section \<open>The operator's decision\<close>

datatype request_error = RequestError nat string

record approve_env =
  ae_token :: entropy
  ae_now :: time
  ae_deadline :: time
  ae_logged :: time
  ae_fault :: "save_stage option"

definition initial_command :: "approve_env \<Rightarrow> command" where
  "initial_command env =
     \<lparr>c_ID = ''initial-system-info'', c_Name = ''system.info'',
      c_Deadline = ae_deadline env + 15 * second, c_Params = []\<rparr>"

definition approved_entry :: "crypto \<Rightarrow> approve_env \<Rightarrow> int \<Rightarrow> pending \<Rightarrow> pending" where
  "approved_entry cr env minutes x =
     (let tok = fst (Token (ae_token env)); initial = initial_command env
      in x\<lparr>p_TokenHash := Hash cr tok,
           p_Reply := (p_Reply x)\<lparr>r_Status := ''approved'', r_SessionToken := tok,
                                   r_ExpiresAt := ae_now env + minutes * minute\<rparr>,
           p_Commands := (p_Commands x)(c_ID initial \<mapsto> newCommandState cr initial),
           p_Queue := p_Queue x @ [c_ID initial]\<rparr>)"

definition approveRequest :: "crypto \<Rightarrow> approve_env \<Rightarrow> string \<Rightarrow> int \<Rightarrow> server
    \<Rightarrow> (request_error + time) \<times> server" where
  "approveRequest cr env requestID minutes s =
     (case find_ref s requestID of
        None \<Rightarrow> (Inl (RequestError 404 ''pending request not found''), s)
      | Some (r, x) \<Rightarrow>
          if r_Status (p_Reply x) \<noteq> ''pending'' then
            (Inl (RequestError 404 ''pending request not found''), s)
          else
            let maxMinutes = go_quot (wrap64 (q_DurationSeconds (p_Req x) + 59)) 60
            in if maxMinutes < 1 \<or> 60 < maxMinutes \<or> minutes < 1 \<or> maxMinutes < minutes then
                 (Inl (RequestError 400 ''approval duration exceeds guest request''), s)
               else
                 let x' = approved_entry cr env minutes x; initial = c_ID (initial_command env)
                 in (case save_state (ae_fault env) (put r x' s) of
                      (Some m, s) \<Rightarrow>
                        (Inl (RequestError 500 ''state unavailable''),
                         put r (x'\<lparr>p_Reply := p_Reply x, p_TokenHash := p_TokenHash x, p_Queue := p_Queue x,
                                   p_Commands :=
                                     (case p_Commands x initial of
                                        Some previous \<Rightarrow> (p_Commands x')(initial \<mapsto> previous)
                                      | None \<Rightarrow> delete initial (p_Commands x'))\<rparr>) s)
                    | (None, s) \<Rightarrow> (Inr (r_ExpiresAt (p_Reply x')), s)))"

record approve_query =
  aq_RequestID :: string
  aq_Minutes :: int

definition approve :: "crypto \<Rightarrow> approve_env \<Rightarrow> string \<Rightarrow> approve_query body \<Rightarrow> server \<Rightarrow> response \<times> server" where
  "approve cr env authorization b s =
     (if \<not> isAdmin s authorization then (respond 401 Null, s)
      else case limitedJSON b of
        None \<Rightarrow> (respond 400 (ErrorBody ''invalid request''), s)
      | Some q \<Rightarrow>
          if aq_Minutes q < 1 \<or> 60 < aq_Minutes q then (respond 400 Null, s)
          else
            (case approveRequest cr env (aq_RequestID q) (aq_Minutes q) s of
               (Inl (RequestError code m), s) \<Rightarrow> (respond code (ErrorBody m), s)
             | (Inr expiresAt, s) \<Rightarrow>
                 (respond 200 (ApprovedBody (aq_RequestID q) (aq_Minutes q) expiresAt),
                  log_event (ae_logged env) ''pair_approved''
                    [''requestId'' \<mapsto> AString (aq_RequestID q), ''minutes'' \<mapsto> AInt (aq_Minutes q)] s)))"

definition rejectRequest :: "time \<Rightarrow> save_stage option \<Rightarrow> string \<Rightarrow> server \<Rightarrow> request_error option \<times> server" where
  "rejectRequest now fault requestID s =
     (case find_ref s requestID of
        None \<Rightarrow> (Some (RequestError 404 ''pending request not found''), s)
      | Some (r, x) \<Rightarrow>
          if r_Status (p_Reply x) \<noteq> ''pending'' then
            (Some (RequestError 404 ''pending request not found''), s)
          else
            let x' = x\<lparr>p_Reply := (p_Reply x)\<lparr>r_Status := ''rejected''\<rparr>\<rparr>
            in (case save_state fault (put r x' s) of
                 (Some m, s) \<Rightarrow> (Some (RequestError 500 ''state unavailable''), put r (x'\<lparr>p_Reply := p_Reply x\<rparr>) s)
               | (None, s) \<Rightarrow> (None, log_event now ''pair_rejected'' [''requestId'' \<mapsto> AString requestID] s)))"

definition adminReject :: "time \<Rightarrow> save_stage option \<Rightarrow> string \<Rightarrow> string body \<Rightarrow> server \<Rightarrow> response \<times> server" where
  "adminReject now fault authorization b s =
     (if \<not> isAdmin s authorization then (respond 401 Null, s)
      else case limitedJSON b of
        None \<Rightarrow> (respond 400 (ErrorBody ''invalid request''), s)
      | Some requestID \<Rightarrow>
          (case rejectRequest now fault requestID s of
             (Some (RequestError code m), s) \<Rightarrow> (respond code (ErrorBody m), s)
           | (None, s) \<Rightarrow> (respond 200 (RejectedBody requestID), s)))"

section \<open>What validation accepts\<close>

lemma capability_loop_iff:
  "capability_loop seen v \<longleftrightarrow> distinct v \<and> set v \<subseteq> set allowed_capabilities \<and> set v \<inter> set seen = {}"
  by (induction v arbitrary: seen) auto

lemma allowed_length: "length allowed_capabilities = 21"
  by (simp add: allowed_capabilities_def)

lemma validCapabilities_iff:
  "validCapabilities v \<longleftrightarrow> v \<noteq> [] \<and> distinct v \<and> set v \<subseteq> set allowed_capabilities"
proof -
  have "length v \<le> 32" if "distinct v" and "set v \<subseteq> set allowed_capabilities"
  proof -
    have "length v = card (set v)" using that(1) by (simp add: distinct_card)
    also have "\<dots> \<le> card (set allowed_capabilities)" using that(2) by (intro card_mono) auto
    also have "\<dots> \<le> 21" using card_length [of allowed_capabilities] by (simp add: allowed_length)
    finally show ?thesis by simp
  qed
  then show ?thesis by (auto simp: validCapabilities_def capability_loop_iff)
qed

definition label_rune :: "rune \<Rightarrow> bool" where
  "label_rune r \<longleftrightarrow> r \<noteq> rune_error \<and> \<not> IsControl r"

lemma label_loop_iff:
  "count \<le> maxRunes \<Longrightarrow> label_loop maxRunes count ps \<longleftrightarrow>
     list_all (\<lambda>p. label_rune (fst p)) ps \<and> count + length ps \<le> maxRunes"
  by (induction ps arbitrary: count) (auto simp: label_rune_def Suc_le_eq)

lemma repaired_labels:
  "list_all (\<lambda>p. label_rune (fst p)) (repaired False ps) \<longleftrightarrow> list_all (\<lambda>p. label_rune (fst p)) ps"
proof (induction ps)
  case (Cons p ps)
  then show ?case by (auto simp: invalid_piece_def label_rune_def)
qed simp

lemma label_runes_valid:
  "list_all (\<lambda>p. label_rune (fst p)) (runes v) \<Longrightarrow> valid_utf8 v"
  by (auto simp: valid_utf8_def list_all_iff label_rune_def invalid_piece_def)

text \<open>C28 A guest label is accepted exactly when it is non-empty valid UTF-8 of at most the
  given number of characters, none of them a control character or the replacement
  character.  The loop repairs and checks in one pass; the right side is the reference.\<close>

theorem validGuestLabel_exact:
  "validGuestLabel v maxRunes \<longleftrightarrow>
     v \<noteq> [] \<and> valid_utf8 v \<and> length (runes v) \<le> maxRunes
     \<and> list_all (\<lambda>p. fst p \<noteq> rune_error \<and> \<not> IsControl (fst p)) (runes v)"
proof -
  have "list_all (\<lambda>p. label_rune (fst p)) (repaired False (runes v))
      \<and> length (repaired False (runes v)) \<le> maxRunes
    \<longleftrightarrow> valid_utf8 v \<and> length (runes v) \<le> maxRunes \<and> list_all (\<lambda>p. label_rune (fst p)) (runes v)"
    using label_runes_valid [of v] repaired_valid [of "runes v" False]
    by (auto simp: repaired_labels valid_utf8_def)
  then show ?thesis
    by (simp add: validGuestLabel_def label_loop_iff runes_ToValid label_rune_def [abs_def])
qed

section \<open>The limits over a whole run\<close>

text \<open>
  A run of \<open>allowPair\<close>: calls as triples of time, remote address and replay key, and the
  calls that were accepted, in order.
\<close>

type_synonym attempt = "time \<times> string \<times> string"

fun allow_run :: "crypto \<Rightarrow> attempt list \<Rightarrow> server \<Rightarrow> attempt list \<times> server" where
  "allow_run cr [] s = ([], s)"
| "allow_run cr ((now, remote, replay) # calls) s =
     (case allowPair cr now remote replay s of
        (ok, s) \<Rightarrow>
          (case allow_run cr calls s of
             (acc, s) \<Rightarrow> (if ok then (now, remote, replay) # acc else acc, s)))"

definition in_order :: "attempt list \<Rightarrow> bool" where
  "in_order calls \<longleftrightarrow> sorted (map fst calls)"

definition accepted_times :: "string \<Rightarrow> attempt list \<Rightarrow> time list" where
  "accepted_times host acc = map fst (filter (\<lambda>(t, remote, k). host_of remote = host) acc)"

definition window :: "time \<Rightarrow> time list \<Rightarrow> time list" where
  "window w ts = filter (\<lambda>t. w \<le> t \<and> t < w + minute) ts"

text \<open>
  What the server remembers of the calls accepted so far (\<open>acc\<close>), from time \<open>now\<close> on: the
  times of the last minute for each host and the keys of the last ten minutes.
\<close>

definition remembers :: "crypto \<Rightarrow> attempt list \<Rightarrow> time \<Rightarrow> server \<Rightarrow> bool" where
  "remembers cr acc now s \<longleftrightarrow>
     (\<forall>host n. now \<le> n \<longrightarrow> filter (\<lambda>t. n - t < minute) (sv_rates s host)
                          = filter (\<lambda>t. n - t < minute) (accepted_times host acc))
     \<and> (\<forall>(t, remote, k) \<in> set acc. now - t \<le> 10 * minute \<longrightarrow>
          (\<exists>t'. sv_seen s (Hash cr k) = Some t' \<and> t \<le> t'))"

definition limits_ok :: "attempt list \<Rightarrow> bool" where
  "limits_ok acc \<longleftrightarrow>
     (\<forall>host w. length (window w (accepted_times host acc)) \<le> 10)
     \<and> (\<forall>i j. i < j \<and> j < length acc \<and> snd (snd (acc ! i)) = snd (snd (acc ! j)) \<longrightarrow>
          fst (acc ! j) - fst (acc ! i) > 10 * minute)"

lemma accepted_times_append [simp]:
  "accepted_times host (acc @ [(t, remote, k)]) =
     accepted_times host acc @ (if host_of remote = host then [t] else [])"
  by (simp add: accepted_times_def)

lemma window_simps [simp]:
  "window w [] = []" "window w (t # ts) = (if w \<le> t \<and> t < w + minute then [t] else []) @ window w ts"
  by (simp_all add: window_def)

lemma window_append [simp]: "window w (ts @ us) = window w ts @ window w us"
  by (simp add: window_def)

lemma window_bound:
  assumes "w \<le> now" and "now < w + minute"
  shows "length (window w ts) \<le> length (filter (\<lambda>t. now - t < minute) ts)"
  unfolding window_def
  by (induction ts) (use assms in auto)

lemma window_later: "now < w \<Longrightarrow> \<forall>t\<in>set ts. t \<le> now \<Longrightarrow> window w ts = []"
  by (auto simp: window_def filter_empty_conv)

lemma filter_recent:
  assumes "now \<le> n"
  shows "filter (\<lambda>t. n - t < minute) (filter (\<lambda>t. now - t < minute) ts) = filter (\<lambda>t. n - t < minute) ts"
  using assms by (auto intro: filter_cong)

lemma remembers_later:
  "remembers cr acc now s \<Longrightarrow> now \<le> now' \<Longrightarrow> remembers cr acc now' s"
  by (fastforce simp: remembers_def)

lemma allowPair_rejected:
  assumes "allowPair cr now remote k s = (False, s')" and "remembers cr acc now s"
  shows "remembers cr acc now s'"
proof -
  let ?seen = "drop_where (\<lambda>t. now - t > 10 * minute) (sv_seen s)"
  have seen: "sv_seen s' = ?seen"
    using assms(1) by (auto simp: allowPair_def Let_def split: if_splits)
  have rates: "filter (\<lambda>t. n - t < minute) (sv_rates s' host) = filter (\<lambda>t. n - t < minute) (sv_rates s host)"
    if "now \<le> n" for n host
    using assms(1) filter_recent [OF that] by (auto simp: allowPair_def Let_def split: if_splits)
  have "\<exists>t'. sv_seen s' (Hash cr j) = Some t' \<and> t \<le> t'"
    if "(t, r, j) \<in> set acc" "now - t \<le> 10 * minute" for t r j
    using that assms(2) by (fastforce simp: remembers_def seen)
  with assms(2) show ?thesis by (auto simp: remembers_def rates)
qed

lemma allowPair_accepted:
  assumes "allowPair cr now remote k s = (True, s')" and "remembers cr acc now s"
  shows "remembers cr (acc @ [(now, remote, k)]) now s'"
    and "length (filter (\<lambda>t. now - t < minute) (accepted_times (host_of remote) acc)) < 10"
    and "(t, r, k) \<in> set acc \<Longrightarrow> now - t > 10 * minute"
proof -
  let ?seen = "drop_where (\<lambda>t. now - t > 10 * minute) (sv_seen s)" and ?host = "host_of remote"
  let ?recent = "filter (\<lambda>t. now - t < minute) (sv_rates s ?host)"
  have seen: "sv_seen s' = ?seen(Hash cr k \<mapsto> now)" and fresh: "?seen (Hash cr k) = None"
    and rates: "sv_rates s' = (sv_rates s)(?host := ?recent @ [now])" and few: "length ?recent < 10"
    using assms(1) by (auto simp: allowPair_def Let_def drop_where_None split: if_splits)
  have recent: "?recent = filter (\<lambda>t. now - t < minute) (accepted_times ?host acc)"
    using assms(2) by (simp add: remembers_def)
  then show "length (filter (\<lambda>t. now - t < minute) (accepted_times (host_of remote) acc)) < 10"
    using few by simp
  show old: "now - t > 10 * minute" if mem: "(t, r, k) \<in> set acc" for t r
  proof (rule ccontr)
    assume "\<not> now - t > 10 * minute"
    then obtain t' where "sv_seen s (Hash cr k) = Some t'" "t \<le> t'"
      using mem assms(2) by (fastforce simp: remembers_def)
    then show False
      using fresh \<open>\<not> now - t > 10 * minute\<close> by (auto simp: drop_where_None)
  qed
  have "filter (\<lambda>t. n - t < minute) (sv_rates s' h)
      = filter (\<lambda>t. n - t < minute) (accepted_times h (acc @ [(now, remote, k)]))" if "now \<le> n" for n h
    using assms(2) that filter_recent [OF that, of "sv_rates s ?host"]
    by (auto simp: remembers_def rates)
  moreover have "\<exists>t'. sv_seen s' (Hash cr j) = Some t' \<and> t \<le> t'"
    if "(t, r, j) \<in> set (acc @ [(now, remote, k)])" "now - t \<le> 10 * minute" for t r j
  proof (cases "(t, r, j) \<in> set acc")
    case True
    with that(2) assms(2) obtain t' where "sv_seen s (Hash cr j) = Some t'" "t \<le> t'"
      by (fastforce simp: remembers_def)
    with that(2) fresh show ?thesis by (auto simp: seen drop_where_None)
  next
    case False
    with that(1) show ?thesis by (auto simp: seen)
  qed
  ultimately show "remembers cr (acc @ [(now, remote, k)]) now s'"
    unfolding remembers_def by blast
qed

lemma limits_ok_snoc:
  assumes "limits_ok acc" and "\<forall>(t, r, j) \<in> set acc. t \<le> now"
    and "length (filter (\<lambda>t. now - t < minute) (accepted_times (host_of remote) acc)) < 10"
    and "\<And>t r. (t, r, k) \<in> set acc \<Longrightarrow> now - t > 10 * minute"
  shows "limits_ok (acc @ [(now, remote, k)])"
proof -
  have le: "\<forall>t\<in>set (accepted_times h acc). t \<le> now" for h
    using assms(2) by (auto simp: accepted_times_def)
  have "length (window w (accepted_times h (acc @ [(now, remote, k)]))) \<le> 10" for w h
  proof (cases "host_of remote = h \<and> w \<le> now \<and> now < w + minute")
    case True
    then show ?thesis
      using window_bound [of w now "accepted_times h acc"] assms(3) by auto
  next
    case False
    then show ?thesis using assms(1) by (auto simp: limits_ok_def)
  qed
  moreover have "fst ((acc @ [(now, remote, k)]) ! j) - fst ((acc @ [(now, remote, k)]) ! i) > 10 * minute"
    if "i < j" "j < length (acc @ [(now, remote, k)])"
      "snd (snd ((acc @ [(now, remote, k)]) ! i)) = snd (snd ((acc @ [(now, remote, k)]) ! j))" for i j
  proof (cases "j < length acc")
    case True
    then show ?thesis using that assms(1) by (simp add: limits_ok_def nth_append)
  next
    case False
    then have j: "j = length acc" using that(2) by simp
    then have "acc ! i \<in> set acc" "snd (snd (acc ! i)) = k"
      using that(1,3) by (auto simp: nth_append)
    then have "now - fst (acc ! i) > 10 * minute"
      using assms(4) [of "fst (acc ! i)" "fst (snd (acc ! i))"] by (metis prod.collapse)
    then show ?thesis using that(1) by (simp add: j nth_append)
  qed
  ultimately show ?thesis by (simp add: limits_ok_def)
qed

lemma allow_run_limits:
  assumes "in_order calls" and "\<forall>c\<in>set calls. now \<le> fst c" and "remembers cr acc now s"
    and "limits_ok acc" and "\<forall>(t, r, j) \<in> set acc. t \<le> now"
  shows "limits_ok (acc @ fst (allow_run cr calls s))"
  using assms
proof (induction calls arbitrary: now acc s)
  case (Cons c calls)
  obtain t remote k where c: "c = (t, remote, k)" by (cases c)
  obtain ok s' where step: "allowPair cr t remote k s = (ok, s')" by fastforce
  have rem: "remembers cr acc t s" and le: "\<forall>(t', r, j) \<in> set acc. t' \<le> t"
    using Cons.prems(2,3,5) remembers_later by (auto simp: c)
  have rest: "in_order calls" "\<forall>c\<in>set calls. t \<le> fst c"
    using Cons.prems(1) by (auto simp: in_order_def c)
  show ?case
  proof (cases ok)
    case True
    then have "allowPair cr t remote k s = (True, s')" using step by simp
    note facts = allowPair_accepted [OF this rem]
    have "limits_ok ((acc @ [(t, remote, k)]) @ fst (allow_run cr calls s'))"
    proof (rule Cons.IH [OF rest facts(1)])
      show "limits_ok (acc @ [(t, remote, k)])"
        by (rule limits_ok_snoc [OF Cons.prems(4) le facts(2,3)])
    qed (use le in auto)
    then show ?thesis using step True by (simp add: c case_prod_unfold)
  next
    case False
    then have "allowPair cr t remote k s = (False, s')" using step by simp
    from allowPair_rejected [OF this rem]
    have "limits_ok (acc @ fst (allow_run cr calls s'))"
      by (rule Cons.IH [OF rest _ Cons.prems(4) le])
    then show ?thesis using step False by (simp add: c case_prod_unfold)
  qed
qed simp

text \<open>C17 The pairing limits hold over every run: from a fresh server, whatever calls arrive
  at non-decreasing times, no host gets more than ten pairing requests through in any
  window of one minute, and the same public key and nonce are never accepted twice within
  ten minutes of each other.\<close>

theorem pairing_limits:
  assumes "in_order calls" and "sv_rates s = (\<lambda>host. [])" and "sv_seen s = Map.empty"
  shows "(\<forall>host w. length (window w (accepted_times host (fst (allow_run cr calls s)))) \<le> 10)
    \<and> (\<forall>i j. i < j \<and> j < length (fst (allow_run cr calls s))
         \<and> snd (snd (fst (allow_run cr calls s) ! i)) = snd (snd (fst (allow_run cr calls s) ! j)) \<longrightarrow>
         fst (fst (allow_run cr calls s) ! j) - fst (fst (allow_run cr calls s) ! i) > 10 * minute)"
proof (cases calls)
  case Nil
  then show ?thesis by (simp add: accepted_times_def window_def)
next
  case (Cons c cs)
  have "limits_ok ([] @ fst (allow_run cr calls s))"
  proof (rule allow_run_limits)
    show "in_order calls" by (rule assms(1))
    show "\<forall>d\<in>set calls. fst c \<le> fst d" using assms(1) by (auto simp: in_order_def Cons)
    show "remembers cr [] (fst c) s" by (simp add: remembers_def assms accepted_times_def)
  qed (simp_all add: limits_ok_def accepted_times_def window_def)
  then show ?thesis by (simp add: limits_ok_def)
qed

lemma allowPair_frame:
  assumes "allowPair cr now remote k s = (ok, s')"
  shows "sv_p s' = sv_p s" "sv_heap s' = sv_heap s" "sv_next s' = sv_next s" "sv_admin s' = sv_admin s"
    "sv_store s' = sv_store s" "sv_disk s' = sv_disk s" "sv_audit s' = sv_audit s"
  using assms by (auto simp: allowPair_def Let_def split: if_splits)


definition empty_server :: server where
  "empty_server = \<lparr>sv_p = Map.empty, sv_heap = Map.empty, sv_next = 0, sv_admin = ''admin-token-of-24-characters'',
     sv_seen = Map.empty, sv_rates = (\<lambda>host. []), sv_store = Some ''state.json'', sv_disk = Missing, sv_audit = []\<rparr>"

definition sample_calls :: "attempt list" where
  "sample_calls = map (\<lambda>i. (i * second, ''10.0.0.1:5'', Itoa i)) [0, 1, 2, 3, 4, 5, 6, 7, 8, 9, 10, 11]
     @ [(700 * second, ''10.0.0.1:5'', Itoa 0)]"

theorem pairing_limits_witness:
  "length (fst (allow_run toy_crypto sample_calls empty_server)) = 11
   \<and> length (window 0 (accepted_times ''10.0.0.1'' (fst (allow_run toy_crypto sample_calls empty_server)))) \<le> 10"
proof
  show "length (fst (allow_run toy_crypto sample_calls empty_server)) = 11"
    by code_simp
  have "in_order sample_calls" by code_simp
  then show "length (window 0 (accepted_times ''10.0.0.1'' (fst (allow_run toy_crypto sample_calls empty_server)))) \<le> 10"
    using pairing_limits [of sample_calls empty_server toy_crypto] by (simp add: empty_server_def)
qed

section \<open>What the handlers do\<close>

lemma pair_run:
  assumes "pair cr env meth remote b s = (resp, t)"
  shows "(t = s \<and> resp_code resp \<noteq> 202)
    \<or> (\<exists>q ok u. limitedJSON b = Some q \<and> meth = ''POST'' \<and> q_Protocol q = Version \<and> validPairRequest q
        \<and> Verify cr (q_PublicKey q) (q_Signature q) (CanonicalPairRequest q)
        \<and> allowPair cr (pe_now env) remote (q_PublicKey q @ [nul] @ q_Nonce q) s = (ok, u)
        \<and> (resp, t) = (if \<not> ok then (respond 429 (ErrorBody ''rate limited or replayed''), u)
                      else pair_store cr env remote q u))"
  using assms by (auto simp: pair_def split: if_splits option.splits prod.splits)


lemma approveRequest_run:
  assumes "approveRequest cr env rid minutes s = (out, t)"
  shows "(\<exists>e. out = Inl e \<and> t = s)
    \<or> (\<exists>r x. find_ref s rid = Some (r, x) \<and> r_Status (p_Reply x) = ''pending''
          \<and> go_quot (wrap64 (q_DurationSeconds (p_Req x) + 59)) 60 \<in> {1..60}
          \<and> minutes \<in> {1..go_quot (wrap64 (q_DurationSeconds (p_Req x) + 59)) 60}
          \<and> out = Inr (ae_now env + minutes * minute)
          \<and> save_state (ae_fault env) (put r (approved_entry cr env minutes x) s) = (None, t))"
proof (cases "find_ref s rid")
  case None
  then show ?thesis using assms by (auto simp: approveRequest_def)
next
  case (Some p)
  obtain r x where p: "p = (r, x)" by (cases p)
  have heap: "sv_heap s r = Some x" using Some by (simp add: p find_ref_Some)
  let ?x = "approved_entry cr env minutes x"
  let ?max = "go_quot (wrap64 (q_DurationSeconds (p_Req x) + 59)) 60"
  obtain e u where save: "save_state (ae_fault env) (put r ?x s) = (e, u)" by fastforce
  have undo: "?x\<lparr>p_Reply := p_Reply x, p_TokenHash := p_TokenHash x, p_Queue := p_Queue x,
      p_Commands := (case p_Commands x (c_ID (initial_command env)) of
          Some previous \<Rightarrow> (p_Commands ?x)(c_ID (initial_command env) \<mapsto> previous)
        | None \<Rightarrow> delete (c_ID (initial_command env)) (p_Commands ?x))\<rparr> = x"
    by (auto simp: approved_entry_def Let_def delete_def fun_upd_idem split: option.split)
  have expires: "r_ExpiresAt (p_Reply ?x) = ae_now env + minutes * minute"
    by (simp add: approved_entry_def Let_def)
  show ?thesis
  proof (cases "r_Status (p_Reply x) = ''pending'' \<and> 1 \<le> ?max \<and> ?max \<le> 60 \<and> 1 \<le> minutes \<and> minutes \<le> ?max")
    case False
    then show ?thesis using assms(1) Some by (auto simp: approveRequest_def p Let_def not_le split: if_splits)
  next
    case True
    then show ?thesis
      using assms(1) Some save save_state_Some [of "ae_fault env" "put r ?x s"] put_same [OF heap]
      by (cases e) (auto simp: approveRequest_def p Let_def undo expires)
  qed
qed

lemma approval_bound:
  assumes "in_int64 d" and "go_quot (wrap64 (d + 59)) 60 \<in> {1..60}"
    and "minutes \<in> {1..go_quot (wrap64 (d + 59)) 60}"
  shows "minutes * 60 < d + 60"
proof -
  have "in_int64 (d + 59)"
  proof (rule ccontr)
    assume "\<not> in_int64 (d + 59)"
    then have "wrap64 (d + 59) < 0"
      using assms(1) wrap64_overflow [of "d + 59"] by (auto simp: in_int64_def)
    then show False using assms(2) go_quot_nonpos [of "wrap64 (d + 59)" 60] by simp
  qed
  then have max: "go_quot (wrap64 (d + 59)) 60 = go_quot (d + 59) 60" by (simp add: wrap64_id)
  then have "0 \<le> d + 59" using assms(2) by (auto simp: go_quot_def sgn_if split: if_splits)
  then have "minutes \<le> (d + 59) div 60" using assms(3) max by (simp add: go_quot_nonneg)
  then show ?thesis by linarith
qed

text \<open>C11 Approving a request grants at most what the guest asked for, or changes nothing.  If
  \<^verbatim>\<open>approveRequest\<close> succeeds, the request was pending, the granted minutes are between 1 and 60
  and less than one minute beyond the requested duration, the session expires exactly that
  much later, and the new table is in the state file; if it returns an error, also after a
  failed save, the whole state of the broker is what it was.\<close>

theorem approve_bounded_or_unchanged:
  assumes "approveRequest cr env rid minutes s = (out, s')" and "heap_ok s"
    and "\<And>x. entries s rid = Some x \<Longrightarrow> in_int64 (q_DurationSeconds (p_Req x))"
  shows "case out of
      Inl e \<Rightarrow> s' = s
    | Inr expires \<Rightarrow>
        \<exists>x. entries s rid = Some x \<and> r_Status (p_Reply x) = ''pending''
          \<and> 1 \<le> minutes \<and> minutes \<le> 60 \<and> minutes * 60 < q_DurationSeconds (p_Req x) + 60
          \<and> expires = ae_now env + minutes * minute
          \<and> entries s' = (entries s)(rid \<mapsto> approved_entry cr env minutes x) \<and> durable s'"
  using approveRequest_run [OF assms(1)]
proof (elim disjE exE conjE)
  fix r x
  assume find: "find_ref s rid = Some (r, x)" and pending: "r_Status (p_Reply x) = ''pending''"
    and max: "go_quot (wrap64 (q_DurationSeconds (p_Req x) + 59)) 60 \<in> {1..60}"
    and minutes: "minutes \<in> {1..go_quot (wrap64 (q_DurationSeconds (p_Req x) + 59)) 60}"
    and out: "out = Inr (ae_now env + minutes * minute)"
    and save: "save_state (ae_fault env) (put r (approved_entry cr env minutes x) s) = (None, s')"
  have ref: "sv_p s rid = Some r" and ent: "entries s rid = Some x"
    using find by (simp_all add: find_ref_Some entries_def)
  have "durable s'" by (rule durable_save [OF save])
  moreover have "entries s' = (entries s)(rid \<mapsto> approved_entry cr env minutes x)"
    using save_state_None [OF save] entries_put [OF assms(2) ref] by auto
  ultimately show ?thesis
    using approval_bound [OF assms(3) [OF ent] max minutes] max minutes ent pending out by auto
qed auto

section \<open>Concrete runs\<close>

definition lax_crypto :: crypto where
  "lax_crypto = toy_crypto\<lparr>ed25519_verify := (\<lambda>k m s. True)\<rparr>"

definition signed_request :: pair_request where
  "signed_request = sample_request\<lparr>q_PublicKey := RawURLEncode (replicate 32 (CHR ''k'')), q_Signature := ''AAAA''\<rparr>"

definition sample_pair_env :: pair_env where
  "sample_pair_env = \<lparr>pe_now = hour, pe_created = hour, pe_logged = hour,
     pe_id = \<lparr>random_bytes = replicate 32 (CHR ''i''), failed = False\<rparr>,
     pe_token = \<lparr>random_bytes = replicate 32 (CHR ''t''), failed = False\<rparr>, pe_fault = None\<rparr>"

definition printable_ascii :: "char \<Rightarrow> bool" where
  "printable_ascii c \<longleftrightarrow> 0x20 \<le> (of_char c :: nat) \<and> (of_char c :: nat) < 0x7F"

lemma printable_ascii_rune: "printable_ascii c \<Longrightarrow> (of_char c :: nat) < 0x80 \<and> label_rune (of_char c)"
  by (simp add: printable_ascii_def label_rune_def IsControl_def byte_in_def)

lemma plain_label:
  assumes "list_all printable_ascii v"
  shows "validGuestLabel v n \<longleftrightarrow> v \<noteq> [] \<and> length v \<le> n"
proof -
  have r: "runes v = map (\<lambda>c. (of_char c, [c])) v"
    using assms by (induction v) (simp_all add: runes_ascii printable_ascii_rune)
  have labels: "list_all (\<lambda>p. label_rune (fst p)) (runes v)"
    using assms by (simp add: r list.pred_map comp_def list.pred_mono_strong [OF assms] printable_ascii_rune)
  then have "repaired False (runes v) = runes v"
    using label_runes_valid [OF labels] by (simp add: repaired_valid valid_utf8_def)
  with labels show ?thesis
    by (simp add: validGuestLabel_def label_loop_iff runes_ToValid r)
qed

lemma plain_samples:
  "validGuestLabel ''usb'' 128" "validGuestLabel ''600'' 255" "validGuestLabel ''guest'' 256"
  "validGuestLabel ''linux'' 32" "validGuestLabel ''amd64'' 32"
  by (subst plain_label; code_simp)+

lemma signed_request_accepted:
  "q_Protocol signed_request = Version" "validPairRequest signed_request"
  "Verify lax_crypto (q_PublicKey signed_request) (q_Signature signed_request) (CanonicalPairRequest signed_request)"
proof -
  have "length (q_PublicKey signed_request) = 43" by code_simp
  moreover have "validCapabilities (q_Requested sample_request)" by code_simp
  ultimately show "validPairRequest signed_request"
    by (simp add: validPairRequest_def signed_request_def sample_request_def plain_samples)
  show "q_Protocol signed_request = Version"
    by (simp add: signed_request_def sample_request_def Version_def)
  have "RawURLDecode ''AAAA'' \<noteq> None" by code_simp
  then show "Verify lax_crypto (q_PublicKey signed_request) (q_Signature signed_request) (CanonicalPairRequest signed_request)"
    by (auto simp: Verify_def signed_request_def lax_crypto_def raw_url.dec_enc)
qed

lemma signed_request_stored:
  "resp_code (fst (pair lax_crypto sample_pair_env ''POST'' ''10.0.0.1:5''
      \<lparr>bd_size = 500, bd_value = Some signed_request\<rparr> empty_server)) = 202"
  by (simp add: pair_def limitedJSON_def limitedJSONN_def signed_request_accepted allowPair_def Let_def
      empty_server_def pair_store_def save_state_def save_result case_prod_unfold sample_pair_env_def
      insert_pending_def)


definition waiting_entry :: pending where
  "waiting_entry = pair_entry toy_crypto sample_pair_env sample_request"

definition waiting_id :: string where
  "waiting_id = r_RequestID (p_Reply waiting_entry)"

definition waiting_server :: server where
  "waiting_server = insert_pending waiting_id waiting_entry empty_server"

definition sample_approve_env :: approve_env where
  "sample_approve_env = \<lparr>ae_token = \<lparr>random_bytes = replicate 32 (CHR ''s''), failed = False\<rparr>,
     ae_now = hour, ae_deadline = hour, ae_logged = hour, ae_fault = None\<rparr>"

lemma waiting_server_ok: "heap_ok waiting_server"
  by (simp add: heap_ok_def waiting_server_def empty_server_def insert_pending_def waiting_id_def)

lemma waiting_entries: "entries waiting_server = [waiting_id \<mapsto> waiting_entry]"
  by (auto simp: entries_def find_ref_def waiting_server_def insert_pending_def empty_server_def fun_eq_iff)

theorem approve_bounded_or_unchanged_witness:
  "\<exists>s. approveRequest toy_crypto sample_approve_env waiting_id 30 waiting_server = (Inr (hour + 30 * minute), s)
     \<and> entries s = [waiting_id \<mapsto> approved_entry toy_crypto sample_approve_env 30 waiting_entry]"
proof -
  obtain out s where run: "approveRequest toy_crypto sample_approve_env waiting_id 30 waiting_server = (out, s)"
    by fastforce
  have "out = fst (approveRequest toy_crypto sample_approve_env waiting_id 30 waiting_server)"
    by (simp add: run)
  also have "\<dots> = Inr (hour + 30 * minute)"
    by code_simp
  finally have out: "out = Inr (hour + 30 * minute)" .
  have "in_int64 (q_DurationSeconds (p_Req x))" if "entries waiting_server waiting_id = Some x" for x
    using that by (auto simp: waiting_entries waiting_entry_def pair_entry_def sample_request_def in_int64_def)
  from approve_bounded_or_unchanged [OF run waiting_server_ok this]
  have "entries s = [waiting_id \<mapsto> approved_entry toy_crypto sample_approve_env 30 waiting_entry]"
    by (auto simp: out waiting_entries)
  with run out show ?thesis by blast
qed

section \<open>Collecting the session token\<close>

definition session_token_ok :: "crypto \<Rightarrow> pending \<Rightarrow> bool" where
  "session_token_ok cr x \<longleftrightarrow>
     r_Status (p_Reply x) = ''approved'' \<and> r_SessionToken (p_Reply x) \<noteq> [] \<longrightarrow>
     p_TokenHash x = Hash cr (r_SessionToken (p_Reply x))"

lemma approved_token_ok: "session_token_ok cr (approved_entry cr env minutes x)"
  by (simp add: session_token_ok_def approved_entry_def Let_def)

lemma recovered_token_ok: "session_token_ok cr (recovered ks x)"
  by (simp add: session_token_ok_def)

definition reissued_entry :: "crypto \<Rightarrow> string \<Rightarrow> pending \<Rightarrow> pending" where
  "reissued_entry cr token x =
     x\<lparr>p_TokenHash := Hash cr token, p_Reply := (p_Reply x)\<lparr>r_SessionToken := token\<rparr>\<rparr>"

text \<open>What a poll of the status comes to: an error without effect, a plain reply, or a new token.\<close>

lemma status_run:
  assumes "status cr now e fault rid authorization s = (resp, t)"
  shows "(resp_code resp = 404 \<and> t = s \<and> \<not> (\<exists>x. entries s rid = Some x \<and> p_PairingTokenHash x = Hash cr (bearer authorization)))
    \<or> (\<exists>r x. find_ref s rid = Some (r, x) \<and> p_PairingTokenHash x = Hash cr (bearer authorization)
        \<and> ((resp_code resp = 500 \<and> t = s)
          \<or> (resp = respond 200 (PairBody ((p_Reply x)\<lparr>r_PairingToken := []\<rparr>)) \<and> t = s
              \<and> \<not> (r_Status (p_Reply x) = ''approved'' \<and> r_SessionToken (p_Reply x) = [] \<and> now < r_ExpiresAt (p_Reply x)))
          \<or> (r_Status (p_Reply x) = ''approved''
              \<and> save_state fault (put r (reissued_entry cr (fst (Token e)) x) s) = (None, t)
              \<and> resp = respond 200 (PairBody ((p_Reply (reissued_entry cr (fst (Token e)) x))\<lparr>r_PairingToken := []\<rparr>)))))"
proof (cases "find_ref s rid")
  case None
  then show ?thesis using assms by (auto simp: status_def entries_def)
next
  case (Some p)
  obtain r x where p: "p = (r, x)" by (cases p)
  have heap: "sv_heap s r = Some x" and ent: "entries s rid = Some x"
    using Some by (simp_all add: p find_ref_Some entries_def)
  let ?x = "reissued_entry cr (fst (Token e)) x"
  let ?reissue = "r_Status (p_Reply x) = ''approved'' \<and> r_SessionToken (p_Reply x) = [] \<and> now < r_ExpiresAt (p_Reply x)"
  obtain m u where save: "save_state fault (put r ?x s) = (m, u)" by fastforce
  show ?thesis
  proof (cases "p_PairingTokenHash x = Hash cr (bearer authorization) \<and> ?reissue \<and> \<not> snd (Token e)")
    case False
    then show ?thesis
      using assms Some ent by (auto simp: status_def p case_prod_unfold split: if_splits)
  next
    case True
    have undo: "x\<lparr>p_Reply := (p_Reply x)\<lparr>r_SessionToken := []\<rparr>\<rparr> = x"
      using True by (cases x, cases "p_Reply x") simp
    have run: "status cr now e fault rid authorization s =
        (case m of Some m \<Rightarrow> (respond 500 (ErrorBody ''state unavailable''), put r x u)
         | None \<Rightarrow> (respond 200 (PairBody ((p_Reply ?x)\<lparr>r_PairingToken := []\<rparr>)), u))"
      using True Some save
      by (simp add: status_def p case_prod_unfold Let_def reissued_entry_def undo split: option.split)
    show ?thesis
    proof (cases m)
      case None
      then show ?thesis using assms run True Some save by (simp add: p)
    next
      case (Some msg)
      then have "u = put r ?x s" using save save_state_Some by blast
      then show ?thesis
        using assms run True \<open>find_ref s rid = Some p\<close> Some put_same [OF heap] by (auto simp: p)
    qed
  qed
qed

text \<open>Whoever holds the poll token of an approved, unexpired request gets a session token
  that authenticates, also after a restart has dropped the token from memory: the hash on
  record is then the hash of the token in the reply.  Everybody else gets 404, and an
  error answer leaves the state as it was.\<close>

theorem status_delivers_live_token:
  assumes "status cr now e fault rid authorization s = (resp, s')" and "heap_ok s"
    and "\<And>x. entries s rid = Some x \<Longrightarrow> session_token_ok cr x"
  shows "if (\<exists>x. entries s rid = Some x \<and> p_PairingTokenHash x = Hash cr (bearer authorization))
    then (resp_code resp = 500 \<and> s' = s)
      \<or> (resp_code resp = 200 \<and>
          (\<exists>x y reply. entries s rid = Some x \<and> entries s' = (entries s)(rid \<mapsto> y) \<and> resp_body resp = PairBody reply
            \<and> r_Status reply = r_Status (p_Reply x) \<and> r_ExpiresAt reply = r_ExpiresAt (p_Reply x)
            \<and> (r_Status reply = ''approved'' \<and> now < r_ExpiresAt reply \<longrightarrow>
                p_TokenHash y = Hash cr (r_SessionToken reply))))
    else resp_code resp = 404 \<and> s' = s"
  using status_run [OF assms(1)]
proof (elim disjE exE conjE)
  fix r x
  assume find: "find_ref s rid = Some (r, x)" and auth: "p_PairingTokenHash x = Hash cr (bearer authorization)"
  have ref: "sv_p s rid = Some r" and ent: "entries s rid = Some x"
    using find by (simp_all add: find_ref_Some entries_def)
  {
    assume "resp_code resp = 500" "s' = s"
    then show ?thesis using ent auth by auto
  next
    assume "resp = respond 200 (PairBody ((p_Reply x)\<lparr>r_PairingToken := []\<rparr>))" "s' = s"
      "\<not> (r_Status (p_Reply x) = ''approved'' \<and> r_SessionToken (p_Reply x) = [] \<and> now < r_ExpiresAt (p_Reply x))"
    moreover have "entries s = (entries s)(rid \<mapsto> x)" by (simp add: ent fun_upd_idem)
    ultimately show ?thesis
      using ent auth assms(3) [OF ent] by (auto simp: session_token_ok_def)
  next
    assume save: "save_state fault (put r (reissued_entry cr (fst (Token e)) x) s) = (None, s')"
      and "resp = respond 200 (PairBody ((p_Reply (reissued_entry cr (fst (Token e)) x))\<lparr>r_PairingToken := []\<rparr>))"
    moreover have "entries s' = (entries s)(rid \<mapsto> reissued_entry cr (fst (Token e)) x)"
      using save_state_None [OF save] entries_put [OF assms(2) ref] by auto
    ultimately show ?thesis
      using ent auth by (auto simp: reissued_entry_def)
  }
qed auto

definition sample_approved :: server where
  "sample_approved = insert_pending waiting_id
     ((approved_entry toy_crypto sample_approve_env 30 waiting_entry)
        \<lparr>p_Reply := (p_Reply waiting_entry)\<lparr>r_Status := ''approved'', r_ExpiresAt := 2 * hour\<rparr>\<rparr>) empty_server"

theorem status_delivers_live_token_witness:
  "resp_code (fst (status toy_crypto hour \<lparr>random_bytes = ''fresh'', failed = False\<rparr> None waiting_id ''Bearer nobody'' sample_approved)) = 404"
proof -
  have ok: "heap_ok sample_approved"
    by (simp add: heap_ok_def sample_approved_def empty_server_def insert_pending_def waiting_id_def)
  have ents: "entries sample_approved = [waiting_id \<mapsto> (approved_entry toy_crypto sample_approve_env 30 waiting_entry)
        \<lparr>p_Reply := (p_Reply waiting_entry)\<lparr>r_Status := ''approved'', r_ExpiresAt := 2 * hour\<rparr>\<rparr>]"
    by (auto simp: entries_def find_ref_def sample_approved_def insert_pending_def empty_server_def fun_eq_iff)
  have "r_SessionToken (p_Reply waiting_entry) = []" by (simp add: waiting_entry_def pair_entry_def)
  then have "session_token_ok toy_crypto x" if "entries sample_approved waiting_id = Some x" for x
    using that by (auto simp: ents session_token_ok_def)
  note run = status_delivers_live_token [OF prod.collapse [symmetric] ok this, where rid = waiting_id and now = hour
      and e = "\<lparr>random_bytes = ''fresh'', failed = False\<rparr>" and fault = None and authorization = "''Bearer nobody''"]
  have "p_PairingTokenHash (approved_entry toy_crypto sample_approve_env 30 waiting_entry)
      \<noteq> Hash toy_crypto (bearer ''Bearer nobody'')"
    by code_simp
  with run show ?thesis by (simp add: ents)
qed

definition rejected_entry :: "pending \<Rightarrow> pending" where
  "rejected_entry x = x\<lparr>p_Reply := (p_Reply x)\<lparr>r_Status := ''rejected''\<rparr>\<rparr>"

text \<open>A rejection that fails changes nothing; one that succeeds is in the file.\<close>

lemma rejectRequest_run:
  assumes "rejectRequest now fault rid s = (out, t)"
  shows "(\<exists>e. out = Some e \<and> t = s)
    \<or> (out = None \<and> (\<exists>r x u. find_ref s rid = Some (r, x) \<and> r_Status (p_Reply x) = ''pending''
          \<and> save_state fault (put r (rejected_entry x) s) = (None, u)
          \<and> t = log_event now ''pair_rejected'' [''requestId'' \<mapsto> AString rid] u))"
proof (cases "find_ref s rid")
  case None
  then show ?thesis using assms by (auto simp: rejectRequest_def)
next
  case (Some p)
  obtain r x where p: "p = (r, x)" by (cases p)
  have heap: "sv_heap s r = Some x" using Some by (simp add: p find_ref_Some)
  obtain m u where save: "save_state fault (put r (rejected_entry x) s) = (m, u)" by fastforce
  have undo: "(rejected_entry x)\<lparr>p_Reply := p_Reply x\<rparr> = x" by (simp add: rejected_entry_def)
  have run: "rejectRequest now fault rid s =
      (if r_Status (p_Reply x) \<noteq> ''pending'' then (Some (RequestError 404 ''pending request not found''), s)
       else (case m of Some m \<Rightarrow> (Some (RequestError 500 ''state unavailable''), put r x u)
             | None \<Rightarrow> (None, log_event now ''pair_rejected'' [''requestId'' \<mapsto> AString rid] u)))"
    using Some save undo
    by (simp add: rejectRequest_def p Let_def rejected_entry_def split: option.split)
  show ?thesis
    using assms run Some save save_state_Some [of fault "put r (rejected_entry x) s"] put_same [OF heap]
    by (cases m) (auto simp: p split: if_splits)
qed

end
