(* ===== verification/Broker_Commands.thy ===== *)
theory Broker_Commands imports Broker_Pairing begin

text \<open>
  Commands: \<^verbatim>\<open>enqueue\<close>, \<^verbatim>\<open>session\<close>, \<^verbatim>\<open>poll\<close>, \<^verbatim>\<open>ack\<close>, \<^verbatim>\<open>result\<close>, \<^verbatim>\<open>revoke\<close>,
  \<^verbatim>\<open>adminRevoke\<close> and \<^verbatim>\<open>janitor\<close> of \<^verbatim>\<open>cmd/pairing-broker/main.go\<close>.  A handler that looks a
  session up releases the mutex before it goes on with its pointer, so each of them is
  two definitions: the lookup, which gives a reference, and the locked section that acts
  on the reference later, when other handlers may have run.
\<close>

section \<open>Queueing a command\<close>

definition capabilities :: "string \<Rightarrow> server \<Rightarrow> string list" where
  "capabilities rid s = (case find_ref s rid of Some (r, x) \<Rightarrow> q_Requested (p_Req x) | None \<Rightarrow> [])"

record enqueue_query =
  eq_RequestID :: string
  eq_Command :: command

record enqueue_env =
  ee_default :: time
  ee_check :: time
  ee_logged :: time
  ee_fault :: "save_stage option"

definition max_params :: "string \<Rightarrow> nat" where
  "max_params name = (if name = ''files.write-chunk'' then 2 * 1024 * 1024 else 32 * 1024)"

definition queue_limit :: "bool \<Rightarrow> nat" where
  "queue_limit control = (if control then 4 else 16)"

text \<open>The entry with the command in it: control commands go to the front of the queue.\<close>

definition enqueued_entry :: "commandState \<Rightarrow> pending \<Rightarrow> pending" where
  "enqueued_entry st x =
     (let cid = c_ID (cs_Command st)
      in x\<lparr>p_Commands := (p_Commands x)(cid \<mapsto> st),
           p_Queue := (if isControlCommand (c_Name (cs_Command st)) then [cid] @ p_Queue x
                       else p_Queue x @ [cid])\<rparr>)"

definition enqueue_locked :: "crypto \<Rightarrow> enqueue_env \<Rightarrow> string \<Rightarrow> command \<Rightarrow> server \<Rightarrow> response \<times> server" where
  "enqueue_locked cr env rid cmd s =
     (case find_ref s rid of
        None \<Rightarrow> (respond 409 (ErrorBody ''session not active''), s)
      | Some (r, x) \<Rightarrow>
          if r_Status (p_Reply x) \<noteq> ''approved'' then (respond 409 (ErrorBody ''session not active''), s)
          else
            let st = newCommandState cr cmd; cid = c_ID cmd
            in (case p_Commands x cid of
                  Some existing \<Rightarrow>
                    if cs_Fingerprint existing = cs_Fingerprint st then
                      (respond 200 (CommandStatus (cs_Status existing) cid True), s)
                    else (respond 409 (CommandError ''command ID already used with different payload'' cid), s)
                | None \<Rightarrow>
                    let (regular, control) = queueDepths x; isControl = isControlCommand (c_Name cmd)
                    in if (\<not> isControl \<and> 16 \<le> regular) \<or> (isControl \<and> 4 \<le> control) then
                         (respond_with (''Retry-After'', ''1'') 409
                            (QueueFull (length (p_Queue x)) (queue_limit isControl)), s)
                       else
                         let x' = enqueued_entry st x
                         in (case save_state (ee_fault env) (put r x' s) of
                               (Some m, s) \<Rightarrow>
                                 (respond 500 (ErrorBody ''state unavailable''),
                                  put r (x'\<lparr>p_Commands := delete cid (p_Commands x'), p_Queue := p_Queue x\<rparr>) s)
                             | (None, s) \<Rightarrow>
                                 (respond 202 (Queued cid (length (p_Queue x')) (queue_limit isControl)),
                                  log_event (ee_logged env) ''command_queued''
                                    [''requestId'' \<mapsto> AString rid, ''commandId'' \<mapsto> AString cid,
                                     ''name'' \<mapsto> AString (c_Name cmd)] s))))"

text \<open>The checks before the lock: the answer, or the command with its deadline filled in.\<close>

definition enqueue_admit :: "enqueue_env \<Rightarrow> string \<Rightarrow> enqueue_query body \<Rightarrow> server
    \<Rightarrow> response + (string \<times> command)" where
  "enqueue_admit env authorization b s =
     (if \<not> isAdmin s authorization then Inl (respond 401 Null)
      else case limitedJSONN (2 * 1024 * 1024) b of
        None \<Rightarrow> Inl (respond 400 (ErrorBody ''invalid request''))
      | Some q \<Rightarrow>
          let cmd = eq_Command q
          in if c_ID cmd = [] \<or> 128 < length (c_ID cmd)
                \<or> \<not> contains (capabilities (eq_RequestID q) s) (c_Name cmd)
                \<or> max_params (c_Name cmd) < length (c_Params cmd) then
               Inl (respond 403 (ErrorBody ''command not authorized''))
             else
               let cmd = (if IsZero (c_Deadline cmd) then cmd\<lparr>c_Deadline := ee_default env + 30 * second\<rparr> else cmd)
               in if ee_check env + hour < c_Deadline cmd then Inl (respond 400 Null)
                  else Inr (eq_RequestID q, cmd))"

definition enqueue :: "crypto \<Rightarrow> enqueue_env \<Rightarrow> string \<Rightarrow> enqueue_query body \<Rightarrow> server \<Rightarrow> response \<times> server" where
  "enqueue cr env authorization b s =
     (case enqueue_admit env authorization b s of
        Inl resp \<Rightarrow> (resp, s)
      | Inr (rid, cmd) \<Rightarrow> enqueue_locked cr env rid cmd s)"

section \<open>The session of a token\<close>

definition session_match :: "crypto \<Rightarrow> time \<Rightarrow> string \<Rightarrow> pending \<Rightarrow> bool" where
  "session_match cr now tok x \<longleftrightarrow>
     p_TokenHash x \<noteq> [] \<and> p_TokenHash x = Hash cr tok \<and> r_Status (p_Reply x) = ''approved''
     \<and> now < r_ExpiresAt (p_Reply x)"

fun session_scan :: "crypto \<Rightarrow> time \<Rightarrow> string \<Rightarrow> string list \<Rightarrow> server \<Rightarrow> nat option" where
  "session_scan cr now tok [] s = None"
| "session_scan cr now tok (k # ks) s =
     (case find_ref s k of
        None \<Rightarrow> session_scan cr now tok ks s
      | Some (r, x) \<Rightarrow> if session_match cr now tok x then Some r else session_scan cr now tok ks s)"

definition session :: "crypto \<Rightarrow> time \<Rightarrow> string list \<Rightarrow> string \<Rightarrow> server \<Rightarrow> nat option" where
  "session cr now order authorization s = session_scan cr now (bearer authorization) order s"

section \<open>Polling\<close>

definition lease_expired :: "time \<Rightarrow> commandState \<Rightarrow> bool" where
  "lease_expired now st \<longleftrightarrow> cs_Status st = ''leased'' \<and> cs_LeaseUntil st < now"

fun release_expired :: "time \<Rightarrow> string list \<Rightarrow> pending \<Rightarrow> pending" where
  "release_expired now [] x = x"
| "release_expired now (k # ks) x =
     (case p_Commands x k of
        None \<Rightarrow> release_expired now ks x
      | Some st \<Rightarrow>
          if lease_expired now st then
            release_expired now ks
              (x\<lparr>p_Commands := (p_Commands x)(k \<mapsto> st\<lparr>cs_Status := ''queued'', cs_LeaseUntil := zero_time\<rparr>),
                 p_Queue := p_Queue x @ [k]\<rparr>)
          else release_expired now ks x)"

text \<open>
  One round of the loop: the clock readings, the order in which the commands are visited,
  the failure of the save, and whether the client has gone when the round ends by waiting.
\<close>

record poll_round =
  pr_now :: time
  pr_order :: "string list"
  pr_leased :: time
  pr_active :: time
  pr_checked :: time
  pr_fault :: "save_stage option"
  pr_gone :: bool

datatype poll_step = Deliver command | SaveFailed | NoCommand | Skip | Sleep

definition lease_entry :: "time \<Rightarrow> commandState \<Rightarrow> pending \<Rightarrow> pending" where
  "lease_entry now st x =
     x\<lparr>p_Commands := (p_Commands x)(hd (p_Queue x) \<mapsto>
         st\<lparr>cs_Status := ''leased'', cs_LeaseUntil := now + 10 * second\<rparr>),
       p_Queue := tl (p_Queue x)\<rparr>"

definition poll_iter :: "time \<Rightarrow> poll_round \<Rightarrow> nat \<Rightarrow> server \<Rightarrow> poll_step \<times> server" where
  "poll_iter deadline env r s =
     (case sv_heap s r of
        None \<Rightarrow> (NoCommand, s)
      | Some x0 \<Rightarrow>
          let x = release_expired (pr_now env) (pr_order env) x0
          in (case p_Queue x of
                i # q \<Rightarrow>
                  (case p_Commands x i of
                     None \<Rightarrow> (Skip, put r (x\<lparr>p_Queue := q\<rparr>) s)
                   | Some st \<Rightarrow>
                       if cs_Status st \<noteq> ''queued'' then (Skip, put r (x\<lparr>p_Queue := q\<rparr>) s)
                       else
                         (case save_state (pr_fault env) (put r (lease_entry (pr_leased env) st x) s) of
                            (Some m, s) \<Rightarrow> (SaveFailed, s)
                          | (None, s) \<Rightarrow> (Deliver (cs_Command st), s)))
              | [] \<Rightarrow>
                  let active = (r_Status (p_Reply x) = ''approved'' \<and> pr_active env < r_ExpiresAt (p_Reply x))
                  in (if \<not> active \<or> deadline < pr_checked env then NoCommand else Sleep, put r x s)))"

text \<open>The loop over its rounds; \<open>None\<close> when the rounds run out or the client has gone.\<close>

fun poll_loop :: "time \<Rightarrow> poll_round list \<Rightarrow> nat \<Rightarrow> server \<Rightarrow> response option \<times> server" where
  "poll_loop deadline [] r s = (None, s)"
| "poll_loop deadline (env # envs) r s =
     (case poll_iter deadline env r s of
        (Deliver cmd, s) \<Rightarrow> (Some (respond 200 (CommandBody cmd)), s)
      | (SaveFailed, s) \<Rightarrow> (Some (respond 500 (ErrorBody ''state unavailable'')), s)
      | (NoCommand, s) \<Rightarrow> (Some \<lparr>resp_code = 204, resp_headers = [], resp_body = NoContent\<rparr>, s)
      | (Skip, s) \<Rightarrow> poll_loop deadline envs r s
      | (Sleep, s) \<Rightarrow> if pr_gone env then (None, s) else poll_loop deadline envs r s)"

definition poll :: "crypto \<Rightarrow> time \<Rightarrow> string list \<Rightarrow> time \<Rightarrow> poll_round list \<Rightarrow> string \<Rightarrow> server
    \<Rightarrow> response option \<times> server" where
  "poll cr now order start envs authorization s =
     (case session cr now order authorization s of
        None \<Rightarrow> (Some (respond 401 Null), s)
      | Some r \<Rightarrow> poll_loop (start + 25 * second) envs r s)"

section \<open>Acknowledging and completing\<close>

definition acked_entry :: "string \<Rightarrow> commandState \<Rightarrow> pending \<Rightarrow> pending" where
  "acked_entry cid st x =
     x\<lparr>p_Commands := (p_Commands x)(cid \<mapsto> st\<lparr>cs_Status := ''running'', cs_LeaseUntil := zero_time\<rparr>)\<rparr>"

definition ack_locked :: "time \<Rightarrow> time \<Rightarrow> save_stage option \<Rightarrow> nat \<Rightarrow> string \<Rightarrow> server \<Rightarrow> response \<times> server" where
  "ack_locked now logged fault r cid s =
     (case sv_heap s r of
        None \<Rightarrow> (respond 409 (CommandError ''command lease is not active'' cid), s)
      | Some x \<Rightarrow>
          (case p_Commands x cid of
             None \<Rightarrow> (respond 409 (CommandError ''command lease is not active'' cid), s)
           | Some st \<Rightarrow>
               if cs_Status st \<noteq> ''leased'' \<or> cs_LeaseUntil st < now then
                 (respond 409 (CommandError ''command lease is not active'' cid), s)
               else
                 (case save_state fault (put r (acked_entry cid st x) s) of
                    (Some m, s) \<Rightarrow> (respond 500 (ErrorBody ''state unavailable''), s)
                  | (None, s) \<Rightarrow>
                      (respond 200 (CommandStatus ''running'' cid False),
                       log_event logged ''command_acknowledged'' [''commandId'' \<mapsto> AString cid] s))))"

record locked_env =
  le_session :: time
  le_order :: "string list"
  le_now :: time
  le_logged :: time
  le_fault :: "save_stage option"

definition ack :: "crypto \<Rightarrow> locked_env \<Rightarrow> string \<Rightarrow> string body \<Rightarrow> server \<Rightarrow> response \<times> server" where
  "ack cr env authorization b s =
     (case session cr (le_session env) (le_order env) authorization s of
        None \<Rightarrow> (respond 401 Null, s)
      | Some r \<Rightarrow>
          (case limitedJSON b of
             None \<Rightarrow> (respond 400 (ErrorBody ''invalid request''), s)
           | Some cid \<Rightarrow>
               if cid = [] then (respond 400 (ErrorBody ''commandId is required''), s)
               else ack_locked (le_now env) (le_logged env) (le_fault env) r cid s))"

definition completed_entry :: "result \<Rightarrow> commandState \<Rightarrow> pending \<Rightarrow> pending" where
  "completed_entry q st x =
     x\<lparr>p_Commands := (p_Commands x)(res_ID q \<mapsto> st\<lparr>cs_Status := ''completed''\<rparr>),
       p_Results := (if length (p_Results x) < 128 then p_Results x @ [q] else p_Results x)\<rparr>"

definition result_locked :: "time \<Rightarrow> save_stage option \<Rightarrow> nat \<Rightarrow> result \<Rightarrow> server \<Rightarrow> response \<times> server" where
  "result_locked logged fault r q s =
     (case sv_heap s r of
        None \<Rightarrow> (respond 409 (CommandError ''result does not match a running command'' (res_ID q)), s)
      | Some x \<Rightarrow>
          (case p_Commands x (res_ID q) of
             None \<Rightarrow> (respond 409 (CommandError ''result does not match a running command'' (res_ID q)), s)
           | Some st \<Rightarrow>
               if c_Name (cs_Command st) \<noteq> res_Name q \<or> cs_Status st \<noteq> ''running'' then
                 (respond 409 (CommandError ''result does not match a running command'' (res_ID q)), s)
               else
                 (case save_state fault (put r (completed_entry q st x) s) of
                    (Some m, s) \<Rightarrow> (respond 500 (ErrorBody ''state unavailable''), s)
                  | (None, s) \<Rightarrow>
                      (respond 200 (StatusBody ''accepted''),
                       log_event logged ''command_result''
                         [''commandId'' \<mapsto> AString (res_ID q), ''name'' \<mapsto> AString (res_Name q),
                          ''error'' \<mapsto> AString (res_Error q)] s))))"

text \<open>\<^verbatim>\<open>result\<close> is a handler of the server; the record \<open>result\<close> is what it receives.\<close>

definition result_handler :: "crypto \<Rightarrow> locked_env \<Rightarrow> string \<Rightarrow> result body \<Rightarrow> server \<Rightarrow> response \<times> server" where
  "result_handler cr env authorization b s =
     (case session cr (le_session env) (le_order env) authorization s of
        None \<Rightarrow> (respond 401 Null, s)
      | Some r \<Rightarrow>
          (case limitedJSONN (3 * 1024 * 1024) b of
             None \<Rightarrow> (respond 400 (ErrorBody ''invalid request''), s)
           | Some q \<Rightarrow>
               if res_ID q = []
                  \<or> \<not> contains (case sv_heap s r of Some x \<Rightarrow> q_Requested (p_Req x) | None \<Rightarrow> []) (res_Name q)
                  \<or> 2 * 1024 * 1024 < length (res_Output q) then (respond 400 Null, s)
               else result_locked (le_logged env) (le_fault env) r q s))"

section \<open>Revoking and cleaning up\<close>

definition revoke_locked :: "time \<Rightarrow> save_stage option \<Rightarrow> nat \<Rightarrow> server \<Rightarrow> response \<times> server" where
  "revoke_locked logged fault r s =
     (case sv_heap s r of
        None \<Rightarrow> (respond 500 Null, s)
      | Some x \<Rightarrow>
          let x' = x\<lparr>p_Reply := (p_Reply x)\<lparr>r_Status := ''revoked''\<rparr>, p_TokenHash := []\<rparr>
          in (case save_state fault (put r x' s) of
                (Some m, s) \<Rightarrow> (respond 500 (ErrorBody ''state unavailable''), s)
              | (None, s) \<Rightarrow> (respond 200 (StatusBody ''revoked''), log_event logged ''session_revoked'' Map.empty s)))"

definition revoke :: "crypto \<Rightarrow> locked_env \<Rightarrow> string \<Rightarrow> server \<Rightarrow> response \<times> server" where
  "revoke cr env authorization s =
     (case session cr (le_session env) (le_order env) authorization s of
        None \<Rightarrow> (respond 401 Null, s)
      | Some r \<Rightarrow> revoke_locked (le_logged env) (le_fault env) r s)"

definition revoked_entry :: "pending \<Rightarrow> pending" where
  "revoked_entry x =
     x\<lparr>p_Reply := (p_Reply x)\<lparr>r_Status := ''revoked''\<rparr>, p_TokenHash := [], p_Queue := []\<rparr>"

definition adminRevoke :: "time \<Rightarrow> save_stage option \<Rightarrow> string \<Rightarrow> string body \<Rightarrow> server \<Rightarrow> response \<times> server" where
  "adminRevoke logged fault authorization b s =
     (if \<not> isAdmin s authorization then (respond 401 Null, s)
      else case limitedJSON b of
        None \<Rightarrow> (respond 400 (ErrorBody ''invalid request''), s)
      | Some rid \<Rightarrow>
          (case find_ref s rid of
             None \<Rightarrow> (respond 404 Null, s)
           | Some (r, x) \<Rightarrow>
               (case save_state fault (put r (revoked_entry x) s) of
                  (Some m, s) \<Rightarrow> (respond 500 (ErrorBody ''state unavailable''), s)
                | (None, s) \<Rightarrow>
                    (respond 200 (StatusBody ''revoked''),
                     log_event logged ''session_admin_revoked'' [''requestId'' \<mapsto> AString rid] s))))"

definition stale :: "time \<Rightarrow> pending \<Rightarrow> bool" where
  "stale now x \<longleftrightarrow>
     (r_Status (p_Reply x) = ''pending'' \<and> now - p_CreatedAt x > 10 * minute)
     \<or> ((r_Status (p_Reply x) = ''revoked'' \<or> r_Status (p_Reply x) = ''rejected''
         \<or> (\<not> IsZero (r_ExpiresAt (p_Reply x)) \<and> r_ExpiresAt (p_Reply x) < now))
        \<and> now - p_CreatedAt x > 10 * minute)"

text \<open>One tick of the janitor; \<open>ids\<close> is the order in which the table is visited.\<close>

fun janitor_sweep :: "time \<Rightarrow> string list \<Rightarrow> bool \<Rightarrow> server \<Rightarrow> bool \<times> server" where
  "janitor_sweep now [] changed s = (changed, s)"
| "janitor_sweep now (rid # ids) changed s =
     (case find_ref s rid of
        None \<Rightarrow> janitor_sweep now ids changed s
      | Some (r, x) \<Rightarrow>
          if stale now x then janitor_sweep now ids True (delete_pending rid s)
          else janitor_sweep now ids changed s)"

definition janitor :: "time \<Rightarrow> save_stage option \<Rightarrow> string list \<Rightarrow> server \<Rightarrow> server" where
  "janitor now fault ids s =
     (case janitor_sweep now ids False s of
        (changed, s) \<Rightarrow> if changed then snd (save_state fault s) else s)"

section \<open>What a fingerprint identifies\<close>

lemma fingerprint_text_iff:
  assumes "list_all plain_char n" and "list_all plain_char m"
  shows "fingerprint_text n p = fingerprint_text m q \<longleftrightarrow>
    n = m \<and> (p = [] \<longleftrightarrow> q = []) \<and> (p \<noteq> [] \<longrightarrow> Compact p = Compact q)"
proof -
  define tail :: "string \<Rightarrow> string" where
    "tail p = (if p = [] then [] else '','' @ json_string ''params'' @ '':'' @ Compact p) @ ''}''" for p
  have eq: "fingerprint_text n p = ''{'' @ json_string ''name'' @ '':'' @ quote # n @ quote # tail p"
    if "list_all plain_char n" for n p
    using that by (simp add: fingerprint_text_def json_string_plain tail_def)
  have noquote: "quote \<notin> set n" if "list_all plain_char n" for n
    using that by (auto simp: list_all_iff plain_char_def)
  have "fingerprint_text n p = fingerprint_text m q \<longleftrightarrow> n @ quote # tail p = m @ quote # tail q"
    by (simp add: eq assms)
  also have "\<dots> \<longleftrightarrow> n = m \<and> tail p = tail q"
    using terminated_append_inj [of n quote "tail p" m "tail q"] assms noquote by auto
  also have "tail p = tail q \<longleftrightarrow> (p = [] \<longleftrightarrow> q = []) \<and> (p \<noteq> [] \<longrightarrow> Compact p = Compact q)"
    by (auto simp: tail_def)
  finally show ?thesis .
qed

lemma same_fingerprint:
  assumes "inj (sha256 cr)" and "list_all plain_char (c_Name a)" and "list_all plain_char (c_Name b)"
  shows "cs_Fingerprint (newCommandState cr a) = cs_Fingerprint (newCommandState cr b) \<longleftrightarrow>
    c_Name a = c_Name b \<and> (c_Params a = [] \<longleftrightarrow> c_Params b = [])
    \<and> (c_Params a \<noteq> [] \<longrightarrow> Compact (c_Params a) = Compact (c_Params b))"
  using inj_eq [OF assms(1)] fingerprint_text_iff [OF assms(2,3)] by (simp add: newCommandState_def)

section \<open>What enqueue does\<close>

lemma enqueue_undo:
  assumes "p_Commands x (c_ID cmd) = None"
  shows "enqueued_entry (newCommandState cr cmd) x
      \<lparr>p_Commands := delete (c_ID cmd) (p_Commands (enqueued_entry (newCommandState cr cmd) x)),
       p_Queue := p_Queue x\<rparr> = x"
  using assms by (simp add: enqueued_entry_def Let_def delete_def fun_upd_idem)

definition queue_full :: "bool \<Rightarrow> pending \<Rightarrow> bool" where
  "queue_full control x \<longleftrightarrow> (if control then 4 \<le> snd (queueDepths x) else 16 \<le> fst (queueDepths x))"

lemma queue_full_test:
  "(\<not> control \<and> 16 \<le> fst (queueDepths x)) \<or> (control \<and> 4 \<le> snd (queueDepths x)) \<longleftrightarrow> queue_full control x"
  by (simp add: queue_full_def)

lemma enqueue_run:
  assumes "enqueue_locked cr env rid cmd s = (resp, t)"
  shows "(t = s \<and> resp_code resp \<noteq> 202
      \<and> (\<forall>r x. find_ref s rid = Some (r, x) \<and> r_Status (p_Reply x) = ''approved''
            \<and> p_Commands x (c_ID cmd) = None \<and> \<not> queue_full (isControlCommand (c_Name cmd)) x
            \<longrightarrow> resp_code resp = 500))
    \<or> (\<exists>r x u. find_ref s rid = Some (r, x) \<and> r_Status (p_Reply x) = ''approved''
        \<and> p_Commands x (c_ID cmd) = None \<and> \<not> queue_full (isControlCommand (c_Name cmd)) x
        \<and> save_state (ee_fault env) (put r (enqueued_entry (newCommandState cr cmd) x) s) = (None, u)
        \<and> (\<exists>fs. t = log_event (ee_logged env) ''command_queued'' fs u) \<and> resp_code resp = 202)"
proof (cases "find_ref s rid")
  case None
  then show ?thesis using assms by (auto simp: enqueue_locked_def)
next
  case (Some p)
  obtain r x where p: "p = (r, x)" by (cases p)
  have heap: "sv_heap s r = Some x" using Some by (simp add: p find_ref_Some)
  let ?x = "enqueued_entry (newCommandState cr cmd) x" and ?control = "isControlCommand (c_Name cmd)"
  obtain m u where save: "save_state (ee_fault env) (put r ?x s) = (m, u)" by fastforce
  show ?thesis
  proof (cases "r_Status (p_Reply x) = ''approved'' \<and> p_Commands x (c_ID cmd) = None \<and> \<not> queue_full ?control x")
    case False
    then show ?thesis
      using assms Some by (auto simp: enqueue_locked_def p Let_def case_prod_unfold queue_full_test split: if_splits option.splits)
  next
    case True
    then have run: "enqueue_locked cr env rid cmd s =
      (case m of
         Some m \<Rightarrow> (respond 500 (ErrorBody ''state unavailable''), put r x u)
       | None \<Rightarrow> (respond 202 (Queued (c_ID cmd) (length (p_Queue ?x)) (queue_limit ?control)),
                  log_event (ee_logged env) ''command_queued''
                    [''requestId'' \<mapsto> AString rid, ''commandId'' \<mapsto> AString (c_ID cmd),
                     ''name'' \<mapsto> AString (c_Name cmd)] u))"
      using Some save enqueue_undo [of x cmd cr]
      by (simp add: enqueue_locked_def p Let_def case_prod_unfold queue_full_test split: option.split)
    show ?thesis
    proof (cases m)
      case None
      then show ?thesis using assms run True Some save by (auto simp: p)
    next
      case err: (Some e)
      then have "u = put r ?x s" using save save_state_Some by blast
      then show ?thesis using assms run err put_same [OF heap] by auto
    qed
  qed
qed


definition live_entry :: "commandState list \<Rightarrow> pending" where
  "live_entry sts = waiting_entry
     \<lparr>p_Reply := (p_Reply waiting_entry)\<lparr>r_Status := ''approved'', r_SessionToken := ''token'', r_ExpiresAt := 2 * hour\<rparr>,
      p_TokenHash := Hash toy_crypto ''token'',
      p_Commands := map_of (map (\<lambda>st. (c_ID (cs_Command st), st)) sts),
      p_Queue := map (\<lambda>st. c_ID (cs_Command st)) (filter (\<lambda>st. cs_Status st = ''queued'') sts)\<rparr>"

definition live_server :: "commandState list \<Rightarrow> server" where
  "live_server sts = insert_pending waiting_id (live_entry sts) empty_server"

definition info_command :: "string \<Rightarrow> command" where
  "info_command cid = \<lparr>c_ID = cid, c_Name = ''system.info'', c_Deadline = hour, c_Params = []\<rparr>"

definition info_state :: "string \<Rightarrow> string \<Rightarrow> commandState" where
  "info_state cid st = (newCommandState toy_crypto (info_command cid))\<lparr>cs_Status := st, cs_LeaseUntil := (if st = ''leased'' then hour else zero_time)\<rparr>"

lemma live_server_ok: "heap_ok (live_server sts)"
  by (simp add: heap_ok_def live_server_def live_entry_def empty_server_def insert_pending_def waiting_id_def)

lemma live_entries: "entries (live_server sts) = [waiting_id \<mapsto> live_entry sts]"
  by (auto simp: entries_def find_ref_def live_server_def insert_pending_def empty_server_def fun_eq_iff)

lemma live_refs [simp]:
  "sv_p (live_server sts) = [waiting_id \<mapsto> 0]" "sv_heap (live_server sts) = [0 \<mapsto> live_entry sts]"
  by (simp_all add: live_server_def insert_pending_def empty_server_def)

definition sample_enqueue_env :: enqueue_env where
  "sample_enqueue_env = \<lparr>ee_default = hour, ee_check = hour, ee_logged = hour, ee_fault = Some Sync\<rparr>"


text \<open>A command id stands for one payload.  Once a command has been queued, sending its id
  again is answered 200 exactly if name and params are the same JSON (up to white space
  outside strings), and 409 otherwise, and never changes anything, whatever has happened to
  the command since; this needs SHA-256 to be collision-free on the two payloads.\<close>

theorem command_id_binds_payload:
  assumes "heap_ok s" and "entries s rid = Some x" and "r_Status (p_Reply x) = ''approved''"
    and "p_Commands x (c_ID cmd) = Some old"
    and "cs_Fingerprint old = cs_Fingerprint (newCommandState cr first)"
    and "inj (sha256 cr)" and "list_all plain_char (c_Name first)" and "list_all plain_char (c_Name cmd)"
  shows "snd (enqueue_locked cr env rid cmd s) = s
    \<and> resp_code (fst (enqueue_locked cr env rid cmd s)) =
        (if c_Name first = c_Name cmd \<and> (c_Params first = [] \<longleftrightarrow> c_Params cmd = [])
            \<and> (c_Params first \<noteq> [] \<longrightarrow> Compact (c_Params first) = Compact (c_Params cmd)) then 200 else 409)"
proof -
  obtain r where "sv_p s rid = Some r" "sv_heap s r = Some x"
    using assms(2) by (auto simp: entries_Some)
  then have "find_ref s rid = Some (r, x)" by (simp add: find_ref_Some)
  then show ?thesis
    using assms(3-5) by (auto simp: enqueue_locked_def Let_def same_fingerprint [OF assms(6-8)])
qed

theorem command_id_binds_payload_witness:
  "resp_code (fst (enqueue_locked toy_crypto sample_enqueue_env waiting_id
     ((info_command ''a'')\<lparr>c_Params := ''{}''\<rparr>) (live_server [info_state ''a'' ''completed'']))) = 409"
proof -
  have "list_all plain_char ''system.info''" by code_simp
  then show ?thesis
    using command_id_binds_payload [of "live_server [info_state ''a'' ''completed'']" waiting_id
        "live_entry [info_state ''a'' ''completed'']" "(info_command ''a'')\<lparr>c_Params := ''{}''\<rparr>"
        "info_state ''a'' ''completed''" toy_crypto "info_command ''a''" sample_enqueue_env]
    by (simp add: live_server_ok live_entries live_entry_def info_state_def info_command_def toy_crypto_inj)
qed

section \<open>Leases that have run out\<close>

definition freed :: "time \<Rightarrow> commandState \<Rightarrow> commandState" where
  "freed now st = (if lease_expired now st then st\<lparr>cs_Status := ''queued'', cs_LeaseUntil := zero_time\<rparr> else st)"

definition expired_in :: "time \<Rightarrow> pending \<Rightarrow> string \<Rightarrow> bool" where
  "expired_in now x k \<longleftrightarrow> (\<exists>st. p_Commands x k = Some st \<and> lease_expired now st)"

definition freed_entry :: "time \<Rightarrow> string list \<Rightarrow> pending \<Rightarrow> pending" where
  "freed_entry now ks x =
     x\<lparr>p_Commands := map_values (freed now) (p_Commands x), p_Queue := p_Queue x @ filter (expired_in now x) ks\<rparr>"

lemma freed_simps [simp]:
  "cs_Command (freed now st) = cs_Command st" "cs_Fingerprint (freed now st) = cs_Fingerprint st"
  "cs_Status (freed now st) = (if lease_expired now st then ''queued'' else cs_Status st)"
  by (simp_all add: freed_def)

lemma known_freed [simp]: "known_status st \<Longrightarrow> known_status (freed now st)"
  by (auto simp: known_status_def)

lemma release_expired_gen:
  assumes "distinct ks"
  shows "release_expired now ks x =
    x\<lparr>p_Commands := (\<lambda>k. if k \<in> set ks then map_option (freed now) (p_Commands x k) else p_Commands x k),
      p_Queue := p_Queue x @ filter (expired_in now x) ks\<rparr>"
  using assms
proof (induction ks arbitrary: x)
  case (Cons k ks)
  show ?case
  proof (cases "expired_in now x k")
    case True
    then obtain st where st: "p_Commands x k = Some st" "lease_expired now st" by (auto simp: expired_in_def)
    let ?x = "x\<lparr>p_Commands := (p_Commands x)(k \<mapsto> st\<lparr>cs_Status := ''queued'', cs_LeaseUntil := zero_time\<rparr>),
                 p_Queue := p_Queue x @ [k]\<rparr>"
    have "filter (expired_in now ?x) ks = filter (expired_in now x) ks"
      using Cons.prems by (intro filter_cong) (auto simp: expired_in_def)
    moreover have "(\<lambda>j. if j \<in> set ks then map_option (freed now) (p_Commands ?x j) else p_Commands ?x j)
        = (\<lambda>j. if j \<in> set (k # ks) then map_option (freed now) (p_Commands x j) else p_Commands x j)"
      using Cons.prems st by (auto simp: fun_eq_iff freed_def)
    ultimately show ?thesis
      using Cons.IH [of ?x] Cons.prems st True by simp
  next
    case False
    have "(\<lambda>j. if j \<in> set ks then map_option (freed now) (p_Commands x j) else p_Commands x j)
        = (\<lambda>j. if j \<in> set (k # ks) then map_option (freed now) (p_Commands x j) else p_Commands x j)"
      using Cons.prems False by (auto simp: fun_eq_iff freed_def expired_in_def map_option_case split: option.split)
    then show ?thesis
      using Cons.IH [of x] Cons.prems False by (auto simp: expired_in_def split: option.split)
  qed
qed simp

lemma release_expired_eq:
  assumes "range_order ks (p_Commands x)"
  shows "release_expired now ks x = freed_entry now ks x"
proof -
  have "(\<lambda>k. if k \<in> set ks then map_option (freed now) (p_Commands x k) else p_Commands x k)
      = map_values (freed now) (p_Commands x)"
    using range_order_mem [OF assms] by (auto simp: fun_eq_iff map_values_def)
  then show ?thesis
    using release_expired_gen [of ks now x] assms by (simp add: range_order_def freed_entry_def)
qed

lemma freed_entry_none:
  assumes "filter (expired_in now x) ks = []" and "range_order ks (p_Commands x)"
  shows "freed_entry now ks x = x"
proof -
  have "freed now st = st" if "p_Commands x k = Some st" for k st
    using assms that range_order_mem [OF assms(2), of k]
    by (auto simp: filter_empty_conv expired_in_def freed_def)
  then have "map_values (freed now) (p_Commands x) = p_Commands x"
    by (auto simp: fun_eq_iff map_values_def map_option_case split: option.split)
  then show ?thesis by (simp add: freed_entry_def assms(1))
qed

lemma freed_commands [simp]: "p_Commands (freed_entry now ks x) k = map_option (freed now) (p_Commands x k)"
  by (simp add: freed_entry_def map_values_def)

lemma freed_entry_simps [simp]:
  "p_Queue (freed_entry now ks x) = p_Queue x @ filter (expired_in now x) ks"
  "p_Req (freed_entry now ks x) = p_Req x" "p_Reply (freed_entry now ks x) = p_Reply x"
  "p_TokenHash (freed_entry now ks x) = p_TokenHash x" "p_Results (freed_entry now ks x) = p_Results x"
  "p_PairingTokenHash (freed_entry now ks x) = p_PairingTokenHash x" "p_CreatedAt (freed_entry now ks x) = p_CreatedAt x"
  by (simp_all add: freed_entry_def)

lemma queue_ok_freed:
  assumes "queue_ok x" and "range_order ks (p_Commands x)"
  shows "queue_ok (freed_entry now ks x)"
proof
  have "\<not> expired_in now x k" if "k \<in> set (p_Queue x)" for k
    using queue_okD(2) [OF assms(1) that] by (auto simp: is_queued_def expired_in_def lease_expired_def)
  then show "distinct (p_Queue (freed_entry now ks x))"
    using queue_okD(1) [OF assms(1)] assms(2) by (auto simp: range_order_def)
  show "is_queued (freed_entry now ks x) i" if "i \<in> set (p_Queue (freed_entry now ks x))" for i
    using that queue_okD(2) [OF assms(1), of i] by (auto simp: is_queued_def expired_in_def)
  show "known_status st" if "p_Commands (freed_entry now ks x) k = Some st" for k st
    using that queue_okD(3) [OF assms(1)] by auto
qed

lemma queue_ok_lease:
  assumes "queue_ok x" and "p_Queue x \<noteq> []"
  shows "queue_ok (lease_entry now st x)"
proof -
  obtain i q where q: "p_Queue x = i # q" using assms(2) by (cases "p_Queue x") auto
  show ?thesis
  proof
    show "distinct (p_Queue (lease_entry now st x))"
      using queue_okD(1) [OF assms(1)] by (simp add: lease_entry_def q)
    show "is_queued (lease_entry now st x) j" if "j \<in> set (p_Queue (lease_entry now st x))" for j
      using that queue_okD(1) [OF assms(1)] queue_okD(2) [OF assms(1), of j]
      by (auto simp: lease_entry_def q is_queued_def)
    show "known_status st'" if "p_Commands (lease_entry now st x) k = Some st'" for k st'
      using that queue_okD(3) [OF assms(1)] by (auto simp: lease_entry_def known_status_def split: if_splits)
  qed
qed

section \<open>What a poll round does\<close>

lemma poll_iter_queue:
  assumes "poll_iter deadline env r s = (out, s')" and "sv_heap s r = Some x"
    and "queue_ok x" and "range_order (pr_order env) (p_Commands x)"
    and "p_Queue (freed_entry (pr_now env) (pr_order env) x) = i # q"
  obtains st where "p_Commands x i = Some st" and "cs_Status (freed (pr_now env) st) = ''queued''"
    and "(out = Deliver (cs_Command st) \<and> durable s') \<or> out = SaveFailed"
    and "\<exists>d. s' = (put r (lease_entry (pr_leased env) (freed (pr_now env) st)
              (freed_entry (pr_now env) (pr_order env) x)) s)\<lparr>sv_disk := d\<rparr>"
proof -
  let ?y = "freed_entry (pr_now env) (pr_order env) x"
  have "is_queued ?y i"
    using queue_okD(2) [OF queue_ok_freed [OF assms(3,4), of "pr_now env"], of i] assms(5) by (metis list.set_intros(1))
  then obtain st where st: "p_Commands x i = Some st" "cs_Status (freed (pr_now env) st) = ''queued''"
    by (auto simp: is_queued_def simp del: freed_simps)
  let ?s1 = "put r (lease_entry (pr_leased env) (freed (pr_now env) st) ?y) s"
  obtain m s1 where save: "save_state (pr_fault env) ?s1 = (m, s1)" by fastforce
  have run: "(out, s') = (case m of Some e \<Rightarrow> (SaveFailed, s1) | None \<Rightarrow> (Deliver (cs_Command st), s1))"
    using assms(1,2) st save assms(5)
    by (auto simp: poll_iter_def Let_def release_expired_eq [OF assms(4)] simp del: freed_simps(3) freed_entry_simps(1)
        split: option.splits)
  show ?thesis
  proof (rule that [OF st])
    show "(out = Deliver (cs_Command st) \<and> durable s') \<or> out = SaveFailed"
      using run save durable_save by (cases m) auto
    show "\<exists>d. s' = ?s1\<lparr>sv_disk := d\<rparr>"
    proof (cases m)
      case None
      then show ?thesis using run save save_state_None by fastforce
    next
      case (Some e)
      then have "s' = ?s1" using run save save_state_Some by auto
      then show ?thesis by (intro exI [of _ "sv_disk ?s1"]) simp
    qed
  qed
qed

lemma poll_iter_idle:
  assumes "poll_iter deadline env r s = (out, s')" and "sv_heap s r = Some x"
    and "range_order (pr_order env) (p_Commands x)"
    and "p_Queue (freed_entry (pr_now env) (pr_order env) x) = []"
  shows "s' = s \<and> out = (if r_Status (p_Reply x) \<noteq> ''approved'' \<or> r_ExpiresAt (p_Reply x) \<le> pr_active env
      \<or> deadline < pr_checked env then NoCommand else Sleep)"
proof -
  have "freed_entry (pr_now env) (pr_order env) x = x"
    using assms(4) by (intro freed_entry_none [OF _ assms(3)]) simp
  then show ?thesis
    using assms(1,2,4) put_same [OF assms(2)]
    by (auto simp: poll_iter_def Let_def release_expired_eq [OF assms(3)])
qed

text \<open>A poll round serves the queue from its head.  The leases that have run out are
  appended to the queue first; then the command at the head is leased for ten seconds
  and delivered, with the lease on disk before the answer, and the rest of the queue is
  what it was.  A round over an empty queue changes nothing, and ends the poll exactly
  when the session is no longer active or the poll deadline has passed.  The branch that
  skips a stale queue entry is never taken.\<close>

theorem poll_round_serves_head:
  assumes "poll_iter deadline env r s = (out, s')" and "heap_ok s"
    and "sv_p s rid = Some r" and "sv_heap s r = Some x"
    and "queue_ok x" and "range_order (pr_order env) (p_Commands x)"
  shows "case p_Queue x @ filter (expired_in (pr_now env) x) (pr_order env) of
      [] \<Rightarrow> s' = s \<and> out = (if r_Status (p_Reply x) \<noteq> ''approved'' \<or> r_ExpiresAt (p_Reply x) \<le> pr_active env
               \<or> deadline < pr_checked env then NoCommand else Sleep)
    | i # q \<Rightarrow> \<exists>st y. p_Commands x i = Some st
        \<and> ((out = Deliver (cs_Command st) \<and> durable s') \<or> out = SaveFailed)
        \<and> entries s' = (entries s)(rid \<mapsto> y) \<and> p_Queue y = q \<and> queue_ok y
        \<and> p_Commands y i = Some (st\<lparr>cs_Status := ''leased'', cs_LeaseUntil := pr_leased env + 10 * second\<rparr>)
        \<and> (\<forall>j. j \<noteq> i \<longrightarrow> p_Commands y j = map_option (freed (pr_now env)) (p_Commands x j))"
proof (cases "p_Queue (freed_entry (pr_now env) (pr_order env) x)")
  case Nil
  then show ?thesis using poll_iter_idle [OF assms(1,4,6) Nil] by simp
next
  case (Cons i q)
  let ?x = "freed_entry (pr_now env) (pr_order env) x"
  obtain st where st: "p_Commands x i = Some st" "(out = Deliver (cs_Command st) \<and> durable s') \<or> out = SaveFailed"
      "\<exists>d. s' = (put r (lease_entry (pr_leased env) (freed (pr_now env) st) ?x) s)\<lparr>sv_disk := d\<rparr>"
    by (rule poll_iter_queue [OF assms(1,4-6) Cons])
  let ?y = "lease_entry (pr_leased env) (freed (pr_now env) st) ?x"
  have "entries s' = (entries s)(rid \<mapsto> ?y)"
    using st(3) entries_put [OF assms(2,3)] by auto
  moreover have "queue_ok ?y"
    by (rule queue_ok_lease [OF queue_ok_freed [OF assms(5,6)]]) (use Cons in simp)
  moreover have "p_Queue ?y = q" by (simp add: lease_entry_def Cons del: freed_entry_simps)
  moreover have "p_Commands ?y i = Some (st\<lparr>cs_Status := ''leased'', cs_LeaseUntil := pr_leased env + 10 * second\<rparr>)"
    by (simp add: lease_entry_def Cons freed_def del: freed_entry_simps)
  moreover have "p_Commands ?y j = map_option (freed (pr_now env)) (p_Commands x j)" if "j \<noteq> i" for j
    using that by (simp add: lease_entry_def Cons del: freed_entry_simps)
  ultimately show ?thesis
    using st(1,2) Cons by (auto intro!: exI [of _ ?y])
qed

definition sample_round :: "string list \<Rightarrow> poll_round" where
  "sample_round ks = \<lparr>pr_now = hour + 11 * second, pr_order = ks, pr_leased = hour + 11 * second,
     pr_active = hour + 11 * second, pr_checked = hour + 11 * second, pr_fault = None, pr_gone = False\<rparr>"

lemma live_queue_ok:
  "queue_ok (live_entry [info_state ''a'' ''leased'', info_state ''b'' ''queued''])"
  by rule (auto simp: live_entry_def is_queued_def info_state_def info_command_def known_status_def split: if_splits)

theorem poll_round_serves_head_witness:
  "fst (poll_iter (2 * hour) (sample_round [''b'', ''a'']) 0
     (live_server [info_state ''a'' ''leased'', info_state ''b'' ''queued'']))
   \<in> {Deliver (info_command ''b''), SaveFailed}"
proof -
  let ?sts = "[info_state ''a'' ''leased'', info_state ''b'' ''queued'']"
  let ?x = "live_entry ?sts"
  have "range_order (pr_order (sample_round [''b'', ''a''])) (p_Commands ?x)"
    by (auto simp: range_order_def live_entry_def sample_round_def info_state_def info_command_def)
  from poll_round_serves_head [OF prod.collapse [symmetric] live_server_ok [of ?sts] _ _ live_queue_ok this, where rid = waiting_id and r = 0 and deadline = "2 * hour"]
  show ?thesis
    by (auto simp: live_entry_def info_state_def info_command_def sample_round_def)
qed



section \<open>Acknowledgements and results\<close>

lemma ack_run:
  assumes "ack_locked now logged f r cid s = (resp, t)"
  shows "(t = s \<and> resp_code resp = 409
      \<and> \<not> (\<exists>x st. sv_heap s r = Some x \<and> p_Commands x cid = Some st \<and> cs_Status st = ''leased'' \<and> now \<le> cs_LeaseUntil st))
    \<or> (\<exists>x st m u. sv_heap s r = Some x \<and> p_Commands x cid = Some st \<and> cs_Status st = ''leased''
        \<and> now \<le> cs_LeaseUntil st \<and> save_state f (put r (acked_entry cid st x) s) = (m, u)
        \<and> (if m = None then resp_code resp = 200 \<and> (\<exists>fs. t = log_event logged ''command_acknowledged'' fs u)
            else resp_code resp = 500 \<and> t = u))"
  using assms by (auto simp: ack_locked_def split: option.splits if_splits prod.splits)

lemma result_run:
  assumes "result_locked logged f r q s = (resp, t)"
  shows "(t = s \<and> resp_code resp = 409
      \<and> \<not> (\<exists>x st. sv_heap s r = Some x \<and> p_Commands x (res_ID q) = Some st \<and> cs_Status st = ''running''
              \<and> c_Name (cs_Command st) = res_Name q))
    \<or> (\<exists>x st m u. sv_heap s r = Some x \<and> p_Commands x (res_ID q) = Some st \<and> cs_Status st = ''running''
        \<and> c_Name (cs_Command st) = res_Name q
        \<and> save_state f (put r (completed_entry q st x) s) = (m, u)
        \<and> (if m = None then resp_code resp = 200 \<and> (\<exists>fs. t = log_event logged ''command_result'' fs u)
            else resp_code resp = 500 \<and> t = u))"
  using assms by (auto simp: result_locked_def split: option.splits if_splits prod.splits)






definition sample_result :: result where
  "sample_result = \<lparr>res_ID = ''a'', res_Name = ''system.info'', res_StartedAt = hour, res_FinishedAt = hour,
     res_Output = ''ok'', res_Error = []\<rparr>"


section \<open>Authorisation\<close>

text \<open>C27 Nothing but an authorised command changes the broker through \<^verbatim>\<open>enqueue\<close>: if a call
  has any effect, the caller holds the operator token, the body is within the limit, the
  command has an id of 1 to 128 bytes, names a capability the guest has asked for in its
  signed request, has params within the bound of its kind, and a deadline of at most an
  hour from now.\<close>

theorem enqueue_authorised:
  assumes "enqueue cr env authorization b s = (resp, t)" and "t \<noteq> s"
  shows "isAdmin s authorization
    \<and> (\<exists>q. limitedJSONN (2 * 1024 * 1024) b = Some q
        \<and> c_ID (eq_Command q) \<noteq> [] \<and> length (c_ID (eq_Command q)) \<le> 128
        \<and> c_Name (eq_Command q) \<in> set (capabilities (eq_RequestID q) s)
        \<and> length (c_Params (eq_Command q)) \<le> max_params (c_Name (eq_Command q))
        \<and> (IsZero (c_Deadline (eq_Command q)) \<or> c_Deadline (eq_Command q) \<le> ee_check env + hour))"
proof -
  from assms obtain rid cmd where "enqueue_admit env authorization b s = Inr (rid, cmd)"
    by (auto simp: enqueue_def split: sum.splits)
  then show ?thesis
    by (auto simp: enqueue_admit_def Let_def not_less split: if_splits option.splits)
qed

definition good_query :: "enqueue_query body" where
  "good_query = \<lparr>bd_size = 100, bd_value = Some \<lparr>eq_RequestID = waiting_id, eq_Command = info_command ''a''\<rparr>\<rparr>"

theorem enqueue_authorised_witness:
  "isAdmin (live_server []) ''Bearer admin-token-of-24-characters''"
proof -
  let ?env = "sample_enqueue_env\<lparr>ee_fault := None\<rparr>"
  let ?auth = "''Bearer admin-token-of-24-characters''"
  let ?run = "enqueue toy_crypto ?env ?auth good_query (live_server [])"
  have find: "find_ref (live_server []) waiting_id = Some (0, live_entry [])"
    by (simp add: find_ref_Some)
  have "sv_disk (snd ?run) \<noteq> Missing"
    using find
    by (simp add: enqueue_def enqueue_admit_def Let_def good_query_def limitedJSONN_def isAdmin_def capabilities_def
        info_command_def max_params_def enqueue_locked_def save_state_def save_result case_prod_unfold
        live_server_def insert_pending_def empty_server_def live_entry_def waiting_entry_def pair_entry_def
        sample_request_def IsZero_def sample_enqueue_env_def queueDepths_def)
  moreover have "sv_disk (live_server []) = Missing" by (simp add: live_server_def empty_server_def)
  ultimately have "snd ?run \<noteq> live_server []" by metis
  from enqueue_authorised [OF prod.collapse [symmetric] this] show ?thesis by blast
qed

text \<open>An approval queues \<^verbatim>\<open>system.info\<close> even if the guest has not asked for it, and such a
  command can never be completed: every result for it is refused, with 400 if it bears the
  name of the command, which the guest did not request, and with 409 otherwise, so it stays
  running for the rest of the session.\<close>

theorem unrequested_initial_command_never_completes:
  assumes "''system.info'' \<notin> set (q_Requested (p_Req x))" and "sv_heap s r = Some x"
    and "p_Commands x ''initial-system-info'' = p_Commands (approved_entry cr aenv minutes x0) ''initial-system-info''"
    and "session cr (le_session env) (le_order env) authorization s = Some r"
    and "limitedJSONN (3 * 1024 * 1024) b = Some q" and "res_ID q = ''initial-system-info''"
  shows "snd (result_handler cr env authorization b s) = s
    \<and> resp_code (fst (result_handler cr env authorization b s)) \<in> {400, 409}
    \<and> ''initial-system-info'' \<in> set (p_Queue (approved_entry cr aenv minutes x0))"
  using assms
  by (auto simp: result_handler_def result_locked_def approved_entry_def initial_command_def Let_def)

theorem unrequested_initial_command_never_completes_witness:
  "snd (result_handler toy_crypto \<lparr>le_session = hour, le_order = [waiting_id], le_now = hour, le_logged = hour, le_fault = None\<rparr>
      ''Bearer token'' \<lparr>bd_size = 10, bd_value = Some (sample_result\<lparr>res_ID := ''initial-system-info''\<rparr>)\<rparr>
      (put 0 ((live_entry [])\<lparr>p_Req := sample_request\<lparr>q_Requested := [''disk.list'']\<rparr>,
          p_Commands := p_Commands (approved_entry toy_crypto sample_approve_env 30 waiting_entry)\<rparr>) (live_server [])))
   = put 0 ((live_entry [])\<lparr>p_Req := sample_request\<lparr>q_Requested := [''disk.list'']\<rparr>,
          p_Commands := p_Commands (approved_entry toy_crypto sample_approve_env 30 waiting_entry)\<rparr>) (live_server [])"
proof -
  let ?x = "(live_entry [])\<lparr>p_Req := sample_request\<lparr>q_Requested := [''disk.list'']\<rparr>,
      p_Commands := p_Commands (approved_entry toy_crypto sample_approve_env 30 waiting_entry)\<rparr>"
  let ?s = "put 0 ?x (live_server [])"
  have ne: "Hash toy_crypto ''token'' \<noteq> []" by code_simp
  have "find_ref ?s waiting_id = Some (0, ?x)" by (simp add: find_ref_Some)
  moreover have "bearer ''Bearer token'' = ''token''" by code_simp
  moreover have "session_match toy_crypto hour ''token'' ?x"
    using ne by (simp add: session_match_def live_entry_def)
  ultimately have "session toy_crypto hour [waiting_id] ''Bearer token'' ?s = Some 0"
    by (simp add: session_def)
  then show ?thesis
    using unrequested_initial_command_never_completes [of ?x ?s 0 toy_crypto sample_approve_env 30 waiting_entry
        "\<lparr>le_session = hour, le_order = [waiting_id], le_now = hour, le_logged = hour, le_fault = None\<rparr>" "''Bearer token''"
        "\<lparr>bd_size = 10, bd_value = Some (sample_result\<lparr>res_ID := ''initial-system-info''\<rparr>)\<rparr>"
        "sample_result\<lparr>res_ID := ''initial-system-info''\<rparr>"]
    by (simp add: limitedJSONN_def)
qed

section \<open>Sessions and revocation\<close>

lemma session_scan_match:
  "session_scan cr now tok ks s = Some r \<Longrightarrow>
   \<exists>rid x. rid \<in> set ks \<and> find_ref s rid = Some (r, x) \<and> session_match cr now tok x"
  by (induction ks) (fastforce split: option.splits if_splits)+

lemma session_scan_unique:
  assumes "rid \<in> set ks" and "find_ref s rid = Some (r, x)" and "session_match cr now tok x"
    and "\<And>rid' r' x'. find_ref s rid' = Some (r', x') \<Longrightarrow> session_match cr now tok x' \<Longrightarrow> r' = r"
  shows "session_scan cr now tok ks s = Some r"
  using assms(1)
proof (induction ks)
  case (Cons k ks)
  show ?case
  proof (cases "\<exists>r' x'. find_ref s k = Some (r', x') \<and> session_match cr now tok x'")
    case True
    then show ?thesis using assms(4) by auto
  next
    case False
    then show ?thesis using Cons assms(2,3) by (auto split: option.splits)
  qed
qed simp

lemma revoke_run:
  assumes "revoke_locked logged f r s = (resp, t)" and "sv_heap s r = Some x"
  shows "\<exists>m u. save_state f (put r (x\<lparr>p_Reply := (p_Reply x)\<lparr>r_Status := ''revoked''\<rparr>, p_TokenHash := []\<rparr>) s) = (m, u)
    \<and> (t = u \<or> (\<exists>fs. t = log_event logged ''session_revoked'' fs u))"
  using assms by (auto simp: revoke_locked_def Let_def split: prod.splits option.splits)

lemma adminRevoke_run:
  assumes "adminRevoke logged f authorization b s = (resp, t)"
  shows "(t = s \<and> resp_code resp \<notin> {200, 500})
    \<or> (\<exists>rid r x m u. limitedJSON b = Some rid \<and> find_ref s rid = Some (r, x)
        \<and> save_state f (put r (revoked_entry x) s) = (m, u)
        \<and> (t = u \<or> (\<exists>fs. t = log_event logged ''session_admin_revoked'' fs u))
        \<and> resp_code resp = (if m = None then 200 else 500))"
proof (cases "isAdmin s authorization \<and> (\<exists>rid r x. limitedJSON b = Some rid \<and> find_ref s rid = Some (r, x))")
  case False
  then show ?thesis using assms by (auto simp: adminRevoke_def split: option.splits if_splits)
next
  case True
  then obtain rid r x where q: "isAdmin s authorization" "limitedJSON b = Some rid" "find_ref s rid = Some (r, x)"
    by blast
  obtain m u where save: "save_state f (put r (revoked_entry x) s) = (m, u)" by fastforce
  have "resp_code resp = (if m = None then 200 else 500)
      \<and> (t = u \<or> (\<exists>fs. t = log_event logged ''session_admin_revoked'' fs u))"
    using assms q save by (auto simp: adminRevoke_def split: option.splits)
  then show ?thesis using q save by blast
qed

end
