(* ===== verification/Broker_Contract.thy ===== *)
theory Broker_Contract imports Broker_Commands begin

text \<open>
  What every handler keeps.  A handler changes at most one session record, through one of
  a few updates, and saves; the contract of such an update is the locale
  \<open>entry_update\<close>: the record stays well-formed (\<open>entry_ok\<close>) and only moves forward
  (\<open>progress\<close>).  Each update of the model is an interpretation; the lemmas at the end
  lift the contract to the handlers.
\<close>

section \<open>Moving forward\<close>

definition status_le :: "string \<Rightarrow> string \<Rightarrow> bool" where
  "status_le a b \<longleftrightarrow> a = b \<or> a = ''pending'' \<or> b = ''revoked''"

definition started :: "commandState \<Rightarrow> bool" where
  "started st \<longleftrightarrow> cs_Status st = ''running'' \<or> cs_Status st = ''completed''"

definition command_le :: "commandState \<Rightarrow> commandState \<Rightarrow> bool" where
  "command_le st st' \<longleftrightarrow>
     cs_Command st' = cs_Command st \<and> cs_Fingerprint st' = cs_Fingerprint st
     \<and> (started st \<longrightarrow> started st') \<and> (cs_Status st = ''completed'' \<longrightarrow> cs_Status st' = ''completed'')"

definition progress :: "pending \<Rightarrow> pending \<Rightarrow> bool" where
  "progress x y \<longleftrightarrow>
     p_Req y = p_Req x \<and> r_RequestID (p_Reply y) = r_RequestID (p_Reply x)
     \<and> status_le (r_Status (p_Reply x)) (r_Status (p_Reply y))
     \<and> (\<forall>k st. p_Commands x k = Some st \<longrightarrow> (\<exists>st'. p_Commands y k = Some st' \<and> command_le st st'))"

definition entry_ok :: "crypto \<Rightarrow> pending \<Rightarrow> bool" where
  "entry_ok cr x \<longleftrightarrow>
     queue_ok x \<and> session_token_ok cr x \<and> length (p_Results x) \<le> 128
     \<and> (r_Status (p_Reply x) = ''pending'' \<longrightarrow> p_Queue x = [] \<and> p_Commands x = Map.empty)
     \<and> (r_Status (p_Reply x) = ''revoked'' \<longrightarrow> p_TokenHash x = [])"

lemma status_le_refl [simp]: "status_le a a"
  by (simp add: status_le_def)

lemma status_le_trans: "status_le a b \<Longrightarrow> status_le b c \<Longrightarrow> status_le a c"
  by (auto simp: status_le_def)

lemma command_le_refl [simp]: "command_le st st"
  by (simp add: command_le_def)

lemma command_le_trans: "command_le a b \<Longrightarrow> command_le b c \<Longrightarrow> command_le a c"
  by (auto simp: command_le_def)

lemma progress_refl [simp]: "progress x x"
  by (simp add: progress_def)

lemma progress_trans: "progress x y \<Longrightarrow> progress y z \<Longrightarrow> progress x z"
  unfolding progress_def by (metis command_le_trans status_le_trans)

lemma progress_same_commands:
  "p_Req y = p_Req x \<Longrightarrow> r_RequestID (p_Reply y) = r_RequestID (p_Reply x) \<Longrightarrow>
   status_le (r_Status (p_Reply x)) (r_Status (p_Reply y)) \<Longrightarrow> p_Commands y = p_Commands x \<Longrightarrow> progress x y"
  by (simp add: progress_def)

lemma progress_update:
  "p_Req y = p_Req x \<Longrightarrow> p_Reply y = p_Reply x \<Longrightarrow> p_Commands y = (p_Commands x)(k \<mapsto> st') \<Longrightarrow>
   (\<And>st. p_Commands x k = Some st \<Longrightarrow> command_le st st') \<Longrightarrow> progress x y"
  by (auto simp: progress_def)

section \<open>Servers\<close>

definition server_ok :: "crypto \<Rightarrow> server \<Rightarrow> bool" where
  "server_ok cr s \<longleftrightarrow> heap_ok s \<and> (\<forall>x\<in>ran (sv_heap s). entry_ok cr x)"

definition heap_step :: "server \<Rightarrow> server \<Rightarrow> bool" where
  "heap_step s t \<longleftrightarrow>
     (\<forall>r x. sv_heap s r = Some x \<longrightarrow> (\<exists>y. sv_heap t r = Some y \<and> progress x y))
     \<and> (\<forall>r. sv_heap s r = None \<longrightarrow> sv_heap t r = None)
     \<and> (\<forall>rid r. sv_p t rid = Some r \<longrightarrow> sv_p s rid = Some r)
     \<and> sv_store t = sv_store s \<and> sv_admin t = sv_admin s"

definition disk_step :: "server \<Rightarrow> server \<Rightarrow> bool" where
  "disk_step s t \<longleftrightarrow> sv_disk t = sv_disk s \<or> sv_disk t = Parsed (snapshot (entries t))"

definition handled :: "crypto \<Rightarrow> server \<Rightarrow> server \<Rightarrow> bool" where
  "handled cr s t \<longleftrightarrow> heap_step s t \<and> disk_step s t \<and> server_ok cr t"

lemma server_okD: "server_ok cr s \<Longrightarrow> heap_ok s" "server_ok cr s \<Longrightarrow> sv_heap s r = Some x \<Longrightarrow> entry_ok cr x"
  by (auto simp: server_ok_def intro: ranI)

lemma heap_step_refl [simp]: "heap_step s s"
  by (simp add: heap_step_def)

lemma handled_refl [simp]: "server_ok cr s \<Longrightarrow> handled cr s s"
  by (simp add: handled_def disk_step_def)

lemma server_ok_cong:
  "server_ok cr s \<Longrightarrow> sv_p t = sv_p s \<Longrightarrow> sv_heap t = sv_heap s \<Longrightarrow> sv_next t = sv_next s \<Longrightarrow> server_ok cr t"
  unfolding server_ok_def using heap_ok_cong [of s t] by simp

lemma handled_log [simp]: "handled cr s t \<Longrightarrow> handled cr s (log_event now kind fs t)"
  using server_ok_cong [of cr t "log_event now kind fs t"]
  by (simp add: handled_def heap_step_def disk_step_def)

lemma entries_map_le: "heap_step s t \<Longrightarrow> sv_p t rid = Some r \<Longrightarrow> sv_p s rid = Some r"
  by (simp add: heap_step_def)

section \<open>The contract of an update\<close>

locale entry_update =
  fixes cr :: crypto and pre :: "pending \<Rightarrow> bool" and upd :: "pending \<Rightarrow> pending"
  assumes forward: "entry_ok cr x \<Longrightarrow> pre x \<Longrightarrow> progress x (upd x)"
    and keeps: "entry_ok cr x \<Longrightarrow> pre x \<Longrightarrow> entry_ok cr (upd x)"
begin

lemma put_ok:
  assumes "server_ok cr s" and "sv_heap s r = Some x" and "pre x"
  shows "server_ok cr (put r (upd x) s)"
proof -
  have ok: "entry_ok cr x" by (rule server_okD(2) [OF assms(1,2)])
  have "heap_ok (put r (upd x) s)"
    using forward [OF ok assms(3)] by (intro heap_ok_put [OF server_okD(1) [OF assms(1)] assms(2)]) (simp add: progress_def)
  moreover have "entry_ok cr y" if "y \<in> ran (sv_heap (put r (upd x) s))" for y
    using that keeps [OF ok assms(3)] assms(1) by (auto simp: server_ok_def ran_def split: if_splits)
  ultimately show ?thesis by (simp add: server_ok_def)
qed

lemma put_step:
  assumes "server_ok cr s" and "sv_heap s r = Some x" and "pre x"
  shows "heap_step s (put r (upd x) s)"
  using forward [OF server_okD(2) [OF assms(1,2)] assms(3)] assms(2) by (auto simp: heap_step_def)

lemma handled_put:
  assumes "server_ok cr s" and "sv_heap s r = Some x" and "pre x"
  shows "handled cr s (put r (upd x) s)"
  using put_ok [OF assms] put_step [OF assms] by (simp add: handled_def disk_step_def)

lemma handled_save:
  assumes "server_ok cr s" and "sv_heap s r = Some x" and "pre x"
    and "save_state f (put r (upd x) s) = (m, t)"
  shows "handled cr s t"
proof -
  let ?u = "put r (upd x) s"
  have t: "t = snd (save_state f ?u)" using assms(4) by simp
  have "server_ok cr t" by (rule server_ok_cong [OF put_ok [OF assms(1-3)]]) (simp_all add: t)
  moreover have "heap_step s t" using put_step [OF assms(1-3)] by (simp add: heap_step_def t)
  moreover have "disk_step s t"
    using save_state_disk [of f ?u] by (simp add: disk_step_def t)
  ultimately show ?thesis by (simp add: handled_def)
qed

end

text \<open>Two updates one after the other are an update.\<close>

locale entry_update_twice =
  first: entry_update cr pre upd + second: entry_update cr pre' upd'
  for cr pre upd pre' upd'
begin

sublocale both: entry_update cr "\<lambda>x. pre x \<and> pre' (upd x)" "\<lambda>x. upd' (upd x)"
proof
  fix x
  assume ok: "entry_ok cr x" and pre: "pre x \<and> pre' (upd x)"
  then have mid: "entry_ok cr (upd x)" by (simp add: first.keeps)
  show "progress x (upd' (upd x))"
    using first.forward [OF ok] second.forward [OF mid] pre progress_trans by blast
  show "entry_ok cr (upd' (upd x))"
    using second.keeps [OF mid] pre by blast
qed

end

section \<open>Well-formedness of updated records\<close>

lemma entry_not_pending:
  "entry_ok cr x \<Longrightarrow> p_Commands x k = Some st \<Longrightarrow> r_Status (p_Reply x) \<noteq> ''pending''"
  by (auto simp: entry_ok_def)

lemma entry_ok_queue: "entry_ok cr x \<Longrightarrow> queue_ok x"
  by (simp add: entry_ok_def)

lemma entry_ok_commands:
  "entry_ok cr x \<Longrightarrow> p_Reply y = p_Reply x \<Longrightarrow> p_TokenHash y = p_TokenHash x \<Longrightarrow>
   length (p_Results y) \<le> 128 \<Longrightarrow> queue_ok y \<Longrightarrow> r_Status (p_Reply x) \<noteq> ''pending'' \<Longrightarrow> entry_ok cr y"
  by (simp add: entry_ok_def session_token_ok_def)

lemma queue_ok_status:
  assumes "queue_ok x" and "p_Commands x k = Some st" and "cs_Status st \<noteq> ''queued''" and "known_status st'"
    and "p_Queue y = p_Queue x" and "p_Commands y = (p_Commands x)(k \<mapsto> st')"
  shows "queue_ok y"
proof
  show "distinct (p_Queue y)" using queue_okD(1) [OF assms(1)] by (simp add: assms(5))
  show "is_queued y i" if "i \<in> set (p_Queue y)" for i
    using that queue_okD(2) [OF assms(1), of i] assms(2,3) by (auto simp: assms(5,6) is_queued_def)
  show "known_status st''" if "p_Commands y j = Some st''" for j st''
    using that queue_okD(3) [OF assms(1)] assms(4) by (auto simp: assms(6) split: if_splits)
qed

lemma queue_ok_enqueued:
  assumes "queue_ok x" and "p_Commands x (c_ID (cs_Command st)) = None" and "cs_Status st = ''queued''"
  shows "queue_ok (enqueued_entry st x)"
proof
  have notin: "c_ID (cs_Command st) \<notin> set (p_Queue x)"
    using queue_okD(2) [OF assms(1)] assms(2) by (force simp: is_queued_def)
  then show "distinct (p_Queue (enqueued_entry st x))"
    using queue_okD(1) [OF assms(1)] by (simp add: enqueued_entry_def Let_def)
  show "is_queued (enqueued_entry st x) i" if "i \<in> set (p_Queue (enqueued_entry st x))" for i
    using that queue_okD(2) [OF assms(1), of i] assms(3)
    by (auto simp: enqueued_entry_def Let_def is_queued_def split: if_splits)
  show "known_status st'" if "p_Commands (enqueued_entry st x) k = Some st'" for k st'
    using that queue_okD(3) [OF assms(1)] assms(3)
    by (auto simp: enqueued_entry_def Let_def known_status_def split: if_splits)
qed

section \<open>The updates of the handlers\<close>

definition left_entry :: "pending \<Rightarrow> pending" where
  "left_entry x = x\<lparr>p_Reply := (p_Reply x)\<lparr>r_Status := ''revoked''\<rparr>, p_TokenHash := []\<rparr>"

definition lease_head :: "time \<Rightarrow> pending \<Rightarrow> pending" where
  "lease_head now x = lease_entry now (the (p_Commands x (hd (p_Queue x)))) x"

definition acked :: "string \<Rightarrow> pending \<Rightarrow> pending" where
  "acked cid x = acked_entry cid (the (p_Commands x cid)) x"

definition completed :: "result \<Rightarrow> pending \<Rightarrow> pending" where
  "completed q x = completed_entry q (the (p_Commands x (res_ID q))) x"

definition has_status :: "string \<Rightarrow> string \<Rightarrow> pending \<Rightarrow> bool" where
  "has_status cid name x \<longleftrightarrow> (\<exists>st. p_Commands x cid = Some st \<and> cs_Status st = name)"

interpretation approving: entry_update cr "\<lambda>x. r_Status (p_Reply x) = ''pending''" "approved_entry cr env minutes"
  for cr env minutes
proof
  fix x
  assume ok: "entry_ok cr x" and pending: "r_Status (p_Reply x) = ''pending''"
  then have empty: "p_Queue x = []" "p_Commands x = Map.empty" by (auto simp: entry_ok_def)
  show "progress x (approved_entry cr env minutes x)"
    using pending empty by (simp add: progress_def approved_entry_def Let_def status_le_def)
  have "queue_ok (approved_entry cr env minutes x)"
    by rule (auto simp: approved_entry_def Let_def empty is_queued_def initial_command_def split: if_splits)
  then show "entry_ok cr (approved_entry cr env minutes x)"
    using ok approved_token_ok by (simp add: entry_ok_def) (simp add: approved_entry_def Let_def)
qed

interpretation rejecting: entry_update cr "\<lambda>x. r_Status (p_Reply x) = ''pending''" rejected_entry for cr
  by unfold_locales
     (auto simp: entry_ok_def rejected_entry_def progress_def status_le_def session_token_ok_def queue_ok_def)

interpretation reissuing: entry_update cr "\<lambda>x. r_Status (p_Reply x) = ''approved''" "reissued_entry cr token"
  for cr token
  by unfold_locales
     (auto simp: entry_ok_def reissued_entry_def progress_def session_token_ok_def queue_ok_def)

interpretation leaving: entry_update cr "\<lambda>x. True" left_entry for cr
  by unfold_locales
     (auto simp: entry_ok_def left_entry_def progress_def status_le_def session_token_ok_def queue_ok_def)

interpretation revoking: entry_update cr "\<lambda>x. True" revoked_entry for cr
  by unfold_locales
     (auto simp: entry_ok_def revoked_entry_def progress_def status_le_def session_token_ok_def queue_ok_def)

interpretation enqueuing: entry_update cr
    "\<lambda>x. r_Status (p_Reply x) = ''approved'' \<and> p_Commands x (c_ID cmd) = None"
    "enqueued_entry (newCommandState cr cmd)" for cr cmd
proof
  fix x
  assume ok: "entry_ok cr x" and pre: "r_Status (p_Reply x) = ''approved'' \<and> p_Commands x (c_ID cmd) = None"
  show "progress x (enqueued_entry (newCommandState cr cmd) x)"
    using pre by (intro progress_update [where k = "c_ID cmd" and st' = "newCommandState cr cmd"])
      (simp_all add: enqueued_entry_def Let_def)
  show "entry_ok cr (enqueued_entry (newCommandState cr cmd) x)"
    using pre ok by (intro entry_ok_commands [OF ok] queue_ok_enqueued [OF entry_ok_queue [OF ok]])
      (simp_all add: enqueued_entry_def Let_def entry_ok_def)
qed

interpretation freeing: entry_update cr "\<lambda>x. range_order ks (p_Commands x)" "freed_entry now ks" for cr ks now
proof
  fix x
  assume ok: "entry_ok cr x" and order: "range_order ks (p_Commands x)"
  show "progress x (freed_entry now ks x)"
    by (auto simp: progress_def command_le_def started_def lease_expired_def)
  show "entry_ok cr (freed_entry now ks x)"
  proof (cases "r_Status (p_Reply x) = ''pending''")
    case True
    then have "p_Commands x = Map.empty" using ok by (simp add: entry_ok_def)
    then have "filter (expired_in now x) ks = []" using order by (simp add: range_order_def)
    then show ?thesis using freed_entry_none [OF _ order] ok by simp
  next
    case False
    then show ?thesis
      using ok by (intro entry_ok_commands [OF ok] queue_ok_freed [OF entry_ok_queue [OF ok] order])
        (simp_all add: entry_ok_def)
  qed
qed

interpretation leasing: entry_update cr "\<lambda>x. p_Queue x \<noteq> []" "lease_head now" for cr now
proof
  fix x
  assume ok: "entry_ok cr x" and ne: "p_Queue x \<noteq> []"
  then obtain i q where q: "p_Queue x = i # q" by (cases "p_Queue x") auto
  then obtain st where st: "p_Commands x i = Some st" "cs_Status st = ''queued''"
    using queue_okD(2) [OF entry_ok_queue [OF ok], of i] by (auto simp: is_queued_def)
  have head: "lease_head now x = lease_entry now st x" by (simp add: lease_head_def q st)
  show "progress x (lease_head now x)"
    using st by (auto simp: head lease_entry_def q progress_def command_le_def started_def)
  show "entry_ok cr (lease_head now x)"
    unfolding head using ok entry_not_pending [OF ok st(1)]
    by (intro entry_ok_commands [OF ok] queue_ok_lease [OF entry_ok_queue [OF ok] ne])
       (simp_all add: lease_entry_def entry_ok_def)
qed

interpretation acking: entry_update cr "has_status cid ''leased''" "acked cid" for cr cid
proof
  fix x
  assume ok: "entry_ok cr x" and pre: "has_status cid ''leased'' x"
  then obtain st where st: "p_Commands x cid = Some st" "cs_Status st = ''leased''" by (auto simp: has_status_def)
  let ?st = "st\<lparr>cs_Status := ''running'', cs_LeaseUntil := zero_time\<rparr>"
  have acked: "acked cid x = acked_entry cid st x" by (simp add: acked_def st)
  show "progress x (acked cid x)"
    using st by (auto simp: acked acked_entry_def progress_def command_le_def started_def)
  have "queue_ok (acked cid x)"
    by (rule queue_ok_status [OF entry_ok_queue [OF ok] st(1), of ?st])
       (simp_all add: acked acked_entry_def st(2) known_status_def)
  then show "entry_ok cr (acked cid x)"
    using ok entry_not_pending [OF ok st(1)]
    by (intro entry_ok_commands [OF ok]) (simp_all add: acked acked_entry_def entry_ok_def)
qed

interpretation completing: entry_update cr "has_status (res_ID q) ''running''" "completed q" for cr q
proof
  fix x
  assume ok: "entry_ok cr x" and pre: "has_status (res_ID q) ''running'' x"
  then obtain st where st: "p_Commands x (res_ID q) = Some st" "cs_Status st = ''running''"
    by (auto simp: has_status_def)
  let ?st = "st\<lparr>cs_Status := ''completed''\<rparr>"
  have eq: "completed q x = completed_entry q st x" by (simp add: completed_def st)
  show "progress x (completed q x)"
    using st by (auto simp: eq completed_entry_def progress_def command_le_def started_def)
  have "queue_ok (completed q x)"
    by (rule queue_ok_status [OF entry_ok_queue [OF ok] st(1), of ?st])
       (simp_all add: eq completed_entry_def st(2) known_status_def)
  then show "entry_ok cr (completed q x)"
    using ok entry_not_pending [OF ok st(1)]
    by (intro entry_ok_commands [OF ok]) (simp_all add: eq completed_entry_def entry_ok_def)
qed

interpretation polling: entry_update_twice cr "\<lambda>x. range_order ks (p_Commands x)" "freed_entry now ks"
    "\<lambda>x. p_Queue x \<noteq> []" "lease_head leased" for cr ks now leased
  ..

section \<open>What the handlers keep\<close>

lemma find_ref_heap: "find_ref s rid = Some (r, x) \<Longrightarrow> sv_heap s r = Some x"
  by (simp add: find_ref_Some)

lemma approveRequest_handled:
  assumes "server_ok cr s" and "approveRequest cr env rid minutes s = (out, t)"
  shows "handled cr s t"
  using approveRequest_run [OF assms(2)] approving.handled_save [OF assms(1) find_ref_heap] assms(1) by fastforce

lemma approve_handled:
  assumes "server_ok cr s" and "approve cr env authorization b s = (resp, t)"
  shows "handled cr s t"
proof -
  have run: "handled cr s (snd (approveRequest cr env rid minutes s))" for rid minutes
    using approveRequest_handled [OF assms(1) prod.collapse [symmetric]] .
  show ?thesis
    using assms run by (auto simp: approve_def split: if_splits option.splits prod.splits sum.splits request_error.splits) (metis handled_log snd_conv)+
qed

lemma rejectRequest_handled:
  assumes "server_ok cr s" and "rejectRequest now fault rid s = (out, t)"
  shows "handled cr s t"
  using rejectRequest_run [OF assms(2)] rejecting.handled_save [OF assms(1) find_ref_heap] assms(1) handled_log by fastforce

lemma status_handled:
  assumes "server_ok cr s" and "status cr now e fault rid authorization s = (resp, t)"
  shows "handled cr s t"
  using status_run [OF assms(2)] reissuing.handled_save [OF assms(1) find_ref_heap] assms(1) by fastforce

lemma adminReject_handled:
  assumes "server_ok cr s" and "adminReject now fault authorization b s = (resp, t)"
  shows "handled cr s t"
proof -
  have run: "handled cr s (snd (rejectRequest now fault rid s))" for rid
    using rejectRequest_handled [OF assms(1) prod.collapse [symmetric]] .
  have "t = s \<or> (\<exists>rid. t = snd (rejectRequest now fault rid s))"
    using assms(2) by (auto simp: adminReject_def split: if_splits option.splits prod.splits request_error.splits)
      (metis snd_conv)+
  then show ?thesis using run assms(1) by auto
qed

lemma enqueue_locked_handled:
  assumes "server_ok cr s" and "enqueue_locked cr env rid cmd s = (resp, t)"
  shows "handled cr s t"
  using enqueue_run [OF assms(2)]
proof (elim disjE exE conjE)
  fix r x u fs
  assume "find_ref s rid = Some (r, x)" "r_Status (p_Reply x) = ''approved''" "p_Commands x (c_ID cmd) = None"
    and save: "save_state (ee_fault env) (put r (enqueued_entry (newCommandState cr cmd) x) s) = (None, u)"
    and t: "t = log_event (ee_logged env) ''command_queued'' fs u"
  then have "handled cr s u"
    by (intro enqueuing.handled_save [OF assms(1) find_ref_heap _ save]) simp_all
  then show ?thesis by (simp add: t)
qed (use assms(1) in simp)

lemma enqueue_handled:
  assumes "server_ok cr s" and "enqueue cr env authorization b s = (resp, t)"
  shows "handled cr s t"
  using assms enqueue_locked_handled [OF assms(1)] by (auto simp: enqueue_def split: sum.splits)

lemma poll_iter_handled:
  assumes "server_ok cr s" and "poll_iter deadline env r s = (out, t)"
    and "\<And>x. sv_heap s r = Some x \<Longrightarrow> range_order (pr_order env) (p_Commands x)"
  shows "handled cr s t \<and> out \<noteq> Skip"
proof (cases "sv_heap s r")
  case None
  then show ?thesis using assms by (simp add: poll_iter_def)
next
  case (Some x)
  let ?x = "freed_entry (pr_now env) (pr_order env) x"
  have order: "range_order (pr_order env) (p_Commands x)" by (rule assms(3) [OF Some])
  have ok: "queue_ok x" by (rule entry_ok_queue [OF server_okD(2) [OF assms(1) Some]])
  show ?thesis
  proof (cases "p_Queue ?x")
    case Nil
    then show ?thesis using poll_iter_idle [OF assms(2) Some order Nil] assms(1) by simp
  next
    case (Cons i q)
    obtain st where st: "cs_Status (freed (pr_now env) st) = ''queued''" "p_Commands x i = Some st"
        "(out = Deliver (cs_Command st) \<and> durable t) \<or> out = SaveFailed"
      by (rule poll_iter_queue [OF assms(2) Some ok order Cons])
    have head: "lease_entry (pr_leased env) (freed (pr_now env) st) ?x = lease_head (pr_leased env) ?x"
      unfolding lease_head_def using st(2) by (simp add: Cons del: freed_entry_simps(1))
    obtain m u where save: "save_state (pr_fault env) (put r (lease_head (pr_leased env) ?x) s) = (m, u)" by fastforce
    have "t = u"
      using assms(2) Some st save Cons head
      by (auto simp: poll_iter_def Let_def release_expired_eq [OF order] simp del: freed_simps(3) freed_entry_simps(1)
          split: option.splits)
    moreover have "handled cr s u"
      by (rule polling.both.handled_save [OF assms(1) Some _ save]) (use order Cons in auto)
    ultimately show ?thesis using st(3) by auto
  qed
qed

lemma ack_locked_handled:
  assumes "server_ok cr s" and "ack_locked now logged f r cid s = (resp, t)"
  shows "handled cr s t"
  using ack_run [OF assms(2)]
proof (elim disjE exE conjE)
  fix x st m u
  assume x: "sv_heap s r = Some x" and st: "p_Commands x cid = Some st" "cs_Status st = ''leased''"
    and save: "save_state f (put r (acked_entry cid st x) s) = (m, u)"
    and out: "if m = None then resp_code resp = 200 \<and> (\<exists>fs. t = log_event logged ''command_acknowledged'' fs u)
            else resp_code resp = 500 \<and> t = u"
  have "acked_entry cid st x = acked cid x" by (simp add: acked_def st)
  then have "handled cr s u"
    using save st by (intro acking.handled_save [OF assms(1) x, where cid = cid]) (auto simp: has_status_def)
  then show ?thesis using out by (auto split: if_splits)
qed (use assms(1) in simp)

lemma result_locked_handled:
  assumes "server_ok cr s" and "result_locked logged f r q s = (resp, t)"
  shows "handled cr s t"
  using result_run [OF assms(2)]
proof (elim disjE exE conjE)
  fix x st m u
  assume x: "sv_heap s r = Some x" and st: "p_Commands x (res_ID q) = Some st" "cs_Status st = ''running''"
    and save: "save_state f (put r (completed_entry q st x) s) = (m, u)"
    and out: "if m = None then resp_code resp = 200 \<and> (\<exists>fs. t = log_event logged ''command_result'' fs u)
            else resp_code resp = 500 \<and> t = u"
  have "completed_entry q st x = completed q x" by (simp add: completed_def st)
  then have "handled cr s u"
    using save st by (intro completing.handled_save [OF assms(1) x, where q = q]) (auto simp: has_status_def)
  then show ?thesis using out by (auto split: if_splits)
qed (use assms(1) in simp)

lemma revoke_locked_handled:
  assumes "server_ok cr s" and "revoke_locked logged f r s = (resp, t)"
  shows "handled cr s t"
proof (cases "sv_heap s r")
  case None
  then show ?thesis using assms by (simp add: revoke_locked_def)
next
  case (Some x)
  then obtain m u where save: "save_state f (put r (left_entry x) s) = (m, u)"
      and t: "t = u \<or> (\<exists>fs. t = log_event logged ''session_revoked'' fs u)"
    using revoke_run [OF assms(2) Some] by (auto simp: left_entry_def)
  have "handled cr s u" by (rule leaving.handled_save [OF assms(1) Some _ save]) simp
  then show ?thesis using t by auto
qed

lemma adminRevoke_handled:
  assumes "server_ok cr s" and "adminRevoke logged f authorization b s = (resp, t)"
  shows "handled cr s t"
proof (cases "t = s")
  case False
  then obtain rid r x m u where find: "find_ref s rid = Some (r, x)"
      and save: "save_state f (put r (revoked_entry x) s) = (m, u)"
      and t: "t = u \<or> (\<exists>fs. t = log_event logged ''session_admin_revoked'' fs u)"
    using adminRevoke_run [OF assms(2)] by blast
  have "handled cr s u" by (rule revoking.handled_save [OF assms(1) find_ref_heap [OF find] _ save]) simp
  then show ?thesis using t by auto
qed (use assms(1) in simp)

section \<open>The janitor\<close>

lemma handled_delete:
  assumes "server_ok cr s"
  shows "server_ok cr (delete_pending rid s)" and "heap_step s (delete_pending rid s)"
  using assms heap_ok_delete [OF server_okD(1) [OF assms], of rid]
  by (auto simp: server_ok_def heap_step_def)

lemma heap_step_trans:
  assumes "heap_step s t" and "heap_step t u"
  shows "heap_step s u"
proof -
  have "\<exists>z. sv_heap u r = Some z \<and> progress x z" if x: "sv_heap s r = Some x" for r x
  proof -
    from assms(1) x obtain y where "sv_heap t r = Some y" "progress x y"
      unfolding heap_step_def by blast
    moreover from this assms(2) obtain z where "sv_heap u r = Some z" "progress y z"
      unfolding heap_step_def by blast
    ultimately show ?thesis using progress_trans by blast
  qed
  then show ?thesis using assms by (simp add: heap_step_def)
qed

text \<open>One sweep drops exactly the stale entries among those it visits.\<close>

lemma janitor_sweep_entries:
  "distinct ids \<Longrightarrow> entries (snd (janitor_sweep now ids changed s))
     = (\<lambda>rid. if rid \<in> set ids then drop_where (stale now) (entries s) rid else entries s rid)"
proof (induction ids arbitrary: changed s)
  case (Cons rid ids)
  have ent: "entries s rid = map_option snd (find_ref s rid)" by (simp add: entries_def)
  show ?case
  proof (cases "find_ref s rid")
    case None
    then show ?thesis using Cons ent by (auto simp: fun_eq_iff drop_where_def)
  next
    case (Some p)
    then show ?thesis
      using Cons ent by (cases p) (auto simp: fun_eq_iff drop_where_def entries_delete)
  qed
qed simp

lemma janitor_sweep_step:
  "server_ok cr s \<Longrightarrow> server_ok cr (snd (janitor_sweep now ids changed s))
     \<and> heap_step s (snd (janitor_sweep now ids changed s))
     \<and> sv_disk (snd (janitor_sweep now ids changed s)) = sv_disk s"
proof (induction ids arbitrary: changed s)
  case (Cons rid ids)
  then show ?case
    using handled_delete [OF Cons.prems, of rid] heap_step_trans by (fastforce split: option.splits)
qed simp

lemma handled_save_only:
  assumes "server_ok cr t" and "heap_step s t" and "sv_disk t = sv_disk s"
  shows "handled cr s (snd (save_state f t))"
  using assms save_state_disk [of f t] server_ok_cong [OF assms(1), of "snd (save_state f t)"]
  by (auto simp: handled_def disk_step_def heap_step_def)

lemma janitor_handled: "server_ok cr s \<Longrightarrow> handled cr s (janitor now f ids s)"
  using janitor_sweep_step [of cr s now ids False] handled_save_only [of cr _ s f]
  by (auto simp: janitor_def case_prod_unfold handled_def [of cr s "snd (janitor_sweep _ _ _ _)"] disk_step_def)

text \<open>The janitor removes exactly the stale sessions: pending requests older than ten
  minutes, and revoked, rejected or expired sessions created more than ten minutes ago.
  Every other entry of the table stays, in particular every session that can still
  authenticate; and a later save is only needed, and only done, when something was removed.\<close>

theorem janitor_removes_exactly_stale:
  assumes "range_order ids (entries s)"
  shows "entries (janitor now f ids s) = drop_where (stale now) (entries s)
    \<and> (\<forall>rid x tok. entries s rid = Some x \<and> session_match cr now tok x \<longrightarrow> entries (janitor now f ids s) rid = Some x)
    \<and> ((\<forall>x\<in>ran (entries s). \<not> stale now x) \<longrightarrow> janitor now f ids s = s)"
proof -
  have ids: "distinct ids" "\<And>rid. rid \<in> set ids \<longleftrightarrow> entries s rid \<noteq> None"
    using assms range_order_mem [OF assms] by (auto simp: range_order_def)
  have ents: "entries (janitor now f ids s) = drop_where (stale now) (entries s)"
    using janitor_sweep_entries [OF ids(1), of now False s] ids(2)
    by (auto simp: janitor_def case_prod_unfold drop_where_def fun_eq_iff split: option.split)
  moreover have "\<forall>x tok. session_match cr now tok x \<longrightarrow> \<not> stale now x"
    by (auto simp: session_match_def stale_def)
  then have "\<forall>rid x tok. entries s rid = Some x \<and> session_match cr now tok x \<longrightarrow> entries (janitor now f ids s) rid = Some x"
    by (simp add: ents)
  moreover have "janitor now f ids s = s" if none: "\<forall>x\<in>ran (entries s). \<not> stale now x"
  proof -
    have "janitor_sweep now ks False s = (False, s)" for ks
      using none by (induction ks) (auto simp: ran_def entries_def split: option.split)
    then show ?thesis by (simp add: janitor_def)
  qed
  ultimately show ?thesis by blast
qed

theorem janitor_removes_exactly_stale_witness:
  "entries (janitor (2 * hour) None [waiting_id] waiting_server) waiting_id = None"
proof -
  have "range_order [waiting_id] (entries waiting_server)"
    by (simp add: range_order_def waiting_entries)
  from janitor_removes_exactly_stale [OF this, where now = "2 * hour" and f = None]
  show ?thesis
    by (auto simp: waiting_entries drop_where_def stale_def waiting_entry_def pair_entry_def sample_pair_env_def)
qed

end
