(* ===== verification/Broker_System.thy ===== *)
theory Broker_System imports Broker_Views begin

text \<open>
  The broker as a whole: start-up (\<^verbatim>\<open>main\<close> in \<^verbatim>\<open>cmd/pairing-broker/main.go\<close>), any
  interleaving of its handlers, and crashes with a restart from the state file.  A step is
  one locked section; the sections that act on a session hold any reference that is in the
  heap, which covers every handler that looked its session up earlier.
\<close>

section \<open>Start-up\<close>

definition start_server :: "string \<Rightarrow> string option \<Rightarrow> state_file \<Rightarrow> audit_event list \<Rightarrow> server" where
  "start_server admin store file log =
     \<lparr>sv_p = Map.empty, sv_heap = Map.empty, sv_next = 0, sv_admin = admin, sv_seen = Map.empty,
      sv_rates = (\<lambda>host. []), sv_store = store, sv_disk = file, sv_audit = log\<rparr>"

text \<open>The table read from disk, as pointers; \<open>ids\<close> lists its keys.\<close>

fun load_table :: "string list \<Rightarrow> (string \<rightharpoonup> pending) \<Rightarrow> server \<Rightarrow> server" where
  "load_table [] m s = s"
| "load_table (rid # ids) m s =
     (case m rid of
        None \<Rightarrow> load_table ids m s
      | Some x \<Rightarrow> load_table ids m (insert_pending rid x s))"

text \<open>
  \<^verbatim>\<open>main\<close> up to the registration of the handlers: an error is a fatal exit.  The audit file
  is opened for appending, so what it holds stays.
\<close>

definition boot :: "string \<Rightarrow> string \<Rightarrow> time \<Rightarrow> save_stage option \<Rightarrow> string list \<Rightarrow> (string \<Rightarrow> string list)
    \<Rightarrow> state_file \<Rightarrow> audit_event list \<Rightarrow> server outcome" where
  "boot admin path now fault ids ord file log =
     (if length admin < 24 then Err ''BRIDGE_ADMIN_TOKEN must be at least 24 characters''
      else case openStateStore path now ids ord file of
        Err m \<Rightarrow> Err m
      | Panic \<Rightarrow> Panic
      | Ok (store, m) \<Rightarrow>
          (case save store fault m file of
             (Some e, file) \<Rightarrow> Err e
           | (None, file) \<Rightarrow> Ok (load_table ids m (start_server admin store file log))))"

section \<open>Requests\<close>

text \<open>
  What a confirmed answer promises about a session: a command was acknowledged, a result
  was accepted, or the session was revoked.
\<close>

datatype fact = Started string | Completed string | Revoked

fun holds :: "fact \<Rightarrow> pending \<Rightarrow> bool" where
  "holds (Started cid) x = (\<exists>st. p_Commands x cid = Some st \<and> started st)"
| "holds (Completed cid) x = (\<exists>st. p_Commands x cid = Some st \<and> cs_Status st = ''completed'')"
| "holds Revoked x = (r_Status (p_Reply x) = ''revoked'')"

definition promised :: "nat \<Rightarrow> fact \<Rightarrow> response \<Rightarrow> server \<Rightarrow> (string \<times> fact) list" where
  "promised r f resp s =
     (case sv_heap s r of
        Some x \<Rightarrow> if resp_code resp = 200 then [(r_RequestID (p_Reply x), f)] else []
      | None \<Rightarrow> [])"

inductive request :: "crypto \<Rightarrow> server \<Rightarrow> (string \<times> fact) list \<Rightarrow> server \<Rightarrow> bool" for cr where
  Status: "status cr now e fault rid authorization s = (resp, t) \<Longrightarrow> request cr s [] t"
| Approve: "approve cr aenv authorization ab s = (resp, t) \<Longrightarrow> request cr s [] t"
| Reject: "adminReject now fault authorization rb s = (resp, t) \<Longrightarrow> request cr s [] t"
| Enqueue: "enqueue_locked cr eenv rid cmd s = (resp, t) \<Longrightarrow> request cr s [] t"
| Poll: "poll_iter deadline penv r s = (out, t) \<Longrightarrow>
    (\<And>x. sv_heap s r = Some x \<Longrightarrow> range_order (pr_order penv) (p_Commands x)) \<Longrightarrow> request cr s [] t"
| Ack: "ack_locked now logged fault r cid s = (resp, t) \<Longrightarrow> request cr s (promised r (Started cid) resp s) t"
| Result: "result_locked logged fault r q s = (resp, t) \<Longrightarrow>
    request cr s (promised r (Completed (res_ID q)) resp s) t"
| Revoke: "revoke_locked logged fault r s = (resp, t) \<Longrightarrow> request cr s (promised r Revoked resp s) t"
| AdminRevoke: "adminRevoke logged fault authorization rb s = (resp, t) \<Longrightarrow> limitedJSON rb = Some rid \<Longrightarrow>
    find_ref s rid = Some (r, x) \<Longrightarrow> request cr s (promised r Revoked resp s) t"
| Results: "adminResults cr fault rid consume view bytes authorization s = (resp, t) \<Longrightarrow> request cr s [] t"
| Janitor: "request cr s [] (janitor now fault ids s)"

inductive_cases requestE: "request cr s fs t"

section \<open>Steps of the system\<close>

text \<open>
  The state of the system: the server, the request ids handed out so far, and the promises
  made, in order.  A new id is one that was never handed out before: ids are 96 bits of a
  hash of 32 random bytes.
\<close>

record system =
  sys_server :: server
  sys_ids :: "string set"
  sys_log :: "(string \<times> fact) list"

definition new_id :: "crypto \<Rightarrow> pair_env \<Rightarrow> string" where
  "new_id cr env = take 24 (Hash cr (fst (Token (pe_id env))))"

inductive step :: "crypto \<Rightarrow> system \<Rightarrow> system \<Rightarrow> bool" for cr where
  Pair: "pair cr env meth remote b (sys_server y) = (resp, t) \<Longrightarrow> new_id cr env \<notin> sys_ids y \<Longrightarrow>
    step cr y (y\<lparr>sys_server := t, sys_ids := insert (new_id cr env) (sys_ids y)\<rparr>)"
| Request: "request cr (sys_server y) fs t \<Longrightarrow>
    step cr y (y\<lparr>sys_server := t, sys_log := sys_log y @ fs\<rparr>)"
| Restart: "sv_store (sys_server y) = Some path \<Longrightarrow>
    boot (sv_admin (sys_server y)) path now fault ids ord (sv_disk (sys_server y)) (sv_audit (sys_server y)) = Ok t \<Longrightarrow>
    (\<And>m. sv_disk (sys_server y) = Parsed (snapshot m) \<Longrightarrow>
       range_order ids m \<and> (\<forall>rid x. m rid = Some x \<longrightarrow> range_order (ord rid) (p_Commands x))) \<Longrightarrow>
    (sv_disk (sys_server y) = Missing \<Longrightarrow> ids = []) \<Longrightarrow>
    step cr y (y\<lparr>sys_server := t\<rparr>)"

text \<open>A fresh installation with a state path.\<close>

definition initial :: "system \<Rightarrow> bool" where
  "initial y \<longleftrightarrow> (\<exists>admin path. path \<noteq> [] \<and> y = \<lparr>sys_server = start_server admin (Some path) Missing [], sys_ids = {}, sys_log = []\<rparr>)"

inductive reachable :: "crypto \<Rightarrow> system \<Rightarrow> bool" for cr where
  Init: "initial y \<Longrightarrow> reachable cr y"
| Step: "reachable cr y \<Longrightarrow> step cr y z \<Longrightarrow> reachable cr z"

section \<open>The invariant\<close>

definition kept_promise :: "string set \<Rightarrow> (string \<times> fact) list \<Rightarrow> string \<Rightarrow> pending \<Rightarrow> bool" where
  "kept_promise ids log rid x \<longleftrightarrow>
     r_RequestID (p_Reply x) = rid \<and> rid \<in> ids \<and> (\<forall>f. (rid, f) \<in> set log \<longrightarrow> holds f x)"

definition memory_ok :: "crypto \<Rightarrow> string set \<Rightarrow> (string \<times> fact) list \<Rightarrow> server \<Rightarrow> bool" where
  "memory_ok cr ids log s \<longleftrightarrow>
     server_ok cr s
     \<and> (\<forall>r x. sv_heap s r = Some x \<longrightarrow> kept_promise ids log (r_RequestID (p_Reply x)) x)
     \<and> (\<forall>r r' x x'. sv_heap s r = Some x \<and> sv_heap s r' = Some x'
          \<and> r_RequestID (p_Reply x) = r_RequestID (p_Reply x') \<longrightarrow> r = r')"

definition disk_ok :: "crypto \<Rightarrow> string set \<Rightarrow> (string \<times> fact) list \<Rightarrow> state_file \<Rightarrow> bool" where
  "disk_ok cr ids log file \<longleftrightarrow>
     file = Missing
     \<or> (\<exists>m. file = Parsed (snapshot m) \<and> (\<forall>rid x. m rid = Some x \<longrightarrow> entry_ok cr x \<and> kept_promise ids log rid x))"

definition log_once :: "(string \<times> fact) list \<Rightarrow> bool" where
  "log_once log \<longleftrightarrow> distinct (filter (\<lambda>p. snd p \<noteq> Revoked) log)"

definition system_ok :: "crypto \<Rightarrow> system \<Rightarrow> bool" where
  "system_ok cr y \<longleftrightarrow>
     memory_ok cr (sys_ids y) (sys_log y) (sys_server y)
     \<and> disk_ok cr (sys_ids y) (sys_log y) (sv_disk (sys_server y))
     \<and> (\<exists>path. sv_store (sys_server y) = Some path \<and> path \<noteq> [])
     \<and> fst ` set (sys_log y) \<subseteq> sys_ids y \<and> log_once (sys_log y)"

section \<open>Promises are kept\<close>

lemma holds_progress: "progress x y \<Longrightarrow> holds f x \<Longrightarrow> holds f y"
  by (cases f) (fastforce simp: progress_def command_le_def status_le_def)+

lemma holds_recovered:
  assumes "holds f x"
  shows "holds f (recovered ks x)"
proof (cases f)
  case (Started cid)
  then obtain st where "p_Commands x cid = Some st" "started st" using assms by auto
  then have "p_Commands (recovered ks x) cid = Some (release_lease st)" "started (release_lease st)"
    by (auto simp: recovered_commands started_def)
  then show ?thesis by (simp add: Started)
next
  case (Completed cid)
  then obtain st where "p_Commands x cid = Some st" "cs_Status st = ''completed''" using assms by auto
  then have "p_Commands (recovered ks x) cid = Some (release_lease st)" "cs_Status (release_lease st) = ''completed''"
    by (auto simp: recovered_commands)
  then show ?thesis by (simp add: Completed)
qed (use assms in simp)

lemma kept_promise_progress:
  "kept_promise ids log rid x \<Longrightarrow> progress x y \<Longrightarrow> kept_promise ids log rid y"
  using holds_progress by (auto simp: kept_promise_def progress_def)

lemma entry_ok_recovered:
  assumes "entry_ok cr x" and "range_order ks (p_Commands x)"
  shows "entry_ok cr (recovered ks x)"
proof -
  have "p_Queue (recovered ks x) = [] \<and> p_Commands (recovered ks x) = Map.empty" if "p_Commands x = Map.empty"
  proof -
    have "set (p_Queue (recovered ks x)) = {}"
      using that by (auto simp: recovered_queue_def Let_def recover_queue_set queued_in_def pending_in_def map_values_def)
    then show ?thesis using that by (auto simp: recovered_commands fun_eq_iff)
  qed
  then show ?thesis
    using assms recovered_token_ok queue_ok_recovered [OF entry_ok_queue [OF assms(1)] assms(2)]
    by (simp add: entry_ok_def)
qed

lemma kept_promise_recovered: "kept_promise ids log rid x \<Longrightarrow> kept_promise ids log rid (recovered ks x)"
  using holds_recovered by (auto simp: kept_promise_def)

lemma memory_okD:
  assumes "memory_ok cr ids log s" and "sv_heap s r = Some x"
  shows "entry_ok cr x" and "kept_promise ids log (r_RequestID (p_Reply x)) x"
    and "sv_heap s r' = Some x' \<Longrightarrow> r_RequestID (p_Reply x') = r_RequestID (p_Reply x) \<Longrightarrow> r' = r"
  using assms unfolding memory_ok_def using server_okD(2) by blast+

lemma memory_handled:
  assumes "memory_ok cr ids log s" and "server_ok cr t" and "heap_step s t"
  shows "memory_ok cr ids log t"
proof -
  have origin: "\<exists>x. sv_heap s r = Some x \<and> progress x y" if "sv_heap t r = Some y" for r y
    using assms(3) that unfolding heap_step_def by (metis option.distinct(1) option.exhaust option.inject)
  have "kept_promise ids log (r_RequestID (p_Reply y)) y" if y: "sv_heap t r = Some y" for r y
  proof -
    obtain x where x: "sv_heap s r = Some x" "progress x y" using origin [OF y] by blast
    then show ?thesis
      using kept_promise_progress [OF memory_okD(2) [OF assms(1) x(1)] x(2)] by (simp add: progress_def)
  qed
  moreover have "r = r'" if "sv_heap t r = Some y" "sv_heap t r' = Some y'" "r_RequestID (p_Reply y) = r_RequestID (p_Reply y')"
    for r r' y y'
  proof -
    from origin [OF that(1)] origin [OF that(2)]
    obtain x x' where "sv_heap s r = Some x" "progress x y" "sv_heap s r' = Some x'" "progress x' y'"
      by blast
    moreover from this that(3) have "r_RequestID (p_Reply x') = r_RequestID (p_Reply x)"
      unfolding progress_def by simp
    ultimately show ?thesis
      using memory_okD(3) [OF assms(1)] by blast
  qed
  ultimately show ?thesis using assms(2) by (simp add: memory_ok_def)
qed

lemma disk_from_memory:
  assumes "memory_ok cr ids log t"
  shows "disk_ok cr ids log (Parsed (snapshot (entries t)))"
proof -
  have "entry_ok cr x \<and> kept_promise ids log rid x" if "entries t rid = Some x" for rid x
  proof -
    obtain r where r: "sv_p t rid = Some r" "sv_heap t r = Some x" using \<open>entries t rid = Some x\<close> by (auto simp: entries_Some)
    moreover have "heap_ok t" using assms server_okD(1) by (auto simp: memory_ok_def)
    then have "r_RequestID (p_Reply x) = rid" using r by (auto elim!: heap_okD)
    ultimately show ?thesis using memory_okD(1,2) [OF assms r(2)] by simp
  qed
  then show ?thesis unfolding disk_ok_def by blast
qed

lemma memory_insert:
  assumes "memory_ok cr ids log s" and "entry_ok cr x" and "kept_promise ids log rid x"
    and "\<And>r y. sv_heap s r = Some y \<Longrightarrow> r_RequestID (p_Reply y) \<noteq> rid"
  shows "memory_ok cr ids log (insert_pending rid x s)"
proof -
  have rid: "r_RequestID (p_Reply x) = rid" using assms(3) by (simp add: kept_promise_def)
  have ok: "heap_ok s" using assms(1) server_okD(1) by (auto simp: memory_ok_def)
  have heap: "sv_heap (insert_pending rid x s) = (sv_heap s)(sv_next s \<mapsto> x)" by (simp add: insert_pending_def)
  have "server_ok cr (insert_pending rid x s)"
    using heap_ok_insert [OF ok rid] memory_okD(1) [OF assms(1)] assms(2)
    by (auto simp: server_ok_def heap ran_def split: if_splits)
  moreover have "r = r'" if "sv_heap (insert_pending rid x s) r = Some y" "sv_heap (insert_pending rid x s) r' = Some y'"
      "r_RequestID (p_Reply y) = r_RequestID (p_Reply y')" for r r' y y'
    using that assms(4) rid memory_okD(3) [OF assms(1)] by (auto simp: heap split: if_splits)
  moreover have "kept_promise ids log (r_RequestID (p_Reply y)) y"
    if "sv_heap (insert_pending rid x s) r = Some y" for r y
    using that memory_okD(2) [OF assms(1)] assms(3) rid by (auto simp: heap split: if_splits)
  ultimately show ?thesis by (simp add: memory_ok_def)
qed

lemma memory_cong:
  "memory_ok cr ids log s \<Longrightarrow> sv_p t = sv_p s \<Longrightarrow> sv_heap t = sv_heap s \<Longrightarrow> sv_next t = sv_next s \<Longrightarrow> memory_ok cr ids log t"
  using server_ok_cong [of cr s t] by (simp add: memory_ok_def)

lemma memory_more_ids:
  assumes "memory_ok cr ids log s" and "ids \<subseteq> ids'"
  shows "memory_ok cr ids' log s"
  using assms unfolding memory_ok_def kept_promise_def by blast

lemma disk_more_ids: "disk_ok cr ids log file \<Longrightarrow> ids \<subseteq> ids' \<Longrightarrow> disk_ok cr ids' log file"
  unfolding disk_ok_def kept_promise_def by blast

section \<open>Requests keep the invariant\<close>

lemma request_handled:
  assumes "server_ok cr s" and "request cr s fs t"
  shows "handled cr s t"
  using assms(2)
proof cases
  case (Poll deadline penv r out)
  then show ?thesis using poll_iter_handled [OF assms(1)] by blast
next
  case (Status now e fault rid authorization resp)
  then show ?thesis using status_handled [OF assms(1)] by blast
next
  case (Approve aenv authorization ab resp)
  then show ?thesis using approve_handled [OF assms(1)] by blast
next
  case (Reject now fault authorization rb resp)
  then show ?thesis using adminReject_handled [OF assms(1)] by blast
next
  case (Enqueue eenv rid cmd resp)
  then show ?thesis using enqueue_locked_handled [OF assms(1)] by blast
next
  case (Ack now logged fault r cid resp)
  then show ?thesis using ack_locked_handled [OF assms(1)] by blast
next
  case (Result logged fault r q resp)
  then show ?thesis using result_locked_handled [OF assms(1)] by blast
next
  case (Revoke logged fault r resp)
  then show ?thesis using revoke_locked_handled [OF assms(1)] by blast
next
  case (AdminRevoke logged fault authorization rb resp rid r x)
  then show ?thesis using adminRevoke_handled [OF assms(1)] by blast
next
  case (Results fault rid consume view bytes authorization resp)
  then show ?thesis using adminResults_handled [OF assms(1)] by blast
next
  case (Janitor now fault ids)
  then show ?thesis using janitor_handled [OF assms(1)] by simp
qed

lemma promised_cases:
  "p \<in> set (promised r f resp s) \<Longrightarrow>
   \<exists>x. sv_heap s r = Some x \<and> resp_code resp = 200 \<and> promised r f resp s = [(r_RequestID (p_Reply x), f)]"
  by (cases "sv_heap s r") (auto simp: promised_def split: if_splits)

text \<open>What a promise rests on: the record has it, the disk has the table, and it is new.\<close>

definition fulfilled :: "nat \<Rightarrow> fact \<Rightarrow> server \<Rightarrow> server \<Rightarrow> bool" where
  "fulfilled r f s t \<longleftrightarrow>
     (\<exists>x y. sv_heap s r = Some x \<and> sv_heap t r = Some y \<and> holds f y \<and> durable t \<and> (f = Revoked \<or> \<not> holds f x))"

lemma saved_record:
  assumes "save_state g (put r y s) = (None, u)"
  shows "sv_heap u r = Some y" and "durable u"
  using save_state_None [OF assms] durable_save [OF assms] by auto

lemma ack_fulfilled:
  assumes "ack_locked now logged g r cid s = (resp, t)" and "resp_code resp = 200"
  shows "fulfilled r (Started cid) s t"
  using ack_run [OF assms(1)]
proof (elim disjE exE conjE)
  fix x st m u
  assume x: "sv_heap s r = Some x" and st: "p_Commands x cid = Some st" "cs_Status st = ''leased''"
    and save: "save_state g (put r (acked_entry cid st x) s) = (m, u)"
    and out: "if m = None then resp_code resp = 200 \<and> (\<exists>fs. t = log_event logged ''command_acknowledged'' fs u)
            else resp_code resp = 500 \<and> t = u"
  have m: "m = None" using out assms(2) by (auto split: if_splits)
  from save m have save': "save_state g (put r (acked_entry cid st x) s) = (None, u)" by simp
  have "holds (Started cid) (acked_entry cid st x)" by (simp add: acked_entry_def started_def)
  moreover have "\<not> holds (Started cid) x" using st by (simp add: started_def)
  ultimately show ?thesis
    using saved_record [OF save'] x out m by (auto simp: fulfilled_def)
qed (use assms(2) in simp)

lemma result_fulfilled:
  assumes "result_locked logged g r q s = (resp, t)" and "resp_code resp = 200"
  shows "fulfilled r (Completed (res_ID q)) s t"
  using result_run [OF assms(1)]
proof (elim disjE exE conjE)
  fix x st m u
  assume x: "sv_heap s r = Some x" and st: "p_Commands x (res_ID q) = Some st" "cs_Status st = ''running''"
    and save: "save_state g (put r (completed_entry q st x) s) = (m, u)"
    and out: "if m = None then resp_code resp = 200 \<and> (\<exists>fs. t = log_event logged ''command_result'' fs u)
            else resp_code resp = 500 \<and> t = u"
  have m: "m = None" using out assms(2) by (auto split: if_splits)
  from save m have save': "save_state g (put r (completed_entry q st x) s) = (None, u)" by simp
  have "holds (Completed (res_ID q)) (completed_entry q st x)" by (simp add: completed_entry_def)
  moreover have "\<not> holds (Completed (res_ID q)) x" using st by simp
  ultimately show ?thesis
    using saved_record [OF save'] x out m by (auto simp: fulfilled_def)
qed (use assms(2) in simp)

lemma revoke_fulfilled:
  assumes "revoke_locked logged g r s = (resp, t)" and "resp_code resp = 200"
  shows "fulfilled r Revoked s t"
proof (cases "sv_heap s r")
  case None
  then show ?thesis using assms by (auto simp: revoke_locked_def)
next
  case (Some x)
  obtain m u where save: "save_state g (put r (left_entry x) s) = (m, u)" by fastforce
  have m: "m = None" and t: "t = log_event logged ''session_revoked'' Map.empty u"
    using assms Some save by (auto simp: revoke_locked_def left_entry_def Let_def split: option.splits)
  from save m have save': "save_state g (put r (left_entry x) s) = (None, u)" by simp
  show ?thesis
    using saved_record [OF save'] Some t by (auto simp: fulfilled_def left_entry_def)
qed

lemma adminRevoke_fulfilled:
  assumes "adminRevoke logged g authorization b s = (resp, t)" and "resp_code resp = 200"
    and "limitedJSON b = Some rid" and "find_ref s rid = Some (r, x)"
  shows "fulfilled r Revoked s t"
proof -
  obtain m u where save: "save_state g (put r (revoked_entry x) s) = (m, u)" by fastforce
  have m: "m = None" and t: "\<exists>fs. t = log_event logged ''session_admin_revoked'' fs u"
    using assms save by (auto simp: adminRevoke_def split: option.splits if_splits)
  from save m have save': "save_state g (put r (revoked_entry x) s) = (None, u)" by simp
  show ?thesis
    using saved_record [OF save'] find_ref_heap [OF assms(4)] t by (auto simp: fulfilled_def revoked_entry_def)
qed

lemma request_promise:
  assumes "request cr s fs t" and "fs \<noteq> []"
  shows "\<exists>r f x. fs = [(r_RequestID (p_Reply x), f)] \<and> sv_heap s r = Some x \<and> fulfilled r f s t"
proof -
  obtain p where p: "p \<in> set fs" using assms(2) by (cases fs) auto
  show ?thesis
    using assms(1)
  proof cases
    case (Ack now logged fault r cid resp)
    then show ?thesis using p promised_cases [of p r _ resp s] ack_fulfilled [of now logged fault r cid s resp t] by blast
  next
    case (Result logged fault r q resp)
    then show ?thesis using p promised_cases [of p r _ resp s] result_fulfilled [of logged fault r q s resp t] by blast
  next
    case (Revoke logged fault r resp)
    then show ?thesis using p promised_cases [of p r _ resp s] revoke_fulfilled [of logged fault r s resp t] by blast
  next
    case (AdminRevoke logged fault authorization rb resp rid r x)
    then show ?thesis
      using p promised_cases [of p r _ resp s] adminRevoke_fulfilled [of logged fault authorization rb s resp t rid r x] by blast
  qed (use assms(2) in auto)
qed

lemma log_once_append: "log_once log \<Longrightarrow> f = Revoked \<or> (rid, f) \<notin> set log \<Longrightarrow> log_once (log @ [(rid, f)])"
  by (auto simp: log_once_def)

lemma memory_promise:
  assumes "memory_ok cr ids log t" and "sv_heap t r = Some y" and "holds f y"
  shows "memory_ok cr ids (log @ [(r_RequestID (p_Reply y), f)]) t"
  using assms memory_okD(3) [OF assms(1)] unfolding memory_ok_def kept_promise_def
  by (auto; metis option.inject)

lemma request_system_ok:
  assumes "system_ok cr y" and "request cr (sys_server y) fs t"
  shows "system_ok cr (y\<lparr>sys_server := t, sys_log := sys_log y @ fs\<rparr>)"
proof -
  let ?s = "sys_server y"
  have mem: "memory_ok cr (sys_ids y) (sys_log y) ?s" and disk: "disk_ok cr (sys_ids y) (sys_log y) (sv_disk ?s)"
    and store: "\<exists>path. sv_store ?s = Some path \<and> path \<noteq> []"
    and ids: "fst ` set (sys_log y) \<subseteq> sys_ids y" and once: "log_once (sys_log y)"
    using assms(1) by (auto simp: system_ok_def)
  have "handled cr ?s t" using request_handled [OF _ assms(2)] mem by (simp add: memory_ok_def)
  then have ok: "server_ok cr t" and step: "heap_step ?s t" and dstep: "disk_step ?s t" by (auto simp: handled_def)
  have mem': "memory_ok cr (sys_ids y) (sys_log y) t" by (rule memory_handled [OF mem ok step])
  have store': "\<exists>path. sv_store t = Some path \<and> path \<noteq> []" using store step by (simp add: heap_step_def)
  show ?thesis
  proof (cases "fs = []")
    case True
    have "disk_ok cr (sys_ids y) (sys_log y) (sv_disk t)"
      using dstep disk disk_from_memory [OF mem'] by (auto simp: disk_step_def)
    then show ?thesis using True mem' store' ids once by (simp add: system_ok_def)
  next
    case False
    then obtain r f x where fs: "fs = [(r_RequestID (p_Reply x), f)]" and x: "sv_heap ?s r = Some x" and ful: "fulfilled r f ?s t"
      using request_promise [OF assms(2)] by blast
    let ?rid = "r_RequestID (p_Reply x)"
    obtain z where z: "sv_heap t r = Some z" "holds f z" "durable t" "f = Revoked \<or> \<not> holds f x"
      using ful x by (auto simp: fulfilled_def)
    have rid: "r_RequestID (p_Reply z) = ?rid"
      using step x z(1) unfolding heap_step_def progress_def by fastforce
    have new: "f = Revoked \<or> (?rid, f) \<notin> set (sys_log y)"
      using z(4) memory_okD(2) [OF mem x] by (auto simp: kept_promise_def)
    have mem2: "memory_ok cr (sys_ids y) (sys_log y @ fs) t"
      using memory_promise [OF mem' z(1,2)] by (simp add: fs rid)
    have "sv_disk t = Parsed (snapshot (entries t))"
      using z(3) store' by (auto simp: durable_def)
    then have "disk_ok cr (sys_ids y) (sys_log y @ fs) (sv_disk t)"
      using disk_from_memory [OF mem2] by simp
    moreover have "?rid \<in> sys_ids y" using memory_okD(2) [OF mem x] by (simp add: kept_promise_def)
    ultimately show ?thesis
      using mem2 store' ids log_once_append [OF once new] by (simp add: system_ok_def fs)
  qed
qed

section \<open>Pairing and restarting keep the invariant\<close>

lemma entry_ok_new: "entry_ok cr (pair_entry cr env q)"
  by (simp add: entry_ok_def pair_entry_def session_token_ok_def queue_ok_def)

lemma new_id_entry: "r_RequestID (p_Reply (pair_entry cr env q)) = new_id cr env"
  by (simp add: pair_entry_def new_id_def)

lemma memory_delete: "memory_ok cr ids log s \<Longrightarrow> memory_ok cr ids log (delete_pending rid s)"
  using handled_delete(1) by (simp add: memory_ok_def)

text \<open>Whatever \<open>pair_store\<close> does, the memory is that of the insertion, less the entry if the save failed.\<close>

lemma pair_store_run:
  assumes "pair_store cr env remote q s = (resp, t)"
  shows "\<exists>e u. save_state (pe_fault env) (insert_pending (new_id cr env) (pair_entry cr env q) s) = (e, u)
    \<and> ((e \<noteq> None \<and> t = delete_pending (new_id cr env) u)
       \<or> (e = None \<and> (\<exists>fs. t = log_event (pe_logged env) ''pair_requested'' fs u)))"
  using assms by (auto simp: pair_store_def Let_def new_id_entry split: prod.splits option.splits)

lemma pair_system_ok:
  assumes "system_ok cr y" and "pair cr env meth remote b (sys_server y) = (resp, t)" and "new_id cr env \<notin> sys_ids y"
  shows "system_ok cr (y\<lparr>sys_server := t, sys_ids := insert (new_id cr env) (sys_ids y)\<rparr>)"
proof -
  let ?s = "sys_server y" and ?rid = "new_id cr env" and ?ids = "insert (new_id cr env) (sys_ids y)"
  have mem: "memory_ok cr (sys_ids y) (sys_log y) ?s" and disk: "disk_ok cr (sys_ids y) (sys_log y) (sv_disk ?s)"
    and store: "\<exists>path. sv_store ?s = Some path \<and> path \<noteq> []"
    and ids: "fst ` set (sys_log y) \<subseteq> sys_ids y" and once: "log_once (sys_log y)"
    using assms(1) by (auto simp: system_ok_def)
  have result: "system_ok cr (y\<lparr>sys_server := u, sys_ids := ?ids\<rparr>)"
    if "memory_ok cr ?ids (sys_log y) u" "disk_ok cr ?ids (sys_log y) (sv_disk u)" "sv_store u = sv_store ?s" for u
    using that store ids once by (auto simp: system_ok_def)
  have same: "system_ok cr (y\<lparr>sys_server := u, sys_ids := ?ids\<rparr>)"
    if "sv_p u = sv_p ?s" "sv_heap u = sv_heap ?s" "sv_next u = sv_next ?s" "sv_disk u = sv_disk ?s" "sv_store u = sv_store ?s" for u
  proof (rule result)
    show "memory_ok cr ?ids (sys_log y) u"
      by (rule memory_more_ids [OF memory_cong [OF mem that(1-3)]]) auto
    show "disk_ok cr ?ids (sys_log y) (sv_disk u)"
      using disk_more_ids [OF disk, of ?ids] that(4) by auto
  qed (rule that(5))
  from pair_run [OF assms(2)] consider "t = ?s"
    | q ok u where "allowPair cr (pe_now env) remote (q_PublicKey q @ [nul] @ q_Nonce q) ?s = (ok, u)"
        "t = u \<or> pair_store cr env remote q u = (resp, t)"
    by (auto split: if_splits)
  then show ?thesis
  proof cases
    case 1
    then show ?thesis using same [of t] by blast
  next
    case (2 q ok u)
    note frame = allowPair_frame [OF 2(1)]
    let ?x = "pair_entry cr env q"
    let ?v = "insert_pending ?rid ?x u"
    show ?thesis
    proof (cases "t = u")
      case True
      then show ?thesis using same [of u] frame by simp
    next
      case False
      then have "pair_store cr env remote q u = (resp, t)" using 2(2) by simp
      from pair_store_run [OF this] obtain e w where save: "save_state (pe_fault env) ?v = (e, w)"
          and t: "(e \<noteq> None \<and> t = delete_pending ?rid w) \<or> (e = None \<and> (\<exists>fs. t = log_event (pe_logged env) ''pair_requested'' fs w))"
        by blast
      have mem_u: "memory_ok cr ?ids (sys_log y) u"
        by (rule memory_more_ids [OF memory_cong [OF mem frame(1-3)]]) auto
      have "kept_promise ?ids (sys_log y) ?rid ?x"
        using assms(3) ids by (force simp: kept_promise_def new_id_entry)
      moreover have "r_RequestID (p_Reply z) \<noteq> ?rid" if "sv_heap u r = Some z" for r z
        using memory_okD(2) [OF mem, of r z] that assms(3) frame(2) by (auto simp: kept_promise_def)
      ultimately have mem_v: "memory_ok cr ?ids (sys_log y) ?v"
        by (rule memory_insert [OF mem_u entry_ok_new])
      have w: "w = snd (save_state (pe_fault env) ?v)" using save by simp
      have mem_w: "memory_ok cr ?ids (sys_log y) w" unfolding w by (rule memory_cong [OF mem_v]) simp_all
      have store_w: "sv_store w = sv_store ?s" unfolding w by (simp add: frame)
      have disk_w: "disk_ok cr ?ids (sys_log y) (sv_disk w)"
        using save_state_disk [of "pe_fault env" ?v] disk_more_ids [OF disk subset_insertI] disk_from_memory [OF mem_v] frame
        unfolding w by auto
      have "memory_ok cr ?ids (sys_log y) t"
        using t mem_w memory_delete [OF mem_w] memory_cong [OF mem_w] by auto
      moreover have "sv_disk t = sv_disk w" "sv_store t = sv_store w" using t by auto
      ultimately show ?thesis using result [of t] disk_w store_w by simp
    qed
  qed
qed

lemma load_table_memory:
  assumes "memory_ok cr I log s" and "distinct ids"
    and "\<And>rid r x. rid \<in> set ids \<Longrightarrow> sv_heap s r = Some x \<Longrightarrow> r_RequestID (p_Reply x) \<noteq> rid"
    and "\<And>rid x. m rid = Some x \<Longrightarrow> entry_ok cr x \<and> kept_promise I log rid x"
  shows "memory_ok cr I log (load_table ids m s)"
  using assms(1-3)
proof (induction ids arbitrary: s)
  case (Cons rid ids)
  show ?case
  proof (cases "m rid")
    case None
    then show ?thesis using Cons by simp
  next
    case (Some x)
    have x: "entry_ok cr x" "kept_promise I log rid x" using assms(4) [OF Some] by auto
    have "memory_ok cr I log (load_table ids m (insert_pending rid x s))"
    proof (rule Cons.IH)
      show "memory_ok cr I log (insert_pending rid x s)"
        using Cons.prems(3) by (intro memory_insert [OF Cons.prems(1) x]) auto
      show "r_RequestID (p_Reply z) \<noteq> rid'" if "rid' \<in> set ids" "sv_heap (insert_pending rid x s) r = Some z" for rid' r z
        using that Cons.prems(2,3) x(2) by (auto simp: insert_pending_def kept_promise_def split: if_splits)
    qed (use Cons.prems(2) in simp)
    then show ?thesis by (simp add: Some)
  qed
qed simp

lemma load_table_frame [simp]:
  "sv_disk (load_table ids m s) = sv_disk s" "sv_store (load_table ids m s) = sv_store s"
  "sv_admin (load_table ids m s) = sv_admin s" "sv_audit (load_table ids m s) = sv_audit s"
  by (induction ids arbitrary: s) (simp_all split: option.split)

lemma start_memory [simp]: "memory_ok cr I log (start_server admin store file alog)"
  by (simp add: memory_ok_def server_ok_def heap_ok_def start_server_def)

lemma boot_run:
  assumes "boot admin path now fault ids ord file log = Ok t" and "path \<noteq> []"
  shows "\<exists>m. openStateStore path now ids ord file = Ok (Some path, m)
    \<and> t = load_table ids m (start_server admin (Some path) (Parsed (snapshot m)) log)"
proof -
  obtain m where m: "openStateStore path now ids ord file = Ok (Some path, m)"
    using assms by (auto simp: boot_def openStateStore_def split: if_splits outcome.splits state_file.splits option.splits)
  obtain e d where "save (Some path) fault m file = (e, d)" by fastforce
  then show ?thesis
    using assms m save_result [where store = "Some path" and fault = fault and entries = m]
    by (cases fault) (auto simp: boot_def split: if_splits)
qed

lemma restart_system_ok:
  assumes "system_ok cr y" and "sv_store (sys_server y) = Some path"
    and "boot admin path now fault ids ord (sv_disk (sys_server y)) log = Ok t"
    and "\<And>m. sv_disk (sys_server y) = Parsed (snapshot m) \<Longrightarrow>
       range_order ids m \<and> (\<forall>rid x. m rid = Some x \<longrightarrow> range_order (ord rid) (p_Commands x))"
    and "sv_disk (sys_server y) = Missing \<Longrightarrow> ids = []"
  shows "system_ok cr (y\<lparr>sys_server := t\<rparr>)"
proof -
  let ?file = "sv_disk (sys_server y)"
  have path: "path \<noteq> []" and disk: "disk_ok cr (sys_ids y) (sys_log y) ?file"
    and ids: "fst ` set (sys_log y) \<subseteq> sys_ids y" and once: "log_once (sys_log y)"
    using assms(1,2) by (auto simp: system_ok_def)
  obtain m where m: "openStateStore path now ids ord ?file = Ok (Some path, m)"
      and t: "t = load_table ids m (start_server admin (Some path) (Parsed (snapshot m)) log)"
    using boot_run [OF assms(3) path] by blast
  have good: "(entry_ok cr x \<and> kept_promise (sys_ids y) (sys_log y) rid x)" if x: "m rid = Some x" for rid x
  proof (cases "?file = Missing")
    case True
    then show ?thesis using m x by (auto simp: openStateStore_def)
  next
    case False
    then obtain d where d: "?file = Parsed (snapshot d)"
        and dok: "\<And>rid x. d rid = Some x \<Longrightarrow> entry_ok cr x \<and> kept_promise (sys_ids y) (sys_log y) rid x"
      using disk by (auto simp: disk_ok_def)
    have ord: "\<And>rid x. d rid = Some x \<Longrightarrow> range_order (ord rid) (p_Commands x)"
      using assms(4) [OF d] by blast
    have "m = restart now ord d"
      using m recoverState_snapshot [of d ord now ids] ord by (simp add: d openStateStore_def snapshot_def)
    then obtain x0 where "d rid = Some x0" "x = recovered (ord rid) x0"
      using x by (auto simp: restart_def split: option.splits if_splits)
    then show ?thesis
      using dok entry_ok_recovered ord kept_promise_recovered by blast
  qed
  have "distinct ids"
    using disk assms(4,5) by (auto simp: disk_ok_def range_order_def)
  then have mem: "memory_ok cr (sys_ids y) (sys_log y) t"
    unfolding t using good by (intro load_table_memory start_memory) (auto simp: start_server_def)
  have "disk_ok cr (sys_ids y) (sys_log y) (sv_disk t)"
    using good by (auto simp: t start_server_def disk_ok_def)
  then show ?thesis
    using mem path ids once by (simp add: system_ok_def t start_server_def)
qed

section \<open>What holds of every history\<close>

lemma initial_system_ok: "initial y \<Longrightarrow> system_ok cr y"
  by (auto simp: initial_def system_ok_def disk_ok_def log_once_def) (simp_all add: start_server_def)

lemma reachable_system_ok: "reachable cr y \<Longrightarrow> system_ok cr y"
proof (induction rule: reachable.induct)
  case (Step y z)
  from \<open>step cr y z\<close> show ?case
  proof cases
    case (Pair env meth remote b resp t)
    then show ?thesis using pair_system_ok [OF Step.IH] by blast
  next
    case (Request fs t)
    then show ?thesis using request_system_ok [OF Step.IH] by blast
  next
    case (Restart path now fault ids ord t)
    show ?thesis
      unfolding Restart(1) using Restart(4,5) by (intro restart_system_ok [OF Step.IH Restart(2,3)]) blast+
  qed
qed (rule initial_system_ok)

text \<open>A concrete history for the witnesses: a fresh installation.\<close>

definition fresh_system :: system where
  "fresh_system = \<lparr>sys_server = start_server ''admin-token-of-24-characters'' (Some ''state.json'') Missing [],
     sys_ids = {}, sys_log = []\<rparr>"

lemma fresh_reachable: "reachable cr fresh_system"
  by (rule reachable.Init) (auto simp: initial_def fresh_system_def)

definition paired_system :: system where
  "paired_system = fresh_system
     \<lparr>sys_server := snd (pair lax_crypto sample_pair_env ''POST'' ''10.0.0.1:5''
        \<lparr>bd_size = 500, bd_value = Some signed_request\<rparr> (sys_server fresh_system)),
      sys_ids := {new_id lax_crypto sample_pair_env}\<rparr>"

lemma paired_reachable: "reachable lax_crypto paired_system"
proof (rule reachable.Step [OF fresh_reachable])
  show "step lax_crypto fresh_system paired_system"
    using step.Pair [OF prod.collapse [symmetric], where y = fresh_system and cr = lax_crypto and env = sample_pair_env
        and meth = "''POST''" and remote = "''10.0.0.1:5''" and b = "\<lparr>bd_size = 500, bd_value = Some signed_request\<rparr>"]
    by (simp add: paired_system_def fresh_system_def)
qed

text \<open>
  A whole session: the paired request is approved, its initial command is polled and
  acknowledged, the session is revoked.
\<close>

definition paired_server :: server where
  "paired_server = log_event (pe_logged sample_pair_env) ''pair_requested''
     [''requestId'' \<mapsto> AString (new_id lax_crypto sample_pair_env), ''usbId'' \<mapsto> AString (q_USBID signed_request),
      ''compareCode'' \<mapsto> AString (CompareCode lax_crypto (q_PublicKey signed_request) (q_Nonce signed_request)),
      ''source'' \<mapsto> AString ''10.0.0.1:5'']
     (snd (save_state None (insert_pending (new_id lax_crypto sample_pair_env) (pair_entry lax_crypto sample_pair_env signed_request)
        (snd (allowPair lax_crypto hour ''10.0.0.1:5'' (q_PublicKey signed_request @ [nul] @ q_Nonce signed_request)
           (sys_server fresh_system))))))"

lemma paired_system_server: "sys_server paired_system = paired_server"
proof -
  have "fst (allowPair lax_crypto hour ''10.0.0.1:5'' (q_PublicKey signed_request @ [nul] @ q_Nonce signed_request)
      (sys_server fresh_system))"
    by (simp add: allowPair_def Let_def fresh_system_def start_server_def drop_where_def)
  then show ?thesis
    unfolding paired_system_def paired_server_def
    by (simp add: pair_def limitedJSON_def limitedJSONN_def signed_request_accepted case_prod_unfold pair_store_def
        new_id_def Let_def sample_pair_env_def pair_entry_def)
qed

lemma paired_refs [simp]:
  "find_ref paired_server (new_id lax_crypto sample_pair_env) = Some (0, pair_entry lax_crypto sample_pair_env signed_request)"
  "sv_heap paired_server 0 = Some (pair_entry lax_crypto sample_pair_env signed_request)"
  "sv_admin paired_server = ''admin-token-of-24-characters''" "sv_store paired_server = Some ''state.json''"
  by (simp_all add: paired_server_def find_ref_Some allowPair_def Let_def fresh_system_def start_server_def
      drop_where_def insert_pending_def)

definition sample_approve_body :: "approve_query body" where
  "sample_approve_body = \<lparr>bd_size = 60, bd_value = Some \<lparr>aq_RequestID = new_id lax_crypto sample_pair_env, aq_Minutes = 30\<rparr>\<rparr>"

definition approved_server :: server where
  "approved_server = snd (approve lax_crypto sample_approve_env ''Bearer admin-token-of-24-characters'' sample_approve_body paired_server)"

definition sample_approved_entry :: pending where
  "sample_approved_entry = approved_entry lax_crypto sample_approve_env 30 (pair_entry lax_crypto sample_pair_env signed_request)"

lemma approved_heap: "sv_heap approved_server 0 = Some sample_approved_entry"
proof -
  have "go_quot (wrap64 1859) 60 = 30" by code_simp
  then show ?thesis
    by (simp add: approved_server_def approve_def sample_approve_body_def isAdmin_def limitedJSON_def limitedJSONN_def
        approveRequest_def Let_def case_prod_unfold pair_entry_def signed_request_def sample_request_def
        sample_approve_env_def sample_approved_entry_def)
qed

definition first_round :: poll_round where
  "first_round = \<lparr>pr_now = hour, pr_order = [''initial-system-info''], pr_leased = hour, pr_active = hour,
     pr_checked = hour, pr_fault = None, pr_gone = False\<rparr>"

definition polled_server :: server where
  "polled_server = snd (poll_iter (2 * hour) first_round 0 approved_server)"

lemma first_order: "range_order (pr_order first_round) (p_Commands sample_approved_entry)"
  by (auto simp: range_order_def first_round_def sample_approved_entry_def approved_entry_def Let_def
      pair_entry_def initial_command_def)

definition leased_initial :: commandState where
  "leased_initial = (newCommandState lax_crypto (initial_command sample_approve_env))
     \<lparr>cs_Status := ''leased'', cs_LeaseUntil := hour + 10 * second\<rparr>"

lemma polled_heap: "\<exists>x. sv_heap polled_server 0 = Some x \<and> p_Commands x ''initial-system-info'' = Some leased_initial
    \<and> r_RequestID (p_Reply x) = new_id lax_crypto sample_pair_env"
proof -
  have "release_expired hour [''initial-system-info''] sample_approved_entry = sample_approved_entry"
    by (simp add: sample_approved_entry_def approved_entry_def Let_def pair_entry_def initial_command_def
        lease_expired_def)
  then show ?thesis
    by (simp add: polled_server_def poll_iter_def approved_heap first_round_def Let_def case_prod_unfold
        sample_approved_entry_def approved_entry_def pair_entry_def initial_command_def lease_entry_def
        leased_initial_def new_id_def)
qed

definition acked_server :: server where
  "acked_server = snd (ack_locked hour hour None 0 ''initial-system-info'' polled_server)"

lemma ack_accepted: "resp_code (fst (ack_locked hour hour None 0 ''initial-system-info'' polled_server)) = 200"
proof -
  show ?thesis
    using polled_heap by (auto simp: ack_locked_def case_prod_unfold leased_initial_def)
qed

definition sample_revoke :: "string body" where
  "sample_revoke = \<lparr>bd_size = 40, bd_value = Some (new_id lax_crypto sample_pair_env)\<rparr>"

definition revoked_server :: server where
  "revoked_server = snd (adminRevoke hour None ''Bearer admin-token-of-24-characters'' sample_revoke paired_server)"

lemma revoke_accepted:
  "resp_code (fst (adminRevoke hour None ''Bearer admin-token-of-24-characters'' sample_revoke paired_server)) = 200"
proof -
  show ?thesis
    by (simp add: adminRevoke_def isAdmin_def limitedJSON_def limitedJSONN_def sample_revoke_def case_prod_unfold)
qed


lemma approved_reachable: "reachable lax_crypto (paired_system\<lparr>sys_server := approved_server\<rparr>)"
proof (rule reachable.Step [OF paired_reachable])
  have "request lax_crypto (sys_server paired_system) [] approved_server"
    unfolding paired_system_server approved_server_def by (rule request.Approve [OF prod.collapse [symmetric]])
  from step.Request [OF this] show "step lax_crypto paired_system (paired_system\<lparr>sys_server := approved_server\<rparr>)"
    by simp
qed

lemma polled_reachable: "reachable lax_crypto (paired_system\<lparr>sys_server := polled_server\<rparr>)"
proof (rule reachable.Step [OF approved_reachable])
  have "request lax_crypto approved_server [] polled_server"
    unfolding polled_server_def by (rule request.Poll [OF prod.collapse [symmetric]]) (use first_order approved_heap in auto)
  from step.Request [of _ "paired_system\<lparr>sys_server := approved_server\<rparr>" "[]", simplified, OF this]
  show "step lax_crypto (paired_system\<lparr>sys_server := approved_server\<rparr>) (paired_system\<lparr>sys_server := polled_server\<rparr>)"
    by simp
qed

definition acked_system :: system where
  "acked_system = paired_system\<lparr>sys_server := acked_server,
     sys_log := [(new_id lax_crypto sample_pair_env, Started ''initial-system-info'')]\<rparr>"

lemma acked_reachable: "reachable lax_crypto acked_system"
proof (rule reachable.Step [OF polled_reachable])
  let ?y = "paired_system\<lparr>sys_server := polled_server\<rparr>"
  let ?ack = "ack_locked hour hour None 0 ''initial-system-info'' polled_server"
  have "request lax_crypto (sys_server ?y) (promised 0 (Started ''initial-system-info'') (fst ?ack) polled_server) acked_server"
    unfolding acked_server_def by (simp, rule request.Ack [OF prod.collapse [symmetric]])
  moreover have "promised 0 (Started ''initial-system-info'') (fst ?ack) polled_server
      = [(new_id lax_crypto sample_pair_env, Started ''initial-system-info'')]"
    using polled_heap by (auto simp: promised_def ack_accepted)
  ultimately show "step lax_crypto ?y acked_system"
    using step.Request [of lax_crypto ?y] by (fastforce simp: acked_system_def paired_system_def fresh_system_def)
qed

definition revoked_system :: system where
  "revoked_system = paired_system\<lparr>sys_server := revoked_server, sys_log := [(new_id lax_crypto sample_pair_env, Revoked)]\<rparr>"

lemma revoked_reachable: "reachable lax_crypto revoked_system"
proof (rule reachable.Step [OF paired_reachable])
  let ?run = "adminRevoke hour None ''Bearer admin-token-of-24-characters'' sample_revoke paired_server"
  have "request lax_crypto (sys_server paired_system) (promised 0 Revoked (fst ?run) paired_server) revoked_server"
    unfolding revoked_server_def paired_system_server
    by (rule request.AdminRevoke [OF prod.collapse [symmetric] _ paired_refs(1)])
       (simp add: limitedJSON_def limitedJSONN_def sample_revoke_def)
  moreover have "promised 0 Revoked (fst ?run) paired_server = [(new_id lax_crypto sample_pair_env, Revoked)]"
    by (simp add: promised_def revoke_accepted) (simp add: pair_entry_def new_id_def)
  ultimately show "step lax_crypto paired_system revoked_system"
    using step.Request [of lax_crypto paired_system] by (fastforce simp: revoked_system_def paired_system_def fresh_system_def)
qed

text \<open>C1 A command is started at most once and its result accepted at most once, whatever
  happens: over every history of requests, failed saves, races between handlers, crashes
  and restarts, no command of a session gets two positive acknowledgements, and none gets two
  accepted results.\<close>

theorem commands_run_at_most_once:
  assumes "reachable cr y"
  shows "length (filter (\<lambda>p. p = (rid, Started cid)) (sys_log y)) \<le> 1
    \<and> length (filter (\<lambda>p. p = (rid, Completed cid)) (sys_log y)) \<le> 1"
proof -
  let ?log = "filter (\<lambda>p. snd p \<noteq> Revoked) (sys_log y)"
  have dist: "distinct ?log"
    using reachable_system_ok [OF assms] by (simp add: system_ok_def log_once_def)
  have "length (filter (\<lambda>p. p = (rid, f)) (sys_log y)) \<le> 1" if "f \<noteq> Revoked" for f
  proof -
    have eq: "filter (\<lambda>p. p = (rid, f)) (sys_log y) = filter (\<lambda>p. p = (rid, f)) ?log"
      using that by (auto intro!: filter_cong)
    have "length (filter (\<lambda>p. p = (rid, f)) (sys_log y)) = card (set (filter (\<lambda>p. p = (rid, f)) ?log))"
      unfolding eq by (rule distinct_card [OF distinct_filter [OF dist], symmetric])
    moreover have "card (set (filter (\<lambda>p. p = (rid, f)) ?log)) \<le> card {(rid, f)}"
      by (intro card_mono) auto
    moreover have "card {(rid, f)} = 1" by simp
    ultimately show ?thesis by linarith
  qed
  then show ?thesis by simp
qed

theorem commands_run_at_most_once_witness:
  "sys_log acked_system = [(new_id lax_crypto sample_pair_env, Started ''initial-system-info'')]
   \<and> length (filter (\<lambda>p. p = (new_id lax_crypto sample_pair_env, Started ''initial-system-info'')) (sys_log acked_system)) \<le> 1"
  using commands_run_at_most_once [OF acked_reachable] by (simp add: acked_system_def)

text \<open>C5 A confirmed revocation is final.  Once a revocation of a session has been answered
  positively, no token authenticates against that session again, at no time and through no
  later request, failed save, crash or restart: what the table holds under its id, if
  anything, is revoked and has no token.\<close>

theorem revoked_sessions_stay_dead:
  assumes "reachable cr y" and "(rid, Revoked) \<in> set (sys_log y)" and "entries (sys_server y) rid = Some x"
  shows "r_Status (p_Reply x) = ''revoked'' \<and> p_TokenHash x = [] \<and> \<not> session_match cr now tok x"
proof -
  have mem: "memory_ok cr (sys_ids y) (sys_log y) (sys_server y)"
    using reachable_system_ok [OF assms(1)] by (simp add: system_ok_def)
  obtain r where r: "sv_p (sys_server y) rid = Some r" "sv_heap (sys_server y) r = Some x"
    using assms(3) by (auto simp: entries_Some)
  have "heap_ok (sys_server y)" using mem server_okD(1) by (auto simp: memory_ok_def)
  then have "r_RequestID (p_Reply x) = rid" using r by (auto elim!: heap_okD)
  then have "holds Revoked x"
    using memory_okD(2) [OF mem r(2)] assms(2) unfolding kept_promise_def by blast
  then show ?thesis
    using memory_okD(1) [OF mem r(2)] by (simp add: entry_ok_def session_match_def)
qed

theorem revoked_sessions_stay_dead_witness:
  "\<exists>x. entries (sys_server revoked_system) (new_id lax_crypto sample_pair_env) = Some x
     \<and> \<not> session_match lax_crypto hour ''token'' x"
proof -
  have eq: "revoked_server = log_event hour ''session_admin_revoked'' [''requestId'' \<mapsto> AString (new_id lax_crypto sample_pair_env)]
      (snd (save_state None (put 0 (revoked_entry (pair_entry lax_crypto sample_pair_env signed_request)) paired_server)))"
    by (simp add: revoked_server_def adminRevoke_def isAdmin_def limitedJSON_def limitedJSONN_def sample_revoke_def
        case_prod_unfold)
  have "sv_p paired_server (new_id lax_crypto sample_pair_env) = Some 0"
    using paired_refs(1) unfolding find_ref_Some by blast
  then have "sv_p revoked_server (new_id lax_crypto sample_pair_env) = Some 0"
    "sv_heap revoked_server 0 = Some (revoked_entry (pair_entry lax_crypto sample_pair_env signed_request))"
    by (simp_all add: eq)
  then have "\<exists>x. entries (sys_server revoked_system) (new_id lax_crypto sample_pair_env) = Some x"
    unfolding entries_Some by (auto simp: revoked_system_def)
  then obtain x where "entries (sys_server revoked_system) (new_id lax_crypto sample_pair_env) = Some x" by blast
  moreover from revoked_sessions_stay_dead [OF revoked_reachable _ this, of hour "''token''"]
  have "\<not> session_match lax_crypto hour ''token'' x"
    by (simp add: revoked_system_def)
  ultimately show ?thesis by blast
qed



end
