(* ===== verification/Go_Number.thy ===== *)
theory Go_Number imports Go_Time "HOL-Library.Log_Nat" begin

text \<open>
  The numbers of Go's \<^verbatim>\<open>encoding/json\<close>, \<^verbatim>\<open>strconv\<close>, \<^verbatim>\<open>flag\<close> and \<^verbatim>\<open>time\<close> packages that the
  operator's programs read: \<^verbatim>\<open>float64\<close> as a rational rounded to 53 bits (finite values; the
  two zeros are one), its shortest decimal text, \<^verbatim>\<open>ParseInt\<close> with base 0, \<^verbatim>\<open>ParseBool\<close> and
  \<^verbatim>\<open>ParseDuration\<close>.  The main lemma is that an integer of at most 53 bits is a float64 as it is.
\<close>

section \<open>Rounding to float64\<close>

definition round_even :: "rat \<Rightarrow> int" where
  "round_even q =
     (let n = \<lfloor>q\<rfloor>; d = q - of_int n
      in if d < 1 / 2 then n else if 1 / 2 < d then n + 1 else if even n then n else n + 1)"

definition two_pow :: "int \<Rightarrow> rat" where
  "two_pow e = (if 0 \<le> e then 2 ^ nat e else 1 / 2 ^ nat (- e))"

definition ten_pow :: "int \<Rightarrow> rat" where
  "ten_pow e = (if 0 \<le> e then 10 ^ nat e else 1 / 10 ^ nat (- e))"

text \<open>The exponent of the highest bit of a positive rational.\<close>

definition top_bit :: "rat \<Rightarrow> int" where
  "top_bit q =
     (case quotient_of q of (a, b) \<Rightarrow>
        (let e = bitlen a - bitlen b in if two_pow e \<le> q then e else e - 1))"

text \<open>Round to nearest, ties to even; \<open>None\<close> where the result would be infinite.\<close>

definition float64 :: "rat \<Rightarrow> rat option" where
  "float64 q =
     (if q = 0 then Some 0
      else
        let u = two_pow (max (top_bit \<bar>q\<bar> - 52) (- 1074)); r = of_int (round_even (q / u)) * u
        in if two_pow 1024 \<le> \<bar>r\<bar> then None else Some r)"

text \<open>Conversion of a float64 to \<^verbatim>\<open>int\<close> truncates; out of range it is the least integer on amd64.\<close>

definition trunc :: "rat \<Rightarrow> int" where
  "trunc q = (if q < 0 then \<lceil>q\<rceil> else \<lfloor>q\<rfloor>)"

definition int_of_float :: "rat \<Rightarrow> int" where
  "int_of_float q = (if in_int64 (trunc q) then trunc q else - 9223372036854775808)"

lemma two_pow_add: "two_pow (a + b) = two_pow a * two_pow b"
proof -
  have "two_pow e = 2 powi e" for e
    by (simp add: two_pow_def power_int_def inverse_eq_divide power_one_over)
  then show ?thesis by (simp add: power_int_add)
qed

lemma two_pow_pos [simp]: "0 < two_pow e"
  by (simp add: two_pow_def)

lemma round_even_int [simp]: "round_even (of_int n) = n"
  by (simp add: round_even_def)

lemma top_bit_int:
  assumes "0 < n"
  shows "top_bit (of_int n) = bitlen n - 1"
proof -
  have q: "quotient_of (of_int n) = (n, 1)" by (simp add: quotient_of_int)
  have one: "bitlen 1 = 1" by (simp add: bitlen_def floorlog_def)
  have b: "0 < bitlen n" using assms bitlen_nonneg [of n] bitlen_eq_zero_iff [of n] by linarith
  have low: "2 ^ nat (bitlen n - 1) \<le> n" by (rule bitlen_bounds [THEN conjunct1]) (use assms in simp)
  then have "(2::rat) ^ nat (bitlen n - 1) \<le> of_int n"
    by (metis of_int_le_iff of_int_numeral of_int_power)
  then show ?thesis using b by (simp add: top_bit_def q one two_pow_def Let_def)
qed

lemma float64_int:
  assumes "\<bar>n\<bar> \<le> 2 ^ 53"
  shows "float64 (of_int n) = Some (of_int n)"
proof (cases "n = 0")
  case True
  then show ?thesis by (simp add: float64_def)
next
  case False
  define k where "k = \<bar>n\<bar>"
  have k: "0 < k" "k \<le> 2 ^ 53" using False assms by (simp_all add: k_def)
  have bl: "0 < bitlen k" using k bitlen_nonneg [of k] bitlen_eq_zero_iff [of k] by linarith
  have "bitlen k \<le> 54"
  proof (rule ccontr)
    assume "\<not> bitlen k \<le> 54"
    then have "(2::int) ^ 54 \<le> 2 ^ nat (bitlen k - 1)" by (intro power_increasing) auto
    also have "\<dots> \<le> k" by (rule bitlen_bounds [THEN conjunct1]) (use k in simp)
    finally show False using k by simp
  qed
  then consider "bitlen k \<le> 53" | "bitlen k = 54" by linarith
  then obtain m where m: "of_int n / two_pow (bitlen k - 53) = (of_int m :: rat)"
  proof cases
    case 1
    then have "of_int n / two_pow (bitlen k - 53) = (of_int (n * 2 ^ nat (53 - bitlen k)) :: rat)"
      by (cases "bitlen k = 53") (simp_all add: two_pow_def)
    then show ?thesis by (rule that)
  next
    case 2
    then have "(2::int) ^ 53 \<le> k"
      using bitlen_bounds [of k] k by simp
    then have "k = 2 ^ 53" using k by linarith
    then have "n = 2 ^ 53 \<or> n = - (2 ^ 53)" unfolding k_def by linarith
    then have "of_int n / two_pow (bitlen k - 53) = (of_int (n div 2) :: rat)"
      using 2 by (auto simp: two_pow_def)
    then show ?thesis by (rule that)
  qed
  have top: "top_bit \<bar>of_int n\<bar> = bitlen k - 1"
    using top_bit_int [OF k(1)] by (simp add: k_def)
  have mx: "max (bitlen k - 53) (- 1074) = bitlen k - 53" using bl by linarith
  have exact: "of_int m * two_pow (bitlen k - 53) = (of_int n :: rat)"
    using m two_pow_pos [of "bitlen k - 53"] by (metis less_numeral_extra(3) nonzero_eq_divide_eq)
  have small: "\<not> two_pow 1024 \<le> \<bar>of_int n :: rat\<bar>"
  proof -
    have "\<bar>of_int n :: rat\<bar> \<le> 2 ^ 53" using assms by (metis of_int_abs of_int_le_iff of_int_numeral of_int_power)
    also have "\<dots> < two_pow 1024" by (simp add: two_pow_def)
    finally show ?thesis by simp
  qed
  show ?thesis
    using False small by (simp add: float64_def Let_def top mx m exact)
qed

lemma trunc_int [simp]: "trunc (of_int n) = n"
  by (simp add: trunc_def)

section \<open>Numbers in JSON texts\<close>

text \<open>The rational a JSON number literal stands for, and the float64 it is decoded to.\<close>

definition exponent_value :: "string \<Rightarrow> int" where
  "exponent_value s =
     (if HasPrefix s ''-'' then - int (digits_value (tl s))
      else if HasPrefix s ''+'' then int (digits_value (tl s)) else int (digits_value s))"

definition number_value :: "string \<Rightarrow> rat" where
  "number_value s =
     (let neg = HasPrefix s ''-'';
          t = (if neg then tl s else s);
          m = takeWhile (\<lambda>c. c \<notin> set ''eE'') t;
          x = drop (Suc (length m)) t;
          ip = takeWhile (\<lambda>c. c \<noteq> CHR ''.'') m;
          fp = drop (Suc (length ip)) m;
          q = of_nat (digits_value (ip @ fp)) * ten_pow (exponent_value x - int (length fp))
      in if neg then - q else q)"

definition ParseFloat :: "string \<Rightarrow> rat option" where
  "ParseFloat s = float64 (number_value s)"

text \<open>
  \<^verbatim>\<open>encoding/json\<close> writes a float64 with the fewest digits that read back as it.  For an
  integer below \<open>2 ^ 53\<close> these are its decimal digits.  Otherwise the digits are searched by
  their number, at most 17: of the two decimals of that many digits around the value the one
  that is read back, the nearer one if both are.
\<close>

definition ten_exponent :: "rat \<Rightarrow> int" where
  "ten_exponent q =
     (case quotient_of q of (a, b) \<Rightarrow>
        (let e = int (length (nat_decimal (nat a))) - int (length (nat_decimal (nat b)))
         in if ten_pow e \<le> q then e else e - 1))"

definition short_digits :: "rat \<Rightarrow> nat \<Rightarrow> int option" where
  "short_digits q n =
     (let u = ten_pow (ten_exponent q - int n + 1);
          lo = \<lfloor>q / u\<rfloor>;
          good = filter (\<lambda>d. float64 (of_int d * u) = Some q) [lo, lo + 1]
      in case good of
           [] \<Rightarrow> None
         | [d] \<Rightarrow> Some d
         | _ \<Rightarrow> Some (round_even (q / u)))"

definition shortest :: "rat \<Rightarrow> int \<times> nat" where
  "shortest q =
     (case find (\<lambda>n. short_digits q n \<noteq> None) [1..<18] of
        Some n \<Rightarrow> (the (short_digits q n), n)
      | None \<Rightarrow> (0, 0))"

definition strip_zeros :: "string \<Rightarrow> string" where
  "strip_zeros s = rev (dropWhile (\<lambda>c. c = CHR ''0'') (rev s))"

definition float_digits :: "rat \<Rightarrow> string \<times> int" where
  "float_digits q =
     (let (d, n) = shortest q; ds = nat_decimal (nat d)
      in (strip_zeros ds, ten_exponent q + int (length ds) - int n))"

definition plain_float :: "string \<Rightarrow> int \<Rightarrow> string" where
  "plain_float ds e =
     (if e < 0 then ''0.'' @ replicate (nat (- e) - 1) (CHR ''0'') @ ds
      else if int (length ds) \<le> e + 1 then ds @ replicate (nat e + 1 - length ds) (CHR ''0'')
      else take (nat e + 1) ds @ ''.'' @ drop (nat e + 1) ds)"

definition exponent_float :: "string \<Rightarrow> int \<Rightarrow> string" where
  "exponent_float ds e =
     take 1 ds @ (if length ds = 1 then [] else ''.'' @ drop 1 ds)
     @ (if e < 0 then ''e-'' else ''e+'') @ nat_decimal (nat \<bar>e\<bar>)"

definition float_text :: "rat \<Rightarrow> string" where
  "float_text q =
     (if q = of_int (trunc q) \<and> \<bar>q\<bar> < 2 ^ 53 then Itoa (trunc q)
      else
        let (ds, e) = float_digits \<bar>q\<bar>
        in (if q < 0 then ''-'' else [])
           @ (if \<bar>q\<bar> < ten_pow (- 6) \<or> ten_pow 21 \<le> \<bar>q\<bar> then exponent_float ds e else plain_float ds e))"

lemma float_text_int: "\<bar>i\<bar> < 2 ^ 53 \<Longrightarrow> float_text (of_int i) = Itoa i"
proof -
  assume "\<bar>i\<bar> < 2 ^ 53"
  then have "\<bar>of_int i :: rat\<bar> < 2 ^ 53"
    by (metis of_int_abs of_int_less_iff of_int_numeral of_int_power)
  then show ?thesis by (simp add: float_text_def)
qed

section \<open>Flags: integers and booleans\<close>

text \<open>
  \<^verbatim>\<open>strconv.ParseInt(s, 0, 64)\<close>: the base is read off a prefix; underscores may stand
  between digits and after the prefix.  \<open>b\<close> is the base, \<open>seen\<close> the kind of the last character
  (a digit or the prefix, an underscore, nothing).
\<close>

definition lower :: "char \<Rightarrow> char" where
  "lower c = (if byte_in 65 90 (of_char c) then char_of ((of_char c :: nat) + 32) else c)"

definition based_digit :: "nat \<Rightarrow> char \<Rightarrow> nat option" where
  "based_digit b c =
     (let n = of_char (lower c);
          d = (if byte_in 48 57 n then n - 48 else if byte_in 97 122 n then n - 87 else b)
      in if d < b then Some d else None)"

fun based_value :: "nat \<Rightarrow> nat \<Rightarrow> string \<Rightarrow> nat option" where
  "based_value b acc [] = Some acc"
| "based_value b acc (c # s) =
     (if c = CHR ''_'' then based_value b acc s
      else (case based_digit b c of None \<Rightarrow> None | Some d \<Rightarrow> based_value b (acc * b + d) s))"

fun underscores_ok :: "bool \<Rightarrow> string \<Rightarrow> bool" where
  "underscores_ok seen [] = True"
| "underscores_ok seen [c] = (c \<noteq> CHR ''_'')"
| "underscores_ok seen (c # d # s) =
     (if c = CHR ''_'' then seen \<and> d \<noteq> CHR ''_'' \<and> underscores_ok False (d # s)
      else underscores_ok True (d # s))"

definition based_prefix :: "string \<Rightarrow> nat \<times> bool \<times> string" where
  "based_prefix s =
     (if HasPrefix s ''0'' then
        (if 3 \<le> length s \<and> lower (s ! 1) = CHR ''b'' then (2, True, drop 2 s)
         else if 3 \<le> length s \<and> lower (s ! 1) = CHR ''o'' then (8, True, drop 2 s)
         else if 3 \<le> length s \<and> lower (s ! 1) = CHR ''x'' then (16, True, drop 2 s)
         else (8, True, tl s))
      else (10, False, s))"

definition ParseInt0 :: "string \<Rightarrow> int option" where
  "ParseInt0 s =
     (let neg = HasPrefix s ''-'';
          t = (if neg \<or> HasPrefix s ''+'' then tl s else s);
          (b, seen, ds) = based_prefix t
      in case based_value b 0 ds of
           None \<Rightarrow> None
         | Some n \<Rightarrow>
             (let v = (if neg then - int n else int n)
              in if t \<noteq> [] \<and> underscores_ok seen ds \<and> in_int64 v then Some v else None))"

definition ParseBool :: "string \<Rightarrow> bool option" where
  "ParseBool s =
     (if s \<in> set [''1'', ''t'', ''T'', ''TRUE'', ''true'', ''True''] then Some True
      else if s \<in> set [''0'', ''f'', ''F'', ''FALSE'', ''false'', ''False''] then Some False else None)"

section \<open>Durations\<close>

text \<open>
  \<^verbatim>\<open>time.ParseDuration\<close>: a sign and one or more decimal numbers, each with a unit.  A fraction
  is scaled with float64 arithmetic and truncated, as the library does it.
\<close>

definition duration_unit :: "string \<Rightarrow> int option" where
  "duration_unit u =
     (if u = ''ns'' then Some 1
      else if u = ''us'' \<or> u = [CHR 0xC2, CHR 0xB5, CHR ''s''] \<or> u = [CHR 0xCE, CHR 0xBC, CHR ''s''] then Some 1000
      else if u = ''ms'' then Some 1000000
      else if u = ''s'' then Some second
      else if u = ''m'' then Some minute
      else if u = ''h'' then Some hour
      else None)"

text \<open>
  \<^verbatim>\<open>leadingInt\<close>: digits whose value is at most \<open>2 ^ 63\<close>; \<^verbatim>\<open>leadingFraction\<close>: digits after the
  point, those that would overflow are ignored.
\<close>

fun leading_fraction :: "string \<Rightarrow> int \<Rightarrow> int \<Rightarrow> bool \<Rightarrow> int \<times> int \<times> string" where
  "leading_fraction [] x scale over = (x, scale, [])"
| "leading_fraction (c # s) x scale over =
     (if \<not> is_digit c then (x, scale, c # s)
      else if over then leading_fraction s x scale True
      else if 922337203685477580 < x then leading_fraction s x scale True
      else
        let y = x * 10 + int (digit_value c)
        in if 9223372036854775808 < y then leading_fraction s x scale True
           else leading_fraction s y (scale * 10) False)"

definition go_float :: "rat \<Rightarrow> rat" where
  "go_float q = (case float64 q of Some r \<Rightarrow> r | None \<Rightarrow> 0)"

definition fraction_part :: "int \<Rightarrow> int \<Rightarrow> int \<Rightarrow> int" where
  "fraction_part f scale unit =
     trunc (go_float (go_float (of_int f) * go_float (of_int unit / go_float (of_int scale))))"

lemma leading_fraction_shorter: "leading_fraction s x sc ov = (f, sc', r) \<Longrightarrow> length r \<le> length s"
  by (induction s x sc ov rule: leading_fraction.induct) (auto simp: Let_def split: if_splits)

text \<open>One number with its unit: the nanoseconds and the rest.\<close>

definition duration_term :: "string \<Rightarrow> (int \<times> string) option" where
  "duration_term s =
     (let ds = takeWhile is_digit s; s1 = dropWhile is_digit s;
          v = int (digits_value ds);
          point = HasPrefix s1 ''.'';
          (f, scale, s2) = (if point then leading_fraction (tl s1) 0 1 False else (0, 1, s1));
          post = point \<and> length s2 \<noteq> length (tl s1);
          unit = takeWhile (\<lambda>c. c \<noteq> CHR ''.'' \<and> \<not> is_digit c) s2; s3 = drop (length unit) s2
      in if 9223372036854775808 < v \<or> (ds = [] \<and> \<not> post) \<or> unit = [] then None
         else (case duration_unit unit of
                 None \<Rightarrow> None
               | Some u \<Rightarrow>
                   if 9223372036854775808 div u < v then None
                   else
                     let d = v * u + (if 0 < f then fraction_part f scale u else 0)
                     in if 9223372036854775808 < d then None else Some (d, s3)))"

lemma duration_term_shorter: "duration_term s = Some (d, r) \<Longrightarrow> length r < length s"
proof -
  assume h: "duration_term s = Some (d, r)"
  obtain f sc s2 where lf: "(if HasPrefix (dropWhile is_digit s) ''.'' then leading_fraction (tl (dropWhile is_digit s)) 0 1 False
      else (0, 1, dropWhile is_digit s)) = (f, sc, s2)" by (metis surj_pair)
  let ?u = "takeWhile (\<lambda>c. c \<noteq> CHR ''.'' \<and> \<not> is_digit c) s2"
  have "r = drop (length ?u) s2 \<and> ?u \<noteq> []"
    using h lf by (auto simp: duration_term_def Let_def split: if_splits option.splits)
  moreover have "length s2 \<le> length s"
    using lf length_dropWhile_le [of is_digit s] by (auto dest!: leading_fraction_shorter split: if_splits)
  moreover have "length ?u \<le> length s2" by (rule length_takeWhile_le)
  ultimately show "length r < length s" by (cases ?u) (auto simp del: takeWhile_eq_Nil_iff)
qed

function duration_terms :: "string \<Rightarrow> int \<Rightarrow> int option" where
  "duration_terms s acc =
     (if s = [] then Some acc
      else case duration_term s of
        None \<Rightarrow> None
      | Some (d, r) \<Rightarrow> if 9223372036854775808 < acc + d then None else duration_terms r (acc + d))"
  by pat_completeness auto
termination
  by (relation "measure (length \<circ> fst)") (auto dest: duration_term_shorter)

declare duration_terms.simps [simp del]

definition ParseDuration :: "string \<Rightarrow> duration option" where
  "ParseDuration s =
     (let neg = HasPrefix s ''-'';
          t = (if neg \<or> HasPrefix s ''+'' then tl s else s)
      in if t = ''0'' then Some 0
         else if t = [] then None
         else (case duration_terms t 0 of
                 None \<Rightarrow> None
               | Some d \<Rightarrow> if neg then Some (- d) else if 9223372036854775807 < d then None else Some d))"

lemma duration_examples:
  "ParseDuration ''30s'' = Some (30 * second)" "ParseDuration ''1h'' = Some hour" "ParseDuration ''30'' = None"
  by (simp_all add: ParseDuration_def duration_terms.simps duration_term_def Let_def is_digit_def digits_value_def
      digit_value_def duration_unit_def)

end
