(* ===== verification/Http_Client.thy ===== *)
theory Http_Client imports Go_Number Paths begin

text \<open>
  What the operator's two programs (\<^verbatim>\<open>cmd/bridge-operator\<close>, \<^verbatim>\<open>cmd/bridge-mcp\<close>) share: query
  strings (\<^verbatim>\<open>net/url\<close>), the configuration file with its defaults, and an exchange with the
  broker.  The network is a parameter, a state transformer that answers a request; the
  lemmas show that a query built by a program is read back by \<^verbatim>\<open>r.URL.Query().Get\<close>.
\<close>

section \<open>Query strings\<close>

definition unreserved :: "char \<Rightarrow> bool" where
  "unreserved c \<longleftrightarrow>
     (let n = of_char c in byte_in 97 122 n \<or> byte_in 65 90 n \<or> byte_in 48 57 n) \<or> c \<in> set ''-_.~''"

definition upper_digits :: string where "upper_digits = ''0123456789ABCDEF''"

definition percent :: "char \<Rightarrow> string" where
  "percent c = [CHR ''%'', upper_digits ! ((of_char c :: nat) div 16), upper_digits ! ((of_char c :: nat) mod 16)]"

definition QueryEscape :: "string \<Rightarrow> string" where
  "QueryEscape s = concat (map (\<lambda>c. if unreserved c then [c] else if c = CHR '' '' then ''+'' else percent c) s)"

fun QueryUnescape :: "string \<Rightarrow> string option" where
  "QueryUnescape [] = Some []"
| "QueryUnescape (c # s) =
     (if c = CHR ''%'' then
        (case s of
           a # b # s' \<Rightarrow>
             if is_hex a \<and> is_hex b
             then map_option (Cons (char_of (16 * hex_digit_value a + hex_digit_value b))) (QueryUnescape s')
             else None
         | _ \<Rightarrow> None)
      else map_option (Cons (if c = CHR ''+'' then CHR '' '' else c)) (QueryUnescape s))"

text \<open>\<^verbatim>\<open>strings.Cut\<close> at a byte.\<close>

definition Cut :: "char \<Rightarrow> string \<Rightarrow> (string \<times> string) option" where
  "Cut d s = map_option (\<lambda>i. (take i s, drop (Suc i) s)) (IndexByte s d)"

text \<open>The pairs of \<^verbatim>\<open>url.ParseQuery\<close>, those in error left out, and \<^verbatim>\<open>Values.Get\<close>.\<close>

definition query_pair :: "string \<Rightarrow> (string \<times> string) option" where
  "query_pair s =
     (let (k, v) = (case Cut (CHR ''='') s of Some p \<Rightarrow> p | None \<Rightarrow> (s, []))
      in if s = [] \<or> CHR '';'' \<in> set s then None
         else Option.bind (QueryUnescape k) (\<lambda>k. map_option (Pair k) (QueryUnescape v)))"

definition parse_query :: "string \<Rightarrow> (string \<times> string) list" where
  "parse_query s = map the (filter (\<lambda>p. p \<noteq> None) (map query_pair (split_on (CHR ''&'') s)))"

definition query_get :: "string \<Rightarrow> string \<Rightarrow> string" where
  "query_get s k = (case map_of (parse_query s) k of Some v \<Rightarrow> v | None \<Rightarrow> [])"

lemma upper_digit_facts:
  "k < 16 \<Longrightarrow> is_hex (upper_digits ! k) \<and> hex_digit_value (upper_digits ! k) = k \<and> unreserved (upper_digits ! k)"
proof -
  assume "k < 16"
  moreover have "\<forall>k\<in>set [0..<16]. is_hex (upper_digits ! k) \<and> hex_digit_value (upper_digits ! k) = k \<and> unreserved (upper_digits ! k)"
    by code_simp
  ultimately show ?thesis by simp
qed

lemma nibbles: "(of_char c :: nat) div 16 < 16" "(of_char c :: nat) mod 16 < 16"
  by (simp_all add: less_mult_imp_div_less)

lemma unescape_percent: "QueryUnescape (percent c @ s) = map_option (Cons c) (QueryUnescape s)"
proof -
  have "16 * ((of_char c :: nat) div 16) + of_char c mod 16 = of_char c" by simp
  then have "char_of (16 * ((of_char c :: nat) div 16) + of_char c mod 16) = c" by simp
  then show ?thesis using upper_digit_facts nibbles [of c] by (simp add: percent_def)
qed

lemma unreserved_plain: "unreserved c \<Longrightarrow> c \<noteq> CHR ''%'' \<and> c \<noteq> CHR ''+'' \<and> c \<noteq> CHR ''&'' \<and> c \<noteq> CHR ''='' \<and> c \<noteq> CHR '';''"
  by (auto simp: unreserved_def byte_in_def Let_def)

lemma QueryUnescape_Escape: "QueryUnescape (QueryEscape s) = Some s"
proof (induction s)
  case (Cons c s)
  then show ?case
    using unescape_percent [of c "QueryEscape s"] unreserved_plain [of c] by (auto simp: QueryEscape_def)
qed (simp add: QueryEscape_def)

lemma QueryEscape_chars: "set (QueryEscape s) \<inter> set ''&=;'' = {}"
proof (induction s)
  case (Cons c s)
  have "set (percent c) \<inter> set ''&=;'' = {}"
    using upper_digit_facts nibbles [of c] unreserved_plain by (force simp: percent_def)
  then show ?case using Cons unreserved_plain [of c] by (auto simp: QueryEscape_def split: if_splits)
qed (simp add: QueryEscape_def)

text \<open>A program's query: the fields in order, the values escaped.\<close>

definition query_field :: "string \<times> string \<Rightarrow> string" where
  "query_field p = fst p @ ''='' @ QueryEscape (snd p)"

definition query_text :: "(string \<times> string) list \<Rightarrow> string" where
  "query_text ps = join_with ''&'' (map query_field ps)"

lemma query_pair_field:
  assumes "list_all unreserved k" and "k \<noteq> []"
  shows "query_pair (query_field (k, v)) = Some (k, v)"
proof -
  have k: "c \<in> set k \<Longrightarrow> unreserved c" for c using assms(1) by (simp add: list_all_iff)
  have "IndexByte (k @ CHR ''='' # s) (CHR ''='') = Some (length k)" for s
    using k unreserved_plain by (induction k) auto
  moreover have "QueryUnescape k = Some k"
    using k by (induction k) (auto dest: unreserved_plain)
  moreover have "CHR '';'' \<notin> set (query_field (k, v))"
    using QueryEscape_chars [of v] k unreserved_plain by (auto simp: query_field_def)
  ultimately show ?thesis
    using assms(2) by (simp add: query_pair_def query_field_def Cut_def QueryUnescape_Escape)
qed

lemma parse_query_text:
  assumes "\<forall>p\<in>set ps. list_all unreserved (fst p) \<and> fst p \<noteq> []" and "ps \<noteq> []"
  shows "parse_query (query_text ps) = ps"
proof -
  have "CHR ''&'' \<notin> set (query_field p)" if "p \<in> set ps" for p
    using that assms(1) QueryEscape_chars [of "snd p"] unreserved_plain by (force simp: query_field_def list_all_iff)
  then have "split_on (CHR ''&'') (query_text ps) = map query_field ps"
    unfolding query_text_def using assms(2) by (intro split_join) auto
  moreover have "map query_pair (map query_field ps) = map Some ps"
    using assms(1) query_pair_field by auto
  ultimately show ?thesis by (simp add: parse_query_def o_def map_idI)
qed

section \<open>Configuration\<close>

definition first :: "string list \<Rightarrow> string" where
  "first vs = (case find (\<lambda>v. v \<noteq> []) vs of Some v \<Rightarrow> v | None \<Rightarrow> [])"

text \<open>\<^verbatim>\<open>strings.Trim\<close> with a set of bytes.\<close>

definition Trim :: "string \<Rightarrow> string \<Rightarrow> string" where
  "Trim cs s = rev (dropWhile (\<lambda>c. c \<in> set cs) (rev (dropWhile (\<lambda>c. c \<in> set cs) s)))"

record operator_env =
  oe_getenv :: "string \<Rightarrow> string"
  oe_goos :: string
  oe_read :: "string \<Rightarrow> string option"

text \<open>\<^verbatim>\<open>os.UserConfigDir\<close>.\<close>

definition UserConfigDir :: "operator_env \<Rightarrow> string option" where
  "UserConfigDir env =
     (let get = oe_getenv env; home = get ''HOME''
      in if oe_goos env = ''windows'' then (if get ''AppData'' = [] then None else Some (get ''AppData''))
         else if oe_goos env = ''darwin'' then (if home = [] then None else Some (home @ ''/Library/Application Support''))
         else if get ''XDG_CONFIG_HOME'' = [] then (if home = [] then None else Some (home @ ''/.config''))
         else if \<not> rooted (get ''XDG_CONFIG_HOME'') then None
         else Some (get ''XDG_CONFIG_HOME''))"

fun config_lines :: "string list \<Rightarrow> (string \<rightharpoonup> string) \<Rightarrow> (string \<rightharpoonup> string)" where
  "config_lines [] values = values"
| "config_lines (line # ls) values =
     (let line = TrimSpace line
      in if line = [] \<or> HasPrefix line ''#'' then config_lines ls values
         else (case Cut (CHR ''='') line of
                 None \<Rightarrow> config_lines ls values
               | Some (key, v) \<Rightarrow> config_lines ls (values(TrimSpace key \<mapsto> Trim [quote, CHR 0x27] (TrimSpace v)))))"

definition config_path :: "operator_env \<Rightarrow> string option" where
  "config_path env =
     (let path = oe_getenv env ''BRIDGE_OPERATOR_ENV''
      in if path = [] then map_option (\<lambda>d. Clean (d @ ''/openclaw-portable-bridge/broker.env'')) (UserConfigDir env)
         else Some path)"

definition loadConfig :: "operator_env \<Rightarrow> (string \<rightharpoonup> string)" where
  "loadConfig env =
     (case Option.bind (config_path env) (oe_read env) of
        None \<Rightarrow> Map.empty
      | Some data \<Rightarrow> config_lines (split_on newline data) Map.empty)"

definition config_value :: "operator_env \<Rightarrow> string \<Rightarrow> string list" where
  "config_value env k =
     [oe_getenv env k, case loadConfig env k of Some v \<Rightarrow> v | None \<Rightarrow> []]"

text \<open>The broker's address and the administrator's token.\<close>

definition base_url :: "operator_env \<Rightarrow> string" where
  "base_url env = strip_slashes (first (config_value env ''BRIDGE_BROKER_URL'' @ [''http://127.0.0.1:17443'']))"

definition admin_token :: "operator_env \<Rightarrow> string" where
  "admin_token env = first (config_value env ''BRIDGE_ADMIN_TOKEN'')"

section \<open>Exchanges with the broker\<close>

text \<open>
  A request as it leaves the program; a body comes with the JSON content type.  \<open>Failed\<close> is
  any error of the request, of the transport or of reading the body.
\<close>

record http_request =
  hr_Method :: string
  hr_URL :: string
  hr_Authorization :: string
  hr_Body :: "string option"

datatype http_reply = Failed string | Answer nat string string

type_synonym 's network = "http_request \<Rightarrow> 's \<Rightarrow> http_reply \<times> 's"

text \<open>
  The common part of the two \<^verbatim>\<open>request\<close> methods: build the request, read at most 4 MiB of the
  answer, and turn a status outside 200 to 299 into an error.
\<close>

definition exchange :: "'s network \<Rightarrow> string \<Rightarrow> string \<Rightarrow> string \<Rightarrow> string \<Rightarrow> string option \<Rightarrow> 's \<Rightarrow> (string + string) \<times> 's" where
  "exchange net base token meth path payload s =
     (case net \<lparr>hr_Method = meth, hr_URL = base @ path, hr_Authorization = ''Bearer '' @ token, hr_Body = payload\<rparr> s of
        (Failed e, s) \<Rightarrow> (Inl e, s)
      | (Answer code status body, s) \<Rightarrow>
          (let data = take (4 * 1024 * 1024) body
           in if code div 100 \<noteq> 2 then (Inl (''broker returned '' @ status @ '': '' @ TrimSpace data), s)
              else (Inr data, s)))"

end
