(* ===== verification/Json_Raw.thy ===== *)
theory Json_Raw imports Json_Text begin

text \<open>
  Raw JSON values: the text of each member of an object, as \<^verbatim>\<open>json.RawMessage\<close> and the
  decoders of a type's own (\<^verbatim>\<open>time.Time\<close>) receive it, and decoding into a struct from these
  texts.  The main lemma: in a text written by \<^verbatim>\<open>json.Marshal\<close> the raw members are the texts
  of the members.
\<close>

section \<open>The text of a value\<close>

text \<open>
  The scan of an array or object in a valid text: \<open>d\<close> brackets are open, the flags say whether
  the byte is inside a string and whether a backslash precedes it.
\<close>

fun nest_text :: "nat \<Rightarrow> bool \<Rightarrow> bool \<Rightarrow> string \<Rightarrow> string \<times> string" where
  "nest_text d str esc [] = ([], [])"
| "nest_text d str esc (c # s) =
     (if str then apfst (Cons c) (nest_text d (esc \<or> c \<noteq> quote) (\<not> esc \<and> c = backslash) s)
      else if c = CHR '']'' \<or> c = CHR ''}'' then
        (if d \<le> 1 then ([c], s) else apfst (Cons c) (nest_text (d - 1) False False s))
      else apfst (Cons c) (nest_text (if c = CHR ''['' \<or> c = CHR ''{'' then Suc d else d) (c = quote) False s))"

definition scalar_end :: "char \<Rightarrow> bool" where
  "scalar_end c \<longleftrightarrow> json_space c \<or> c = CHR '','' \<or> c = CHR '']'' \<or> c = CHR ''}''"

text \<open>The text of the value at the start of a text, and the rest.\<close>

definition value_text :: "string \<Rightarrow> string \<times> string" where
  "value_text s =
     (if HasPrefix s ''['' \<or> HasPrefix s ''{'' then nest_text 0 False False s
      else if HasPrefix s [quote] then
        (case lex_str (tl s) of Some (b, r) \<Rightarrow> (quote # b @ [quote], r) | None \<Rightarrow> ([], []))
      else (takeWhile (\<lambda>c. \<not> scalar_end c) s, dropWhile (\<lambda>c. \<not> scalar_end c) s))"

definition skip_space :: "string \<Rightarrow> string" where
  "skip_space s = dropWhile json_space s"

lemma nest_text_shorter: "length (snd (nest_text d str esc s)) \<le> length s"
  by (induction d str esc s rule: nest_text.induct) (auto intro: le_SucI)

lemma skip_space_shorter: "length (skip_space s) \<le> length s"
  by (simp add: skip_space_def length_dropWhile_le)

lemma value_text_shorter: "length (snd (value_text s)) \<le> length s"
proof -
  have "length r \<le> length s" if "lex_str (tl s) = Some (b, r)" for b r
    using lex_str_shorter [OF that] by (cases s) auto
  then show ?thesis
    using nest_text_shorter length_dropWhile_le by (auto simp: value_text_def split: option.splits)
qed

text \<open>The members after an opening brace or a comma, with their raw texts.\<close>

function raw_fields :: "string \<Rightarrow> (string \<times> string) list" where
  "raw_fields s =
     (if HasPrefix (skip_space s) [quote] then
        (case lex_str (tl (skip_space s)) of
           None \<Rightarrow> []
         | Some (b, r) \<Rightarrow>
             (let (v, r') = value_text (skip_space (tl (skip_space r)))
              in (unquote b, v) # (if HasPrefix (skip_space r') '','' then raw_fields (tl (skip_space r')) else [])))
      else [])"
  by pat_completeness auto
termination
proof (relation "measure length", goal_cases)
  case (2 s p b r q v r')
  have 1: "length r < length (tl (skip_space s))" using 2(2,3) lex_str_shorter by force
  have "length r' \<le> length (skip_space (tl (skip_space r)))"
    using value_text_shorter 2(4,5) by (metis snd_conv)
  also have "\<dots> \<le> length (tl (skip_space r))" by (rule skip_space_shorter)
  also have "\<dots> \<le> length r" using skip_space_shorter [of r] by simp
  finally have 3: "length r' \<le> length r" .
  have "length (tl (skip_space r')) \<le> length r'" "length (tl (skip_space s)) \<le> length s"
    using skip_space_shorter [of r'] skip_space_shorter [of s] by simp_all
  then show ?case using 1 3 by simp
qed simp

declare raw_fields.simps [simp del]

definition raw_members :: "string \<Rightarrow> (string \<times> string) list" where
  "raw_members s = (if HasPrefix (skip_space s) ''{'' then raw_fields (tl (skip_space s)) else [])"

section \<open>The raw members of a written text\<close>

lemma lex_string_body:
  assumes "valid_utf8 x"
  obtains b where "json_string x = quote # b @ [quote]" "unquote b = x" "\<And>s. lex_str (b @ quote # s) = Some (b, s)"
proof -
  let ?b = "concat (map json_piece (runes x))"
  have r: "reads_as ?b x"
    using reads_as_pieces [of "runes x"] assms by (simp add: valid_utf8_iff runes_bytes)
  have "lex_str (quote # s) = Some ([], s)" for s by (cases s) auto
  then have "lex_str (?b @ quote # s) = Some (?b, s)" for s using r by (simp add: reads_as_def)
  moreover have "unquote ?b = x" using r unfolding reads_as_def by (metis append_Nil2 unquote_Nil)
  ultimately show ?thesis by (intro that [of ?b]) (simp_all add: json_string_def)
qed

lemma nest_text_string:
  "lex_str s = Some (b, r) \<Longrightarrow> nest_text d True False s = apfst (append (b @ [quote])) (nest_text d False False r)"
proof (induction s arbitrary: b r rule: lex_str.induct)
  case (2 c)
  then show ?case by (auto split: if_splits)
next
  case (3 c e s)
  consider (close) "c = quote" | (escape) "c = backslash" | (plain) "c \<noteq> quote" "c \<noteq> backslash" by blast
  then show ?case
  proof cases
    case close
    then show ?thesis using 3 by auto
  next
    case escape
    then obtain b' where b': "lex_str s = Some (b', r)" "b = c # e # b'"
      using 3(3) by (auto split: if_splits)
    then have "nest_text d True False s = apfst (append (b' @ [quote])) (nest_text d False False r)"
      using 3(1,3) escape by (auto split: if_splits)
    then show ?thesis using escape b'(2) by (simp add: apfst_pair)
  next
    case plain
    then obtain b' where b': "lex_str (e # s) = Some (b', r)" "b = c # b'"
      using 3(3) by (auto split: if_splits)
    then have "nest_text d True False (e # s) = apfst (append (b' @ [quote])) (nest_text d False False r)"
      using 3(2,3) plain by (auto split: if_splits)
    then show ?thesis using plain b'(2) by (simp add: apfst_pair)
  qed
qed simp

lemma nest_json_string:
  "valid_utf8 x \<Longrightarrow> nest_text d False False (json_string x @ t) = apfst (append (json_string x)) (nest_text d False False t)"
  by (rule lex_string_body [of x]) (simp_all add: nest_text_string [of "_ @ quote # t"] apfst_pair)

lemma nest_plain:
  "list_all (\<lambda>c. c \<notin> set ''[]{}'' \<and> c \<noteq> quote) s \<Longrightarrow>
   nest_text d False False (s @ t) = apfst (append s) (nest_text d False False t)"
  by (induction s) (auto simp: apfst_pair)

lemma Itoa_chars: "c \<in> set (Itoa i) \<Longrightarrow> is_digit c \<or> c = CHR ''-''"
  using nat_decimal_chars by (auto simp: Itoa_def split: if_splits)

lemma nest_number: "nest_text d False False (Itoa i @ t) = apfst (append (Itoa i)) (nest_text d False False t)"
  by (rule nest_plain) (use Itoa_chars in \<open>force simp: list_all_iff is_digit_def\<close>)

lemma nest_json_text:
  "json_ok v \<Longrightarrow> nest_text (Suc d) False False (json_text v @ t) = apfst (append (json_text v)) (nest_text (Suc d) False False t)"
  "items_ok xs \<Longrightarrow> nest_text (Suc d) False False (json_items xs @ t) = apfst (append (json_items xs)) (nest_text (Suc d) False False t)"
  "members_ok ms \<Longrightarrow> nest_text (Suc d) False False (json_members ms @ t) = apfst (append (json_members ms)) (nest_text (Suc d) False False t)"
proof (induction v and xs and ms arbitrary: d t and d t and d t rule: json_text_json_items_json_members.induct)
  case (3 n)
  then show ?case using nest_number by auto
qed (simp_all add: nest_json_string apfst_pair)

lemma value_end_scalar: "value_end t \<Longrightarrow> t = [] \<or> scalar_end (hd t)"
  by (cases t) (auto simp: value_end_def scalar_end_def json_space_def)

lemma scalar_text:
  assumes "list_all (\<lambda>c. \<not> scalar_end c) s" and "value_end t" and "s = c # s'" and "c \<notin> set ''[{''" and "c \<noteq> quote"
  shows "value_text (s @ t) = (s, t)"
proof -
  have "takeWhile (\<lambda>c. \<not> scalar_end c) (s @ t) = s" "dropWhile (\<lambda>c. \<not> scalar_end c) (s @ t) = t"
    using assms(1) value_end_scalar [OF assms(2)] by (cases t; simp add: takeWhile_append dropWhile_append list_all_iff)+
  then show ?thesis using assms(3-5) by (simp add: value_text_def)
qed

lemma value_text_json:
  assumes "json_ok v" and "value_end t"
  shows "value_text (json_text v @ t) = (json_text v, t)"
proof (cases v)
  case JNull
  show ?thesis unfolding JNull
    using scalar_text [of "''null''" t, OF _ assms(2)] by (simp add: scalar_end_def json_space_def)
next
  case (JBool b)
  show ?thesis unfolding JBool
    using scalar_text [of "''true''" t, OF _ assms(2)] scalar_text [of "''false''" t, OF _ assms(2)]
    by (cases b) (simp_all add: scalar_end_def json_space_def)
next
  case (JNumber n)
  then obtain i where i: "n = Itoa i" using assms(1) by auto
  obtain c cs where c: "Itoa i = c # cs" "is_digit c \<or> c = CHR ''-''" using Itoa_start by blast
  have "list_all (\<lambda>c. \<not> scalar_end c) (Itoa i)"
    using Itoa_chars by (force simp: list_all_iff scalar_end_def json_space_def is_digit_def)
  then show ?thesis unfolding JNumber i json_text.simps
    by (rule scalar_text [OF _ assms(2) c(1)]) (use c(2) in \<open>auto simp: is_digit_def\<close>)
next
  case (JString x)
  then have "valid_utf8 x" using assms(1) by simp
  then show ?thesis unfolding JString json_text.simps by (rule lex_string_body) (simp add: value_text_def)
next
  case (JArray xs)
  have "nest_text (Suc 0) False False (json_items xs @ CHR '']'' # t) = (json_items xs @ '']'', t)"
    using nest_json_text(2) [of xs 0 "CHR '']'' # t"] assms(1) JArray by simp
  then show ?thesis by (simp add: JArray value_text_def)
next
  case (JObject ms)
  have "nest_text (Suc 0) False False (json_members ms @ CHR ''}'' # t) = (json_members ms @ ''}'', t)"
    using nest_json_text(3) [of ms 0 "CHR ''}'' # t"] assms(1) JObject by simp
  then show ?thesis by (simp add: JObject value_text_def)
qed

lemma json_text_start: "json_ok v \<Longrightarrow> \<exists>c s. json_text v = c # s \<and> \<not> json_space c"
proof (cases v)
  case (JNumber n)
  moreover assume "json_ok v"
  ultimately obtain i where i: "n = Itoa i" by auto
  obtain c cs where "Itoa i = c # cs" "is_digit c \<or> c = CHR ''-''" using Itoa_start by blast
  then show ?thesis using JNumber i by (auto simp: json_space_def is_digit_def)
qed (auto simp: json_string_def json_space_def)

lemma skip_space_json: "json_ok v \<Longrightarrow> skip_space (json_text v @ t) = json_text v @ t"
  using json_text_start [of v] by (auto simp: skip_space_def)

lemma skip_space_at: "\<not> json_space c \<Longrightarrow> skip_space (c # s) = c # s"
  by (simp add: skip_space_def)

lemma spaces: "\<not> json_space quote" "\<not> json_space (CHR '':'')" "\<not> json_space (CHR '','')" "\<not> json_space (CHR ''}'')"
  "\<not> json_space (CHR ''{'')"
  by (simp_all add: json_space_def)

lemma raw_fields_step:
  assumes "valid_utf8 k" and "json_ok v" and "value_end t"
  shows "raw_fields (json_string k @ CHR '':'' # json_text v @ t) =
    (k, json_text v) # (if HasPrefix (skip_space t) '','' then raw_fields (tl (skip_space t)) else [])"
proof -
  obtain b where b: "json_string k = quote # b @ [quote]" "unquote b = k" "\<And>s. lex_str (b @ quote # s) = Some (b, s)"
    using lex_string_body [OF assms(1)] by metis
  show ?thesis
    using b value_text_json [OF assms(2,3)] skip_space_json [OF assms(2)]
    by (simp add: raw_fields.simps [of "quote # _"] skip_space_at spaces)
qed

lemma raw_fields_members:
  "members_ok ms \<Longrightarrow> ms \<noteq> [] \<Longrightarrow> raw_fields (json_members ms @ CHR ''}'' # t) = map (apsnd json_text) ms"
proof (induction ms rule: induct_list012)
  case (2 p)
  then show ?case using raw_fields_step [of "fst p" "snd p" "CHR ''}'' # t"]
    by (cases p) (simp add: skip_space_at spaces)
next
  case (3 p q ms)
  then show ?case
    using raw_fields_step [of "fst p" "snd p" "CHR '','' # json_members (q # ms) @ CHR ''}'' # t"]
    by (cases p) (simp add: skip_space_at spaces)
qed simp

lemma raw_members_text:
  assumes "members_ok ms"
  shows "raw_members (json_text (JObject ms)) = map (apsnd json_text) ms"
proof (cases "ms = []")
  case True
  then show ?thesis by (simp add: raw_members_def raw_fields.simps skip_space_def json_space_def)
next
  case False
  then show ?thesis
    using raw_fields_members [OF assms False, of "[]"] by (simp add: raw_members_def skip_space_def json_space_def)
qed

section \<open>Compaction leaves a written text as it is\<close>

definition separator :: "string \<Rightarrow> bool" where
  "separator s \<longleftrightarrow> take 3 s = [CHR 0xE2, CHR 0x80, CHR 0xA8] \<or> take 3 s = [CHR 0xE2, CHR 0x80, CHR 0xA9]"

lemma compact_plain:
  "\<not> html_char c \<Longrightarrow> \<not> separator (c # s) \<Longrightarrow>
   json_compact True esc (c # s) = c # json_compact (esc \<or> c \<noteq> quote) (\<not> esc \<and> c = backslash) s"
  by (simp add: separator_def json_compact.simps(2))

declare json_compact.simps(2) [simp del]

lemma separator_head: "separator (c # s) \<Longrightarrow> c = CHR 0xE2"
  by (auto simp: separator_def)

lemma compact_ascii:
  "\<not> html_char c \<Longrightarrow> (of_char c :: nat) < 0x80 \<Longrightarrow>
   json_compact True esc (c # s) = c # json_compact (esc \<or> c \<noteq> quote) (\<not> esc \<and> c = backslash) s"
  by (rule compact_plain) (auto dest: separator_head)

lemma decode_separators:
  "decode_rune (CHR 0xE2 # CHR 0x80 # CHR 0xA8 # s) = (0x2028, 3)"
  "decode_rune (CHR 0xE2 # CHR 0x80 # CHR 0xA9 # s) = (0x2029, 3)"
  by (simp_all add: decode_rune_def decode_width_def rune_width_def peek_def byte_in_def second_lo_def second_hi_def Let_def)

lemma good_piece_separator:
  assumes "good_piece p" and "separator (snd p @ s)"
  shows "fst p = 0x2028 \<or> fst p = 0x2029"
proof -
  have ne: "snd p @ s \<noteq> []" using assms(1) by (simp add: good_piece_def)
  have "runes (snd p @ s) = p # runes s" by (rule runes_good_append [OF assms(1)])
  moreover have "hd (runes (snd p @ s)) = (fst (decode_rune (snd p @ s)), take (snd (decode_rune (snd p @ s))) (snd p @ s))"
    using ne by (subst runes.simps) (auto simp: Let_def)
  ultimately have p: "fst p = fst (decode_rune (snd p @ s))" by (metis fst_conv list.sel(1))
  have "take 3 (snd p @ s) @ drop 3 (snd p @ s) = snd p @ s" by (rule append_take_drop_id)
  then obtain u where "snd p @ s = CHR 0xE2 # CHR 0x80 # CHR 0xA8 # u \<or> snd p @ s = CHR 0xE2 # CHR 0x80 # CHR 0xA9 # u"
    using assms(2) unfolding separator_def by (metis append_Cons append_Nil)
  then show ?thesis using p decode_separators by auto
qed

lemma good_piece_tail:
  assumes "good_piece p" and "c \<in> set (tl (snd p))"
  shows "0x80 \<le> (of_char c :: nat) \<and> (of_char c :: nat) < 0xC0"
proof -
  have "snd p = encode_rune (fst p)" by (rule good_piece_encode [OF assms(1), symmetric])
  moreover have "x mod 64 + 128 < 256" for x :: nat using mod_less_divisor [of 64 x] by linarith
  ultimately show ?thesis
    using assms(2) by (auto simp: encode_rune_def Let_def split: if_splits)
qed

lemma compact_tail:
  "\<forall>c\<in>set s. 0x80 \<le> (of_char c :: nat) \<and> (of_char c :: nat) < 0xC0 \<Longrightarrow>
   json_compact True False (s @ t) = s @ json_compact True False t"
proof (induction s)
  case (Cons c s)
  then have "\<not> html_char c" "\<not> separator (c # s @ t)" "c \<noteq> quote" "c \<noteq> backslash"
    by (auto simp: html_char_def dest!: separator_head)
  then show ?case using Cons compact_plain [of c "s @ t" False] by simp
qed simp

lemma compact_escape:
  "\<not> html_char e \<Longrightarrow> (of_char e :: nat) < 0x80 \<Longrightarrow>
   json_compact True False (backslash # e # s) = backslash # e # json_compact True False s"
  by (simp add: compact_ascii html_char_def)

lemma hex_byte_ascii:
  "(of_char c :: nat) < 0x80 \<Longrightarrow> \<exists>a b. hex_byte c = [a, b] \<and> is_hex a \<and> is_hex b"
  by (auto simp: hex_byte_def hex_digit_facts less_mult_imp_div_less)

lemma is_hex_ascii: "is_hex c \<Longrightarrow> \<not> html_char c \<and> (of_char c :: nat) < 0x80 \<and> c \<noteq> quote \<and> c \<noteq> backslash"
  by (auto simp: is_hex_def html_char_def byte_in_def Let_def)

lemma compact_piece:
  assumes "good_piece p"
  shows "json_compact True False (json_piece p @ s) = json_piece p @ json_compact True False s"
proof (cases "length (snd p) = 1 \<and> fst p < 0x80")
  case True
  then obtain c where c: "snd p = [c]" by (auto simp: length_Suc_conv)
  have small: "(of_char c :: nat) < 0x80"
  proof -
    have "fst p = fst (decode_rune [c])" "decode_width [c] = 1" using assms c by (simp_all add: good_piece_def)
    then show ?thesis using rune_width_bytes(1) by (simp add: decode_width_def peek_def)
  qed
  obtain a b where ab: "hex_byte c = [a, b]" "is_hex a" "is_hex b" using hex_byte_ascii [OF small] by blast
  have hex: "json_compact True False (hex_escape c @ s) = hex_escape c @ json_compact True False s"
    using is_hex_ascii [OF ab(2)] is_hex_ascii [OF ab(3)]
    by (simp add: hex_escape_def ab(1) compact_ascii html_char_def)
  have "json_compact True False (json_byte c @ s) = json_byte c @ json_compact True False s"
    using hex small by (auto simp: json_byte_def compact_escape compact_ascii html_char_def)
  then show ?thesis using True c by (simp add: json_piece_def)
next
  case False
  consider (sep) "fst p = 0x2028 \<or> fst p = 0x2029" | (raw) "fst p \<noteq> 0x2028" "fst p \<noteq> 0x2029" by blast
  then show ?thesis
  proof cases
    case sep
    then show ?thesis
      using False good_not_invalid [OF assms]
      by (auto simp: json_piece_def compact_ascii html_char_def)
  next
    case raw
    then have piece: "json_piece p = snd p" using False good_not_invalid [OF assms] by (auto simp: json_piece_def)
    obtain c cs where c: "snd p = c # cs" using assms by (cases "snd p") (auto simp: good_piece_def)
    have "\<not> separator (c # cs @ s)" using good_piece_separator [OF assms, of s] raw c by auto
    moreover have "0x80 \<le> (of_char c :: nat)"
    proof (cases "length (snd p) = 1")
      case True
      then have "decode_width [c] = 1" "fst p = fst (decode_rune [c])" using assms c by (auto simp: good_piece_def)
      then have "(of_char c :: nat) < 0x80" "fst p = of_char c"
        using rune_width_bytes(1) decode_rune_ascii [of c "[]"] by (auto simp: decode_width_def peek_def)
      then show ?thesis using False True by simp
    next
      case False
      then show ?thesis using good_piece_bytes [OF assms] c by simp
    qed
    then have "\<not> html_char c" "c \<noteq> quote" "c \<noteq> backslash" by (auto simp: html_char_def)
    moreover have "\<forall>x\<in>set cs. 0x80 \<le> (of_char x :: nat) \<and> (of_char x :: nat) < 0xC0"
      using good_piece_tail [OF assms] c by auto
    ultimately show ?thesis
      unfolding piece c using compact_plain [of c "cs @ s" False] compact_tail [of cs s] by simp
  qed
qed

lemma compact_json_string:
  assumes "valid_utf8 x"
  shows "json_compact False False (json_string x @ s) = json_string x @ json_compact False False s"
proof -
  have "json_compact True False (concat (map json_piece ps) @ t) = concat (map json_piece ps) @ json_compact True False t"
    if "list_all good_piece ps" for ps t
    using that by (induction ps) (simp_all add: compact_piece)
  then have "json_compact True False (concat (map json_piece (runes x)) @ quote # s)
      = concat (map json_piece (runes x)) @ json_compact True False (quote # s)"
    using assms by (simp add: valid_utf8_iff)
  then show ?thesis by (simp add: json_string_def json_space_def html_char_def json_compact.simps(2))
qed

lemma compact_outside:
  "list_all (\<lambda>c. \<not> json_space c \<and> \<not> html_char c \<and> c \<noteq> CHR 0xE2 \<and> c \<noteq> quote) s \<Longrightarrow>
   json_compact False False (s @ t) = s @ json_compact False False t"
  by (induction s) (auto simp: json_compact.simps(2))

lemma compact_number: "json_compact False False (Itoa i @ t) = Itoa i @ json_compact False False t"
  by (rule compact_outside)
     (use Itoa_chars in \<open>force simp: list_all_iff is_digit_def json_space_def html_char_def\<close>)

lemma compact_text:
  "json_ok v \<Longrightarrow> json_compact False False (json_text v @ t) = json_text v @ json_compact False False t"
  "items_ok xs \<Longrightarrow> json_compact False False (json_items xs @ t) = json_items xs @ json_compact False False t"
  "members_ok ms \<Longrightarrow> json_compact False False (json_members ms @ t) = json_members ms @ json_compact False False t"
proof (induction v and xs and ms arbitrary: t and t and t rule: json_text_json_items_json_members.induct)
  case (3 n)
  then show ?case using compact_number by auto
qed (simp_all add: compact_json_string json_space_def html_char_def json_compact.simps(2))

lemma Compact_json_text: "json_ok v \<Longrightarrow> Compact (json_text v) = json_text v"
  using compact_text(1) [of v "[]"] by (simp add: Compact_def)

section \<open>Decoding into a struct\<close>

text \<open>
  A field is set from the text of its member: through its value, as the text itself, or by
  the type's own decoder.  \<^verbatim>\<open>Decode\<close> reads the first value of a stream; \<open>strict\<close> disallows
  unknown names, in nested structs too.
\<close>

type_synonym 'r setter = "string \<Rightarrow> 'r \<Rightarrow> 'r option"

definition find_named :: "(string \<times> 'a) list \<Rightarrow> string \<Rightarrow> 'a option" where
  "find_named fs k =
     (case map_of fs k of
        Some f \<Rightarrow> Some f
      | None \<Rightarrow> map_option snd (find (\<lambda>(n, f). fold_name n = fold_name k) fs))"

fun set_texts :: "bool \<Rightarrow> (string \<times> 'r setter) list \<Rightarrow> (string \<times> string) list \<Rightarrow> 'r \<Rightarrow> 'r option" where
  "set_texts strict fs [] r = Some r"
| "set_texts strict fs ((k, s) # ms) r =
     (case find_named fs k of
        None \<Rightarrow> if strict then None else set_texts strict fs ms r
      | Some f \<Rightarrow> (case f s r of None \<Rightarrow> None | Some r \<Rightarrow> set_texts strict fs ms r))"

definition set_object :: "bool \<Rightarrow> (string \<times> 'r setter) list \<Rightarrow> 'r setter" where
  "set_object strict fs s r =
     (case parse_json s of
        Some (JObject ms) \<Rightarrow> set_texts strict fs (raw_members s) r
      | Some JNull \<Rightarrow> Some r
      | _ \<Rightarrow> None)"

definition by_value :: "(json \<Rightarrow> 'r \<Rightarrow> 'r option) \<Rightarrow> 'r setter" where
  "by_value f s r = Option.bind (parse_json s) (\<lambda>v. f v r)"

definition by_text :: "(string \<Rightarrow> 'r \<Rightarrow> 'r) \<Rightarrow> 'r setter" where
  "by_text f s r = Some (f s r)"

definition decode_stream :: "bool \<Rightarrow> (string \<times> 'r setter) list \<Rightarrow> 'r \<Rightarrow> string \<Rightarrow> 'r option" where
  "decode_stream strict fs r s =
     (if first_json s = None then None else set_object strict fs (fst (value_text (skip_space s))) r)"

lemma find_named_exact: "map_of fs k = Some f \<Longrightarrow> find_named fs k = Some f"
  by (simp add: find_named_def)

lemma by_value_text: "json_ok v \<Longrightarrow> json_depth v \<le> 10000 \<Longrightarrow> by_value f (json_text v) r = f v r"
  by (simp add: by_value_def parse_text)

lemma set_object_text:
  assumes "members_ok ms" and "json_depth (JObject ms) \<le> 10000"
  shows "set_object strict fs (json_text (JObject ms)) r = set_texts strict fs (map (apsnd json_text) ms) r"
  using parse_text [of "JObject ms"] raw_members_text [OF assms(1)] assms
  by (simp add: set_object_def del: json_text.simps json_depth.simps)

lemma first_json_text:
  assumes "json_ok v" and "json_depth v \<le> 10000" and "value_end t"
  shows "first_json (json_text v @ t) = Some v"
  using lex_text(1) [OF assms(1,3)] read_json_tokens [OF assms(2), of "lex t"] by (simp add: first_json_def)

lemma decode_stream_text:
  assumes "members_ok ms" and "json_depth (JObject ms) \<le> 10000" and "value_end t"
  shows "decode_stream strict fs r (json_text (JObject ms) @ t) = set_texts strict fs (map (apsnd json_text) ms) r"
proof -
  have ok: "json_ok (JObject ms)" using assms(1) by simp
  show ?thesis
    using first_json_text [OF ok assms(2,3)] value_text_json [OF ok assms(3)] skip_space_json [OF ok, of t]
      set_object_text [OF assms(1,2)]
    by (simp add: decode_stream_def del: json_text.simps json_depth.simps json_ok.simps)
qed

end
