(* ===== verification/Time_Text.thy ===== *)
theory Time_Text imports Go_Time begin

text \<open>
  \<^verbatim>\<open>time.Time\<close> read from JSON: the strict form of RFC 3339, and that a time written by
  \<^verbatim>\<open>MarshalJSON\<close> is read back.  The fallback of the library to one-digit hours and a decimal
  comma, which no program here writes, is not modelled.
\<close>

section \<open>Dates as days\<close>

definition days_before_year :: "int \<Rightarrow> int" where
  "days_before_year y = (let p = y - 1 in 365 * p + p div 4 - p div 100 + p div 400)"

definition leap_year :: "int \<Rightarrow> bool" where
  "leap_year y \<longleftrightarrow> y mod 4 = 0 \<and> (y mod 100 \<noteq> 0 \<or> y mod 400 = 0)"

definition lengths_of :: "int \<Rightarrow> nat list" where
  "lengths_of y = [31, if leap_year y then 29 else 28, 31, 30, 31, 30, 31, 31, 30, 31, 30, 31]"

definition date_days :: "int \<Rightarrow> nat \<Rightarrow> nat \<Rightarrow> int" where
  "date_days y m d = days_before_year y + int (sum_list (take (m - 1) (lengths_of y))) + int d - 1"

lemma lengths_of_nat: "lengths_of (int y) = month_lengths y"
proof -
  have "leap_year (int y) = leap y"
    unfolding leap_year_def leap_def by presburger
  then show ?thesis by (simp add: lengths_of_def month_lengths_def)
qed

lemma days_before_cycles:
  assumes "b \<le> 3" "c \<le> 24" "e \<le> 3"
  shows "days_before_year (int (400 * a + 100 * b + 4 * c + e + 1)) = int (146097 * a + 36524 * b + 1461 * c + 365 * e)"
proof -
  define p where "p = int (400 * a + 100 * b + 4 * c + e)"
  have p: "int (400 * a + 100 * b + 4 * c + e + 1) - 1 = p" by (simp add: p_def)
  have "p div 4 = int (100 * a + 25 * b + c)" "p div 100 = int (4 * a + b)" "p div 400 = int a"
    using assms unfolding p_def by (auto simp flip: zdiv_int)
  then show ?thesis by (simp add: days_before_year_def p Let_def) (simp add: p_def)
qed

lemma mod_top: "0 < n \<Longrightarrow> n \<le> m \<Longrightarrow> n mod m = 0 \<longleftrightarrow> n = (m::nat)"
  by (cases "n = m") auto

lemma leap_cycles:
  assumes "b \<le> 3" "c \<le> 24" "e \<le> 3"
  shows "leap (400 * a + 100 * b + 4 * c + e + 1) \<longleftrightarrow> e = 3 \<and> (c < 24 \<or> b = 3)"
proof -
  let ?y = "400 * a + 100 * b + 4 * c + e + 1"
  have "?y = (e + 1) + 4 * (100 * a + 25 * b + c)" by simp
  then have "?y mod 4 = 0 \<longleftrightarrow> e + 1 = 4" using mod_top [of "e + 1" 4] assms by (simp only: mod_mult_self2)
  moreover have "?y = (4 * c + e + 1) + 100 * (4 * a + b)" by simp
  then have "?y mod 100 = 0 \<longleftrightarrow> 4 * c + e + 1 = 100"
    using mod_top [of "4 * c + e + 1" 100] assms by (simp only: mod_mult_self2)
  moreover have "?y = (100 * b + 4 * c + e + 1) + 400 * a" by simp
  then have "?y mod 400 = 0 \<longleftrightarrow> 100 * b + 4 * c + e + 1 = 400"
    using mod_top [of "100 * b + 4 * c + e + 1" 400] assms by (simp only: mod_mult_self2)
  ultimately show ?thesis unfolding leap_def using assms by auto
qed

lemma capped_quotient:
  assumes "b = min (d div n) k" and "0 < n" and "d \<le> k * n + n"
  shows "b \<le> k" "b * n \<le> d" "d - b * n \<le> n" "b < k \<Longrightarrow> d - b * n < (n::nat)"
proof -
  show "b \<le> k" using assms(1) by simp
  have "b \<le> d div n" using assms(1) by simp
  then have "b * n \<le> d div n * n" by (rule mult_right_mono) simp
  also have "\<dots> \<le> d" by (rule div_times_less_eq_dividend)
  finally show "b * n \<le> d" .
  show less: "d - b * n < n" if "b < k"
  proof -
    have "b = d div n" using assms(1) that by (simp add: min_def split: if_splits)
    then show ?thesis using assms(2) by (simp add: minus_div_mult_eq_mod)
  qed
  show "d - b * n \<le> n"
    using less assms(3) \<open>b \<le> k\<close> by (cases "b = k") auto
qed

lemma year_day_days:
  assumes "year_day days = (y, yd)"
  shows "days_before_year (int y) + int yd = int days" "yd < (if leap y then 366 else 365)"
    "days < 3652059 \<Longrightarrow> y \<le> 9999"
proof -
  define a where "a = days div 146097"
  define d1 where "d1 = days mod 146097"
  define b where "b = min (d1 div 36524) 3"
  define d2 where "d2 = d1 - b * 36524"
  define c where "c = d2 div 1461"
  define d3 where "d3 = d2 mod 1461"
  define e where "e = min (d3 div 365) 3"
  have "year_day days = (400 * a + 100 * b + 4 * c + e + 1, d3 - e * 365)"
    unfolding year_day_def Let_def a_def d1_def b_def d2_def c_def d3_def e_def by (rule refl)
  then have y: "y = 400 * a + 100 * b + 4 * c + e + 1" and yd: "yd = d3 - e * 365" using assms by simp_all
  have d1: "d1 < 146097" by (simp add: d1_def)
  have b: "b \<le> 3" "b * 36524 \<le> d1" "d2 \<le> 36524" "b < 3 \<Longrightarrow> d2 < 36524"
    using capped_quotient [of b d1 36524 3] d1 by (simp_all add: b_def d2_def)
  have "d2 < 36525" using b(3) by simp
  then have "d2 div 1461 < 25" by (intro less_mult_imp_div_less) simp
  then have c: "c \<le> 24" "c * 1461 \<le> d2" "d3 < 1461" "c = 24 \<Longrightarrow> b < 3 \<Longrightarrow> d3 < 1460"
    using b(4) by (simp_all add: c_def d3_def minus_div_mult_eq_mod [symmetric])
  have e: "e \<le> 3" "e * 365 \<le> d3" "yd \<le> 365" "e < 3 \<Longrightarrow> yd < 365"
    using capped_quotient [of e d3 365 3] c(3) by (simp_all add: e_def yd)
  have last: "yd < 365" if "c = 24" "b < 3"
    using c(4) [OF that] e unfolding yd by (cases "e = 3") auto
  have days: "days = 146097 * a + 36524 * b + 1461 * c + 365 * e + yd"
  proof -
    have "days = 146097 * a + d1" "d2 = 1461 * c + d3" by (simp_all add: a_def d1_def c_def d3_def)
    moreover have "d1 = b * 36524 + d2" "d3 = e * 365 + yd" using b(2) e(2) by (simp_all add: d2_def yd)
    ultimately show ?thesis by simp
  qed
  show "days_before_year (int y) + int yd = int days"
    unfolding y using days_before_cycles [OF b(1) c(1) e(1), of a] days by simp
  show "yd < (if leap y then 366 else 365)"
    unfolding y leap_cycles [OF b(1) c(1) e(1)] using e last c(1) b(1) by (cases "e = 3"; cases "c = 24"; cases "b = 3") auto
  show "y \<le> 9999" if "days < 3652059"
  proof (rule ccontr)
    assume "\<not> y \<le> 9999"
    then have "25 \<le> a \<or> a = 24 \<and> b = 3 \<and> c = 24 \<and> e = 3"
      using b(1) c(1) e(1) unfolding y by linarith
    then have "3652059 \<le> 146097 * a + 36524 * b + 1461 * c + 365 * e" by auto
    then show False using days that by simp
  qed
qed

lemma month_day_date:
  assumes "month_day m ns d = (m', d')" and "d < sum_list ns"
  shows "m \<le> m'" "m' < m + length ns" "sum_list (take (m' - m) ns) + d' = d + 1" "1 \<le> d'" "d' \<le> ns ! (m' - m)"
  using assms
proof (induction m ns d arbitrary: m' d' rule: month_day.induct)
  case (2 m n ns d)
  {
    case 1
    then show ?case using 2 by (cases "d < n") fastforce+
  next
    case 2
    then show ?case using "2.IH"(2) by (cases "d < n") fastforce+
  next
    case 3
    then show ?case using "2.IH"(1,3) by (cases "d < n") (fastforce simp: take_Cons')+
  next
    case 4
    then show ?case using "2.IH"(4) by (cases "d < n") fastforce+
  next
    case 5
    then show ?case using "2.IH"(1,5) by (cases "d < n") (fastforce simp: nth_Cons')+
  }
qed auto

lemma month_lengths_sum: "sum_list (month_lengths y) = (if leap y then 366 else 365)" "length (month_lengths y) = 12"
  by (simp_all add: month_lengths_def)

lemma civil_date:
  assumes "civil days = (y, m, d)"
  shows "date_days (int y) m d = int days" "1 \<le> m" "m \<le> 12" "1 \<le> d" "d \<le> lengths_of (int y) ! (m - 1)"
    "days < 3652059 \<Longrightarrow> y \<le> 9999"
proof -
  obtain yd where yd: "year_day days = (y, yd)" and md: "month_day 1 (month_lengths y) yd = (m, d)"
    using assms by (auto simp: civil_def split: prod.splits)
  note days = year_day_days [OF yd]
  note month = month_day_date [OF md, unfolded month_lengths_sum, OF days(2)]
  show "date_days (int y) m d = int days"
    using days(1) month(1,3) by (simp add: date_days_def lengths_of_nat)
  show "1 \<le> m" "m \<le> 12" "1 \<le> d" "d \<le> lengths_of (int y) ! (m - 1)"
    using month by (simp_all add: lengths_of_nat)
  show "days < 3652059 \<Longrightarrow> y \<le> 9999" by (rule days(3))
qed

section \<open>Reading a time\<close>

definition uint_text :: "string \<Rightarrow> nat \<Rightarrow> nat \<Rightarrow> nat option" where
  "uint_text s lo hi =
     (if list_all is_digit s \<and> lo \<le> digits_value s \<and> digits_value s \<le> hi then Some (digits_value s) else None)"

definition slice :: "nat \<Rightarrow> nat \<Rightarrow> string \<Rightarrow> string" where
  "slice i n s = take n (drop i s)"

text \<open>The fraction after the point, in nanoseconds: nine digits, later ones are dropped.\<close>

definition nanos_of :: "string \<Rightarrow> nat" where
  "nanos_of ds = digits_value (take 9 (ds @ replicate 9 (CHR ''0'')))"

definition parse_fraction :: "string \<Rightarrow> nat \<times> string" where
  "parse_fraction s =
     (if HasPrefix s ''.'' \<and> takeWhile is_digit (tl s) \<noteq> []
      then (nanos_of (takeWhile is_digit (tl s)), dropWhile is_digit (tl s)) else (0, s))"

definition parse_zone :: "string \<Rightarrow> int option" where
  "parse_zone s =
     (if s = ''Z'' then Some 0
      else if length s = 6 \<and> (hd s = CHR ''-'' \<or> hd s = CHR ''+'') \<and> s ! 3 = CHR '':'' then
        (case (uint_text (slice 1 2 s) 0 23, uint_text (slice 4 2 s) 0 59) of
           (Some h, Some m) \<Rightarrow> Some ((if hd s = CHR ''-'' then - 1 else 1) * (int h * 60 + int m) * 60)
         | _ \<Rightarrow> None)
      else None)"

definition ParseTime :: "string \<Rightarrow> time option" where
  "ParseTime s =
     (if length s < 19 then None
      else case (uint_text (slice 0 4 s) 0 9999, uint_text (slice 5 2 s) 1 12) of
        (Some y, Some mo) \<Rightarrow>
          (case (uint_text (slice 8 2 s) 1 (lengths_of (int y) ! (mo - 1)), uint_text (slice 11 2 s) 0 23,
                 uint_text (slice 14 2 s) 0 59, uint_text (slice 17 2 s) 0 59) of
             (Some d, Some h, Some mi, Some sec) \<Rightarrow>
               if s ! 4 = CHR ''-'' \<and> s ! 7 = CHR ''-'' \<and> s ! 10 = CHR ''T'' \<and> s ! 13 = CHR '':'' \<and> s ! 16 = CHR '':'' then
                 (let (ns, r) = parse_fraction (drop 19 s)
                  in map_option
                       (\<lambda>z. (date_days (int y) mo d * 86400 + int (h * 3600 + mi * 60 + sec) - z) * second + int ns)
                       (parse_zone r))
               else None
           | _ \<Rightarrow> None)
      | _ \<Rightarrow> None)"

section \<open>A time is read back from its text\<close>

lemma length_nat_decimal: "n < 10 ^ w \<Longrightarrow> 0 < w \<Longrightarrow> length (nat_decimal n) \<le> w"
proof (induction w arbitrary: n)
  case (Suc w)
  show ?case
  proof (cases "n < 10")
    case True
    then show ?thesis by (simp add: nat_decimal.simps [of n])
  next
    case False
    then have "0 < w" using Suc.prems(1) by (cases w) auto
    moreover have "n div 10 < 10 ^ w" using Suc.prems(1) by (simp add: less_mult_imp_div_less mult.commute)
    ultimately have "length (nat_decimal (n div 10)) \<le> w" using Suc.IH by simp
    then show ?thesis using False by (simp add: nat_decimal.simps [of n])
  qed
qed simp

lemma digits_value_zeros: "digits_value (replicate k (CHR ''0'') @ s) = digits_value s"
  by (induction k) (simp_all add: digits_value_def digit_value_def)

lemma padded_facts:
  assumes "n < 10 ^ w" and "0 < w"
  shows "length (padded w n) = w" "list_all is_digit (padded w n)" "digits_value (padded w n) = n"
proof -
  show "length (padded w n) = w" using length_nat_decimal [OF assms] by (simp add: padded_def)
  show "list_all is_digit (padded w n)"
    using nat_decimal_digits [of n] by (auto simp: padded_def list_all_iff is_digit_def)
  show "digits_value (padded w n) = n" by (simp add: padded_def digits_value_zeros)
qed

lemma uint_padded: "n < 10 ^ w \<Longrightarrow> 0 < w \<Longrightarrow> lo \<le> n \<Longrightarrow> n \<le> hi \<Longrightarrow> uint_text (padded w n) lo hi = Some n"
  by (simp add: uint_text_def padded_facts)

lemma fraction_read:
  assumes "ns < 1000000000"
  shows "parse_fraction (fraction ns @ ''Z'') = (ns, ''Z'')"
proof (cases "ns = 0")
  case True
  then show ?thesis by (simp add: fraction_def parse_fraction_def)
next
  case False
  define q where "q = padded 9 ns"
  define ds where "ds = rev (dropWhile (\<lambda>c. c = CHR ''0'') (rev q))"
  have q: "length q = 9" "list_all is_digit q" "digits_value q = ns"
    using padded_facts [of ns 9] assms by (simp_all add: q_def)
  obtain k where k: "q = ds @ replicate k (CHR ''0'')"
  proof -
    have "takeWhile (\<lambda>c. c = CHR ''0'') (rev q) = replicate (length (takeWhile (\<lambda>c. c = CHR ''0'') (rev q))) (CHR ''0'')"
      by (rule replicate_eqI [symmetric, THEN sym]) (auto dest: set_takeWhileD)
    then have "rev q = replicate (length (takeWhile (\<lambda>c. c = CHR ''0'') (rev q))) (CHR ''0'') @ rev ds"
      unfolding ds_def by (metis rev_rev_ident takeWhile_dropWhile_id)
    then show ?thesis using that by (metis rev_append rev_replicate rev_rev_ident)
  qed
  have digits: "list_all is_digit ds" using q(2) k by simp
  have "ds \<noteq> []"
  proof
    assume "ds = []"
    then have "digits_value q = 0" using k digits_value_zeros [of k "[]"] by (simp add: digits_value_def)
    then show False using q(3) False by simp
  qed
  moreover have "take 9 (ds @ replicate 9 (CHR ''0'')) = q"
    using k q(1) by (simp add: min_def)
  moreover have "takeWhile is_digit (ds @ ''Z'') = ds" "dropWhile is_digit (ds @ ''Z'') = ''Z''"
    using digits by (simp_all add: takeWhile_append dropWhile_append list_all_iff is_digit_def)
  ultimately show ?thesis
    using False q(3) by (simp add: fraction_def parse_fraction_def nanos_of_def q_def [symmetric] ds_def [symmetric])
qed

text \<open>Times from year 1 to year 9999.\<close>

definition year_ok :: "time \<Rightarrow> bool" where
  "year_ok t \<longleftrightarrow> 0 \<le> t \<and> t < 3652059 * 86400 * second"

lemma list4: "length s = 4 \<Longrightarrow> \<exists>a b c d. s = [a, b, c, d]"
  by (auto simp: numeral_eq_Suc length_Suc_conv)

lemma list2: "length s = 2 \<Longrightarrow> \<exists>a b. s = [a, b]"
  by (auto simp: numeral_eq_Suc length_Suc_conv)

lemma date_slices:
  assumes "length Y = 4" "length M = 2" "length D = 2" "length H = 2" "length I = 2" "length S = 2"
  shows "let s = Y @ ''-'' @ M @ ''-'' @ D @ ''T'' @ H @ '':'' @ I @ '':'' @ S @ r in
    slice 0 4 s = Y \<and> slice 5 2 s = M \<and> slice 8 2 s = D \<and> slice 11 2 s = H \<and> slice 14 2 s = I \<and> slice 17 2 s = S
    \<and> s ! 4 = CHR ''-'' \<and> s ! 7 = CHR ''-'' \<and> s ! 10 = CHR ''T'' \<and> s ! 13 = CHR '':'' \<and> s ! 16 = CHR '':''
    \<and> drop 19 s = r \<and> 19 \<le> length s"
proof -
  obtain y1 y2 y3 y4 where Y: "Y = [y1, y2, y3, y4]" using list4 [OF assms(1)] by blast
  obtain m1 m2 where M: "M = [m1, m2]" using list2 [OF assms(2)] by blast
  obtain d1 d2 where D: "D = [d1, d2]" using list2 [OF assms(3)] by blast
  obtain h1 h2 where H: "H = [h1, h2]" using list2 [OF assms(4)] by blast
  obtain i1 i2 where I: "I = [i1, i2]" using list2 [OF assms(5)] by blast
  obtain s1 s2 where S: "S = [s1, s2]" using list2 [OF assms(6)] by blast
  show ?thesis by (simp add: Y M D H I S slice_def Let_def)
qed

lemma ParseTime_text:
  assumes "year_ok t"
  shows "ParseTime (rfc3339_nano t) = Some t"
proof -
  define secs where "secs = nat (t div second)"
  define ns where "ns = nat (t mod second)"
  define r where "r = secs mod 86400"
  obtain y m d where civ: "civil (secs div 86400) = (y, m, d)" by (metis prod_cases3)
  have t: "t = int secs * second + int ns" using assms by (simp add: secs_def ns_def year_ok_def)
  have "int secs * second < 3652059 * 86400 * second" using assms t by (simp add: year_ok_def)
  then have "secs < 3652059 * 86400" by simp
  then have days: "secs div 86400 < 3652059" by (rule less_mult_imp_div_less)
  note date = civil_date [OF civ]
  have y: "y \<le> 9999" by (rule date(6) [OF days])
  have d31: "lengths_of (int y) ! (m - 1) \<le> 31"
  proof -
    have "lengths_of (int y) ! (m - 1) \<in> set (lengths_of (int y))"
      by (rule nth_mem) (use date(2,3) in \<open>simp add: lengths_of_def\<close>)
    then show ?thesis by (auto simp: lengths_of_def split: if_splits)
  qed
  have r: "r < 86400" by (simp add: r_def)
  have parts: "r div 3600 < 24" "r div 60 mod 60 < 60" "r mod 60 < 60" using r by (simp_all add: less_mult_imp_div_less)
  have clock: "r div 3600 * 3600 + r div 60 mod 60 * 60 + r mod 60 = r"
  proof -
    have "r div 3600 = r div 60 div 60" by (simp flip: div_mult2_eq)
    moreover have "r div 60 = r div 60 div 60 * 60 + r div 60 mod 60" "r = r div 60 * 60 + r mod 60" by simp_all
    ultimately show ?thesis by linarith
  qed
  have len: "length (padded 4 y) = 4" "length (padded 2 m) = 2" "length (padded 2 d) = 2"
    "length (padded 2 (r div 3600)) = 2" "length (padded 2 (r div 60 mod 60)) = 2" "length (padded 2 (r mod 60)) = 2"
    using y date(3,5) d31 parts by (simp_all add: padded_facts)
  have shape: "rfc3339_nano t = padded 4 y @ ''-'' @ padded 2 m @ ''-'' @ padded 2 d @ ''T'' @ padded 2 (r div 3600)
      @ '':'' @ padded 2 (r div 60 mod 60) @ '':'' @ padded 2 (r mod 60) @ fraction ns @ ''Z''"
    by (simp add: rfc3339_nano_def date_text_def civ Let_def flip: secs_def ns_def r_def)
  note slices = date_slices [OF len, of "fraction ns @ ''Z''", folded shape, unfolded Let_def]
  have fields: "uint_text (padded 4 y) 0 9999 = Some y" "uint_text (padded 2 m) (Suc 0) 12 = Some m"
    "uint_text (padded 2 d) (Suc 0) (lengths_of (int y) ! (m - 1)) = Some d"
    "uint_text (padded 2 (r div 3600)) 0 23 = Some (r div 3600)"
    "uint_text (padded 2 (r div 60 mod 60)) 0 59 = Some (r div 60 mod 60)"
    "uint_text (padded 2 (r mod 60)) 0 59 = Some (r mod 60)"
    using y date(2-5) d31 parts by (simp_all add: uint_padded)
  have "ns < 1000000000" by (simp add: ns_def nat_less_iff)
  then have frac: "parse_fraction (fraction ns @ ''Z'') = (ns, ''Z'')" by (rule fraction_read)
  have "date_days (int y) m d * 86400 + int (r div 3600 * 3600 + r div 60 mod 60 * 60 + r mod 60) = int secs"
    using date(1) clock div_mult_mod_eq [of secs 86400] unfolding r_def by (metis of_nat_add of_nat_mult of_nat_numeral)
  then show ?thesis
    using slices fields frac t by (simp add: ParseTime_def parse_zone_def)
qed

end
