(* ===== verification/Wire.thy ===== *)
theory Wire imports Json_Raw Time_Text Protocol begin

text \<open>
  The messages of \<^verbatim>\<open>internal/protocol/protocol.go\<close> on the wire: their JSON texts and how
  \<^verbatim>\<open>encoding/json\<close> decodes them into the structs.  What one program encodes the other decodes
  to the same record, so that the models of the broker and of its clients, which work on
  records, fit together.
\<close>

section \<open>Field decoders\<close>

definition text_field :: "(string \<Rightarrow> 'r \<Rightarrow> 'r) \<Rightarrow> 'r setter" where
  "text_field f = by_value (set_string f)"

definition int_field :: "(int \<Rightarrow> 'r \<Rightarrow> 'r) \<Rightarrow> 'r setter" where
  "int_field f = by_value (set_int f)"

text \<open>\<^verbatim>\<open>time.Time\<close> decodes the bytes between the quotes as they are.\<close>

definition time_field :: "(time \<Rightarrow> 'r \<Rightarrow> 'r) \<Rightarrow> 'r setter" where
  "time_field f s r =
     (if s = ''null'' then Some r
      else if 2 \<le> length s \<and> hd s = quote \<and> last s = quote then map_option (\<lambda>t. f t r) (ParseTime (butlast (tl s)))
      else None)"

text \<open>A slice of strings; null makes it empty, a null element is the empty string.\<close>

fun string_items :: "json list \<Rightarrow> string list option" where
  "string_items [] = Some []"
| "string_items (JString s # xs) = map_option (Cons s) (string_items xs)"
| "string_items (JNull # xs) = map_option (Cons []) (string_items xs)"
| "string_items (x # xs) = None"

fun set_strings :: "(string list \<Rightarrow> 'r \<Rightarrow> 'r) \<Rightarrow> json \<Rightarrow> 'r \<Rightarrow> 'r option" where
  "set_strings f (JArray xs) r = map_option (\<lambda>v. f v r) (string_items xs)"
| "set_strings f JNull r = Some (f [] r)"
| "set_strings f v r = None"

definition strings_field :: "(string list \<Rightarrow> 'r \<Rightarrow> 'r) \<Rightarrow> 'r setter" where
  "strings_field f = by_value (set_strings f)"

lemma text_field_json: "valid_utf8 v \<Longrightarrow> text_field f (json_string v) r = Some (f v r)"
  using by_value_text [of "JString v" "set_string f" r] by (simp add: text_field_def)

lemma int_field_json: "in_int64 i \<Longrightarrow> int_field f (Itoa i) r = Some (f i r)"
  using by_value_text [of "JNumber (Itoa i)" "set_int f" r] by (auto simp: int_field_def Atoi_Itoa)

lemma strings_field_json:
  assumes "list_all valid_utf8 vs"
  shows "strings_field f (json_text (JArray (map JString vs))) r = Some (f vs r)"
proof -
  have "items_ok (map JString vs)" "items_depth (map JString vs) = 0" "string_items (map JString vs) = Some vs"
    using assms by (induction vs) auto
  then show ?thesis using by_value_text [of "JArray (map JString vs)" "set_strings f" r] by (simp add: strings_field_def)
qed

lemma plain_digit: "is_digit c \<Longrightarrow> plain_char c"
  by (auto simp: is_digit_def plain_char_def html_char_def)

lemma time_text_plain: "list_all plain_char (rfc3339_nano t)"
proof -
  have sep: "plain_char (CHR ''-'')" "plain_char (CHR '':'')" "plain_char (CHR ''T'')" "plain_char (CHR ''Z'')"
    "plain_char (CHR ''.'')" "plain_char (CHR ''0'')"
    by (simp_all add: plain_char_def html_char_def)
  have dec: "list_all plain_char (nat_decimal n)" for n
    using nat_decimal_chars plain_digit by (auto simp: list_all_iff)
  have pad: "list_all plain_char (padded w n)" for w n
    unfolding padded_def list_all_append using dec sep(6) by (simp add: list_all_iff)
  have drop: "list_all plain_char (rev (dropWhile P (rev s)))" if "list_all plain_char s" for P s
    using that set_dropWhileD by (fastforce simp: list_all_iff)
  have "list_all plain_char (fraction ns)" for ns
    unfolding fraction_def using drop [OF pad] sep(5) by simp
  then show ?thesis
    by (simp add: rfc3339_nano_def date_text_def pad sep Let_def split: prod.splits)
qed

lemma time_field_json: "year_ok t \<Longrightarrow> time_field f (json_string (rfc3339_nano t)) r = Some (f t r)"
  by (simp add: json_string_plain [OF time_text_plain] time_field_def ParseTime_text)

section \<open>Commands\<close>

text \<open>
  \<^verbatim>\<open>json.Marshal\<close> of a command: the params are raw JSON, compacted, and left out when empty.
\<close>

definition command_text :: "command \<Rightarrow> string" where
  "command_text c =
     ''{'' @ json_string ''ID'' @ '':'' @ json_string (c_ID c) @ '','' @ json_string ''Name'' @ '':'' @ json_string (c_Name c)
     @ '','' @ json_string ''Deadline'' @ '':'' @ json_string (rfc3339_nano (c_Deadline c))
     @ (if c_Params c = [] then [] else '','' @ json_string ''params'' @ '':'' @ Compact (c_Params c)) @ ''}''"

definition no_command :: command where
  "no_command = \<lparr>c_ID = [], c_Name = [], c_Deadline = 0, c_Params = []\<rparr>"

definition command_setters :: "(string \<times> command setter) list" where
  "command_setters =
     [(''ID'', text_field (\<lambda>v c. c\<lparr>c_ID := v\<rparr>)), (''Name'', text_field (\<lambda>v c. c\<lparr>c_Name := v\<rparr>)),
      (''Deadline'', time_field (\<lambda>t c. c\<lparr>c_Deadline := t\<rparr>)), (''params'', by_text (\<lambda>s c. c\<lparr>c_Params := s\<rparr>))]"

text \<open>A command whose text survives the wire: valid texts, params in the form \<^verbatim>\<open>Marshal\<close> gives them.\<close>

definition plain_command :: "command \<Rightarrow> bool" where
  "plain_command c \<longleftrightarrow>
     valid_utf8 (c_ID c) \<and> valid_utf8 (c_Name c) \<and> year_ok (c_Deadline c)
     \<and> (c_Params c = [] \<or> (\<exists>v. c_Params c = json_text v \<and> json_ok v \<and> json_depth v < 9998))"

definition command_members :: "command \<Rightarrow> (string \<times> json) list" where
  "command_members c =
     [(''ID'', JString (c_ID c)), (''Name'', JString (c_Name c)), (''Deadline'', JString (rfc3339_nano (c_Deadline c)))]"

lemma command_text_members:
  assumes "plain_command c"
  obtains ms where "command_text c = json_text (JObject ms)" "members_ok ms" "members_depth ms < 9998"
    "map (apsnd json_text) ms = map (apsnd json_text) (command_members c)
       @ (if c_Params c = [] then [] else [(''params'', c_Params c)])"
proof (cases "c_Params c = []")
  case True
  show ?thesis
    by (rule that [of "command_members c"])
       (use assms True in \<open>simp_all add: command_text_def command_members_def plain_command_def ascii_valid\<close>)
next
  case False
  then obtain v where v: "c_Params c = json_text v" "json_ok v" "json_depth v < 9998"
    using assms by (auto simp: plain_command_def)
  show ?thesis
    by (rule that [of "command_members c @ [(''params'', v)]"])
       (use assms False v in \<open>simp_all add: command_text_def command_members_def plain_command_def ascii_valid Compact_json_text\<close>)
qed

lemma set_command_texts:
  assumes "plain_command c" and "c_Params r = []"
  shows "set_texts strict command_setters (map (apsnd json_text) (command_members c)
       @ (if c_Params c = [] then [] else [(''params'', c_Params c)])) r = Some c"
  using assms
  by (cases r; cases c) (auto simp: command_members_def command_setters_def find_named_def plain_command_def text_field_json
      time_field_json by_text_def)

text \<open>The broker's answer to a poll, read by the guest.\<close>

lemma decode_command_text:
  assumes "plain_command c"
  shows "decode_stream False command_setters no_command (command_text c @ [newline]) = Some c"
  by (rule command_text_members [OF assms])
     (simp add: decode_stream_text set_command_texts [OF assms] no_command_def del: json_text.simps)

section \<open>Pair requests, replies and results\<close>

definition pair_request_members :: "pair_request \<Rightarrow> (string \<times> json) list" where
  "pair_request_members q =
     [(''protocol'', JNumber (Itoa (q_Protocol q))), (''USBID'', JString (q_USBID q)), (''Hostname'', JString (q_Hostname q)),
      (''OS'', JString (q_OS q)), (''Arch'', JString (q_Arch q)), (''User'', JString (q_User q)),
      (''PublicKey'', JString (q_PublicKey q)), (''Nonce'', JString (q_Nonce q)), (''Signature'', JString (q_Signature q)),
      (''requested'', JArray (map JString (q_Requested q))), (''durationSeconds'', JNumber (Itoa (q_DurationSeconds q)))]"

definition no_pair_request :: pair_request where
  "no_pair_request = \<lparr>q_Protocol = 0, q_USBID = [], q_Hostname = [], q_OS = [], q_Arch = [], q_User = [], q_PublicKey = [],
     q_Nonce = [], q_Signature = [], q_Requested = [], q_DurationSeconds = 0\<rparr>"

definition pair_request_setters :: "(string \<times> pair_request setter) list" where
  "pair_request_setters =
     [(''protocol'', int_field (\<lambda>v q. q\<lparr>q_Protocol := v\<rparr>)), (''USBID'', text_field (\<lambda>v q. q\<lparr>q_USBID := v\<rparr>)),
      (''Hostname'', text_field (\<lambda>v q. q\<lparr>q_Hostname := v\<rparr>)), (''OS'', text_field (\<lambda>v q. q\<lparr>q_OS := v\<rparr>)),
      (''Arch'', text_field (\<lambda>v q. q\<lparr>q_Arch := v\<rparr>)), (''User'', text_field (\<lambda>v q. q\<lparr>q_User := v\<rparr>)),
      (''PublicKey'', text_field (\<lambda>v q. q\<lparr>q_PublicKey := v\<rparr>)), (''Nonce'', text_field (\<lambda>v q. q\<lparr>q_Nonce := v\<rparr>)),
      (''Signature'', text_field (\<lambda>v q. q\<lparr>q_Signature := v\<rparr>)), (''requested'', strings_field (\<lambda>v q. q\<lparr>q_Requested := v\<rparr>)),
      (''durationSeconds'', int_field (\<lambda>v q. q\<lparr>q_DurationSeconds := v\<rparr>))]"

definition plain_request :: "pair_request \<Rightarrow> bool" where
  "plain_request q \<longleftrightarrow>
     list_all valid_utf8 [q_USBID q, q_Hostname q, q_OS q, q_Arch q, q_User q, q_PublicKey q, q_Nonce q, q_Signature q]
     \<and> list_all valid_utf8 (q_Requested q) \<and> in_int64 (q_Protocol q) \<and> in_int64 (q_DurationSeconds q)"

definition pair_request_text :: "pair_request \<Rightarrow> string" where
  "pair_request_text q = json_text (JObject (pair_request_members q)) @ [newline]"

lemma strings_json: "list_all valid_utf8 vs \<Longrightarrow> items_ok (map JString vs)" "items_depth (map JString vs) = 0"
  by (induction vs) auto

lemma decode_pair_request:
  assumes "plain_request q"
  shows "decode_stream True pair_request_setters no_pair_request (pair_request_text q) = Some q"
proof -
  have ok: "members_ok (pair_request_members q)" "json_depth (JObject (pair_request_members q)) \<le> 10000"
    using assms by (auto simp: pair_request_members_def plain_request_def ascii_valid strings_json)
  have "set_texts True pair_request_setters (map (apsnd json_text) (pair_request_members q)) no_pair_request = Some q"
    using assms
    by (cases q) (simp add: pair_request_members_def pair_request_setters_def find_named_def plain_request_def text_field_json
        int_field_json strings_field_json no_pair_request_def del: json_text.simps(5))
  then show ?thesis by (simp add: pair_request_text_def decode_stream_text [OF ok] del: json_text.simps)
qed

definition pair_reply_members :: "pair_reply \<Rightarrow> (string \<times> json) list" where
  "pair_reply_members r =
     [(''RequestID'', JString (r_RequestID r)), (''Status'', JString (r_Status r)), (''CompareCode'', JString (r_CompareCode r)),
      (''PairingToken'', JString (r_PairingToken r)), (''Error'', JString (r_Error r))]
     @ (if r_SessionToken r = [] then [] else [(''SessionToken'', JString (r_SessionToken r))])
     @ [(''ExpiresAt'', JString (rfc3339_nano (r_ExpiresAt r)))]"

definition no_reply :: pair_reply where
  "no_reply = \<lparr>r_RequestID = [], r_Status = [], r_CompareCode = [], r_PairingToken = [], r_Error = [], r_SessionToken = [],
     r_ExpiresAt = 0\<rparr>"

definition pair_reply_setters :: "(string \<times> pair_reply setter) list" where
  "pair_reply_setters =
     [(''RequestID'', text_field (\<lambda>v r. r\<lparr>r_RequestID := v\<rparr>)), (''Status'', text_field (\<lambda>v r. r\<lparr>r_Status := v\<rparr>)),
      (''CompareCode'', text_field (\<lambda>v r. r\<lparr>r_CompareCode := v\<rparr>)),
      (''PairingToken'', text_field (\<lambda>v r. r\<lparr>r_PairingToken := v\<rparr>)), (''Error'', text_field (\<lambda>v r. r\<lparr>r_Error := v\<rparr>)),
      (''SessionToken'', text_field (\<lambda>v r. r\<lparr>r_SessionToken := v\<rparr>)), (''ExpiresAt'', time_field (\<lambda>v r. r\<lparr>r_ExpiresAt := v\<rparr>))]"

definition plain_reply :: "pair_reply \<Rightarrow> bool" where
  "plain_reply r \<longleftrightarrow>
     list_all valid_utf8 [r_RequestID r, r_Status r, r_CompareCode r, r_PairingToken r, r_Error r, r_SessionToken r]
     \<and> year_ok (r_ExpiresAt r)"

definition pair_reply_text :: "pair_reply \<Rightarrow> string" where
  "pair_reply_text r = json_text (JObject (pair_reply_members r)) @ [newline]"

text \<open>A reply without a session token leaves the one read before in place.\<close>

lemma decode_pair_reply:
  assumes "plain_reply r"
  shows "decode_stream False pair_reply_setters r0 (pair_reply_text r)
    = Some (if r_SessionToken r = [] then r\<lparr>r_SessionToken := r_SessionToken r0\<rparr> else r)"
proof -
  have ok: "members_ok (pair_reply_members r)" "json_depth (JObject (pair_reply_members r)) \<le> 10000"
    using assms by (auto simp: pair_reply_members_def plain_reply_def ascii_valid)
  have "set_texts False pair_reply_setters (map (apsnd json_text) (pair_reply_members r)) r0
      = Some (if r_SessionToken r = [] then r\<lparr>r_SessionToken := r_SessionToken r0\<rparr> else r)"
    using assms
    by (cases r; cases r0) (simp add: pair_reply_members_def pair_reply_setters_def find_named_def plain_reply_def
        text_field_json time_field_json)
  then show ?thesis by (simp add: pair_reply_text_def decode_stream_text [OF ok] del: json_text.simps)
qed

definition result_members :: "result \<Rightarrow> (string \<times> json) list" where
  "result_members q =
     [(''ID'', JString (res_ID q)), (''Name'', JString (res_Name q)), (''StartedAt'', JString (rfc3339_nano (res_StartedAt q))),
      (''FinishedAt'', JString (rfc3339_nano (res_FinishedAt q))), (''Output'', JString (res_Output q)),
      (''Error'', JString (res_Error q))]"

definition no_result :: result where
  "no_result = \<lparr>res_ID = [], res_Name = [], res_StartedAt = 0, res_FinishedAt = 0, res_Output = [], res_Error = []\<rparr>"

definition result_setters :: "(string \<times> result setter) list" where
  "result_setters =
     [(''ID'', text_field (\<lambda>v q. q\<lparr>res_ID := v\<rparr>)), (''Name'', text_field (\<lambda>v q. q\<lparr>res_Name := v\<rparr>)),
      (''StartedAt'', time_field (\<lambda>v q. q\<lparr>res_StartedAt := v\<rparr>)), (''FinishedAt'', time_field (\<lambda>v q. q\<lparr>res_FinishedAt := v\<rparr>)),
      (''Output'', text_field (\<lambda>v q. q\<lparr>res_Output := v\<rparr>)), (''Error'', text_field (\<lambda>v q. q\<lparr>res_Error := v\<rparr>))]"

definition plain_result :: "result \<Rightarrow> bool" where
  "plain_result q \<longleftrightarrow>
     list_all valid_utf8 [res_ID q, res_Name q, res_Output q, res_Error q] \<and> year_ok (res_StartedAt q)
     \<and> year_ok (res_FinishedAt q)"

definition result_text :: "result \<Rightarrow> string" where
  "result_text q = json_text (JObject (result_members q)) @ [newline]"

lemma decode_result:
  assumes "plain_result q"
  shows "decode_stream True result_setters no_result (result_text q) = Some q"
proof -
  have ok: "members_ok (result_members q)" "json_depth (JObject (result_members q)) \<le> 10000"
    using assms by (auto simp: result_members_def plain_result_def ascii_valid)
  have "set_texts True result_setters (map (apsnd json_text) (result_members q)) no_result = Some q"
    using assms
    by (cases q) (simp add: result_members_def result_setters_def find_named_def plain_result_def
        text_field_json time_field_json no_result_def)
  then show ?thesis by (simp add: result_text_def decode_stream_text [OF ok] del: json_text.simps)
qed

text \<open>C22 What one program sends the other reads back: a pair request, a reply, a command and a
  result whose texts are valid UTF-8, whose times lie in the years 1 to 9999 and whose params
  have the form \<^verbatim>\<open>Marshal\<close> writes are decoded, strictly where the broker does so, to the record
  that was encoded; only an empty session token leaves the receiver's old one in place.\<close>

theorem messages_survive_the_wire:
  assumes "plain_request q" and "plain_reply r" and "plain_command c" and "plain_result p"
  shows "decode_stream True pair_request_setters no_pair_request (pair_request_text q) = Some q
    \<and> decode_stream False pair_reply_setters r0 (pair_reply_text r)
        = Some (if r_SessionToken r = [] then r\<lparr>r_SessionToken := r_SessionToken r0\<rparr> else r)
    \<and> decode_stream False command_setters no_command (command_text c @ [newline]) = Some c
    \<and> decode_stream True result_setters no_result (result_text p) = Some p"
  using assms decode_pair_request decode_pair_reply decode_command_text decode_result by blast

definition wire_samples :: "pair_reply \<times> command \<times> result" where
  "wire_samples =
     (no_reply\<lparr>r_Status := ''pending''\<rparr>,
      \<lparr>c_ID = ''c1'', c_Name = ''files.list'', c_Deadline = second, c_Params = json_text (JObject [(''path'', JString ''/tmp'')])\<rparr>,
      no_result\<lparr>res_ID := ''c1'', res_Output := ''{}''\<rparr>)"

theorem messages_survive_the_wire_witness:
  "case wire_samples of (r, c, p) \<Rightarrow>
     decode_stream True pair_request_setters no_pair_request (pair_request_text sample_request) = Some sample_request
     \<and> decode_stream False pair_reply_setters no_reply (pair_reply_text r) = Some (r\<lparr>r_SessionToken := []\<rparr>)
     \<and> decode_stream False command_setters no_command (command_text c @ [newline]) = Some c
     \<and> decode_stream True result_setters no_result (result_text p) = Some p"
proof -
  obtain r c p where rcp: "wire_samples = (r, c, p)" by (metis prod_cases3)
  have "plain_request sample_request"
    by (simp add: plain_request_def sample_request_def ascii_valid in_int64_def)
  moreover have "plain_reply r \<and> r_SessionToken r = []" "plain_result p"
    using rcp by (auto simp: wire_samples_def plain_reply_def plain_result_def no_reply_def no_result_def ascii_valid year_ok_def)
  moreover have "json_ok (JObject [(''path'', JString ''/tmp'')])" "json_depth (JObject [(''path'', JString ''/tmp'')]) < 9998"
    by (simp_all add: ascii_valid)
  then have "plain_command c"
    using rcp by (auto simp: wire_samples_def plain_command_def ascii_valid year_ok_def simp del: json_text.simps json_ok.simps json_depth.simps)
  moreover have "r_SessionToken no_reply = []" by (simp add: no_reply_def)
  ultimately show ?thesis
    unfolding rcp prod.case using messages_survive_the_wire [of sample_request r c p no_reply] by simp
qed

end
