(* ===== verification/Broker_Http.thy ===== *)
theory Broker_Http imports Broker_System Http_Client Wire "HOL-Library.List_Lexorder" "HOL-Library.Char_ord" begin

text \<open>
  The broker as the other programs see it: a request with its method, target, authorization
  and body is routed to a handler (\<^verbatim>\<open>main\<close> of \<^verbatim>\<open>cmd/pairing-broker\<close>), its JSON body is decoded
  strictly, and the answer is written as JSON; targets that the router of the library would first
  clean up and redirect count as not found.  The result is a network in the sense of
  Http_Client, so that the models of the clients can be run against the model of the broker.
\<close>

section \<open>Bodies of the requests\<close>

definition approve_setters :: "(string \<times> approve_query setter) list" where
  "approve_setters =
     [(''requestId'', text_field (\<lambda>v q. q\<lparr>aq_RequestID := v\<rparr>)), (''minutes'', int_field (\<lambda>v q. q\<lparr>aq_Minutes := v\<rparr>))]"

definition id_setters :: "(string \<times> string setter) list" where
  "id_setters = [(''requestId'', text_field (\<lambda>v q. v))]"

definition ack_setters :: "(string \<times> string setter) list" where
  "ack_setters = [(''commandId'', text_field (\<lambda>v q. v))]"

definition order_setters :: "(string \<times> enqueue_query setter) list" where
  "order_setters =
     [(''requestId'', text_field (\<lambda>v q. q\<lparr>eq_RequestID := v\<rparr>)),
      (''command'', \<lambda>s q. map_option (\<lambda>c. q\<lparr>eq_Command := c\<rparr>) (set_object True command_setters s (eq_Command q)))]"

text \<open>A body with nothing after its JSON value: the size is the number of bytes the decoder reads.\<close>

definition read_body :: "(string \<times> 'r setter) list \<Rightarrow> 'r \<Rightarrow> string \<Rightarrow> 'r body" where
  "read_body fs r s = \<lparr>bd_size = length s, bd_value = decode_stream True fs r s\<rparr>"

lemma limited_read_body:
  "limitedJSONN n (read_body fs r s) = (if length s \<le> n then decode_stream True fs r s else None)"
  by (simp add: limitedJSONN_def read_body_def)

section \<open>Routes\<close>

datatype route =
    Pair_request "pair_request body"
  | Pair_status string
  | Admin_approve "approve_query body"
  | Admin_pending
  | Admin_sessions string
  | Admin_reject "string body"
  | Admin_command "enqueue_query body"
  | Admin_revoke "string body"
  | Admin_results string string string string
  | Session_poll
  | Session_ack "string body"
  | Session_result "result body"
  | Session_revoke
  | Not_found

definition split_target :: "string \<Rightarrow> string \<times> string" where
  "split_target target = (case Cut (CHR ''?'') target of Some p \<Rightarrow> p | None \<Rightarrow> (target, []))"

definition route_of :: "string \<Rightarrow> string \<Rightarrow> route" where
  "route_of target body =
     (let (path, query) = split_target target; get = query_get query
      in if path = ''/v1/pair/request'' then Pair_request (read_body pair_request_setters no_pair_request body)
         else if path = ''/v1/pair/status'' then Pair_status (get ''id'')
         else if path = ''/v1/admin/approve'' then
           Admin_approve (read_body approve_setters \<lparr>aq_RequestID = [], aq_Minutes = 0\<rparr> body)
         else if path = ''/v1/admin/pending'' then Admin_pending
         else if path = ''/v1/admin/sessions'' then Admin_sessions (get ''id'')
         else if path = ''/v1/admin/reject'' then Admin_reject (read_body id_setters [] body)
         else if path = ''/v1/admin/command'' then
           Admin_command (read_body order_setters \<lparr>eq_RequestID = [], eq_Command = no_command\<rparr> body)
         else if path = ''/v1/admin/revoke'' then Admin_revoke (read_body id_setters [] body)
         else if path = ''/v1/admin/results'' then
           Admin_results (get ''id'') (get ''consume'') (get ''view'') (get ''maxOutputBytes'')
         else if path = ''/v1/session/poll'' then Session_poll
         else if path = ''/v1/session/ack'' then Session_ack (read_body ack_setters [] body)
         else if path = ''/v1/session/result'' then Session_result (read_body result_setters no_result body)
         else if path = ''/v1/session/revoke'' then Session_revoke
         else Not_found)"

text \<open>
  What a request takes from outside: the readings and failures of the handlers, the remote
  address, and the orders in which maps are visited.
\<close>

record http_env =
  he_remote :: string
  he_pair :: pair_env
  he_now :: time
  he_entropy :: entropy
  he_fault :: "save_stage option"
  he_approve :: approve_env
  he_enqueue :: enqueue_env
  he_locked :: locked_env
  he_start :: time
  he_rounds :: "poll_round list"
  he_ids :: "string list"
  he_order :: "string \<Rightarrow> string list"

text \<open>A handler's answer, if it answers: a poll whose client has gone does not.\<close>

fun serve :: "crypto \<Rightarrow> http_env \<Rightarrow> string \<Rightarrow> string \<Rightarrow> route \<Rightarrow> server \<Rightarrow> response option \<times> server" where
  "serve cr e meth auth (Pair_request b) s = apfst Some (pair cr (he_pair e) meth (he_remote e) b s)"
| "serve cr e meth auth (Pair_status rid) s = apfst Some (status cr (he_now e) (he_entropy e) (he_fault e) rid auth s)"
| "serve cr e meth auth (Admin_approve b) s = apfst Some (approve cr (he_approve e) auth b s)"
| "serve cr e meth auth Admin_pending s = (Some (adminPending (he_ids e) auth s), s)"
| "serve cr e meth auth (Admin_sessions rid) s = (Some (adminSessions (he_now e) (he_order e) (he_ids e) rid auth s), s)"
| "serve cr e meth auth (Admin_reject b) s = apfst Some (adminReject (he_now e) (he_fault e) auth b s)"
| "serve cr e meth auth (Admin_command b) s = apfst Some (enqueue cr (he_enqueue e) auth b s)"
| "serve cr e meth auth (Admin_revoke b) s = apfst Some (adminRevoke (he_now e) (he_fault e) auth b s)"
| "serve cr e meth auth (Admin_results rid consume view bytes) s =
     apfst Some (adminResults cr (he_fault e) rid consume view bytes auth s)"
| "serve cr e meth auth Session_poll s = poll cr (he_now e) (he_ids e) (he_start e) (he_rounds e) auth s"
| "serve cr e meth auth (Session_ack b) s = apfst Some (ack cr (he_locked e) auth b s)"
| "serve cr e meth auth (Session_result b) s = apfst Some (result_handler cr (he_locked e) auth b s)"
| "serve cr e meth auth Session_revoke s = apfst Some (revoke cr (he_locked e) auth s)"
| "serve cr e meth auth Not_found s = (Some \<lparr>resp_code = 404, resp_headers = [], resp_body = NoContent\<rparr>, s)"

section \<open>Bodies of the answers\<close>

definition text_json :: "string list \<Rightarrow> json" where
  "text_json vs = (if vs = [] then JNull else JArray (map JString vs))"

definition nat_json :: "nat \<Rightarrow> json" where "nat_json n = JNumber (Itoa (int n))"

definition time_json :: "time \<Rightarrow> json" where "time_json t = JString (rfc3339_nano t)"

definition error_json :: "string \<Rightarrow> json" where "error_json e = JObject [(''error'', JString e)]"

definition pending_view_json :: "pending_view \<Rightarrow> json" where
  "pending_view_json v =
     JObject [(''requestId'', JString (pv_RequestID v)), (''usbId'', JString (pv_USBID v)),
       (''hostname'', JString (pv_Hostname v)), (''os'', JString (pv_OS v)), (''arch'', JString (pv_Arch v)),
       (''user'', JString (pv_User v)), (''requested'', text_json (pv_Requested v)),
       (''durationSeconds'', JNumber (Itoa (pv_DurationSeconds v))), (''compareCode'', JString (pv_CompareCode v)),
       (''createdAt'', time_json (pv_CreatedAt v))]"

text \<open>The counts by status, sorted by name as every map is written.\<close>

definition counts_json :: "(string \<rightharpoonup> nat) \<Rightarrow> json" where
  "counts_json m = JObject (map (\<lambda>k. (k, nat_json (the (m k)))) (sorted_list_of_set (dom m)))"

definition session_view_json :: "session_view \<Rightarrow> json" where
  "session_view_json v =
     JObject [(''requestId'', JString (vw_RequestID v)), (''status'', JString (vw_Status v)), (''trust'', JString (vw_Trust v)),
       (''usbId'', JString (vw_USBID v)), (''hostname'', JString (vw_Hostname v)), (''os'', JString (vw_OS v)),
       (''arch'', JString (vw_Arch v)), (''user'', JString (vw_User v)), (''requested'', text_json (vw_Requested v)),
       (''createdAt'', time_json (vw_CreatedAt v)), (''expiresAt'', time_json (vw_ExpiresAt v)),
       (''queueDepth'', nat_json (vw_QueueDepth v)), (''resultCount'', nat_json (vw_ResultCount v)),
       (''commandStatuses'', counts_json (vw_CommandStatuses v))]"

definition agent_view_json :: "agent_view \<Rightarrow> json" where
  "agent_view_json v =
     JObject [(''id'', JString (av_ID v)), (''name'', JString (av_Name v)), (''trust'', JString (av_Trust v)),
       (''startedAt'', time_json (av_StartedAt v)), (''finishedAt'', time_json (av_FinishedAt v)),
       (''output'', JString (av_Output v)), (''error'', JString (av_Error v)), (''outputBytes'', nat_json (av_OutputBytes v)),
       (''outputSHA256'', JString (av_OutputSHA256 v)), (''outputTruncated'', JBool (av_OutputTruncated v))]"

definition envelope_json :: "envelope \<Rightarrow> json" where
  "envelope_json v =
     JObject [(''notice'', JString (en_notice v)), (''results'', JArray (map agent_view_json (en_results v))),
       (''totalOutputBytes'', nat_json (en_totalOutputBytes v)),
       (''totalOutputLimitBytes'', nat_json (en_totalOutputLimitBytes v)), (''trust'', JString (en_trust v))]"

fun body_json :: "reply_body \<Rightarrow> json" where
  "body_json (ErrorBody m) = error_json m"
| "body_json (UpgradeBody m received supported) =
     JObject [(''error'', JString m), (''receivedProtocol'', JNumber (Itoa received)),
       (''supportedProtocol'', JNumber (Itoa supported))]"
| "body_json (PairBody rep) = JObject (pair_reply_members rep)"
| "body_json (ApprovedBody rid minutes expiresAt) =
     JObject [(''expiresAt'', time_json expiresAt), (''minutes'', JNumber (Itoa minutes)), (''requestId'', JString rid),
       (''status'', JString ''approved'')]"
| "body_json (StatusBody m) = JObject [(''status'', JString m)]"
| "body_json (RejectedBody rid) = JObject [(''requestId'', JString rid), (''status'', JString ''rejected'')]"
| "body_json (CommandStatus st cid idempotent) =
     JObject ([(''commandId'', JString cid)] @ (if idempotent then [(''idempotent'', JBool True)] else [])
       @ [(''status'', JString st)])"
| "body_json (CommandError m cid) = JObject [(''commandId'', JString cid), (''error'', JString m)]"
| "body_json (QueueFull depth limit) =
     JObject [(''error'', JString ''queue full''), (''queueDepth'', nat_json depth), (''queueLimit'', nat_json limit),
       (''retryAfterSeconds'', JNumber ''1'')]"
| "body_json (Queued cid depth limit) =
     JObject [(''commandId'', JString cid), (''queueDepth'', nat_json depth), (''queueLimit'', nat_json limit),
       (''status'', JString ''queued'')]"
| "body_json (PendingList vs) = JArray (map pending_view_json vs)"
| "body_json (SessionList vs) =
     JObject [(''notice'', JString ''Hostname, user, platform, and USB ID are descriptive guest claims, not verified identity.''),
       (''sessions'', JArray (map session_view_json vs)), (''trust'', JString ''untrusted_guest_claims'')]"
| "body_json (ResultList qs) = (if qs = [] then JNull else JArray (map (\<lambda>q. JObject (result_members q)) qs))"
| "body_json (AgentEnvelope v) = envelope_json v"
| "body_json v = JNull"

text \<open>\<^verbatim>\<open>write\<close>: a command keeps its params as they are; 204 and 404 from the server have no JSON.\<close>

fun reply_text :: "reply_body \<Rightarrow> string" where
  "reply_text (CommandBody c) = command_text c @ [newline]"
| "reply_text NoContent = []"
| "reply_text v = json_text (body_json v) @ [newline]"

definition status_line :: "nat \<Rightarrow> string" where
  "status_line code =
     (case map_of [(200, ''OK''), (202, ''Accepted''), (204, ''No Content''), (400, ''Bad Request''), (401, ''Unauthorized''),
          (403, ''Forbidden''), (404, ''Not Found''), (405, ''Method Not Allowed''), (409, ''Conflict''),
          (426, ''Upgrade Required''), (429, ''Too Many Requests''), (500, ''Internal Server Error'')] code of
        Some t \<Rightarrow> Itoa (int code) @ '' '' @ t
      | None \<Rightarrow> Itoa (int code))"

section \<open>The broker as a network\<close>

text \<open>The state of the network: the server, and what the requests to come take from outside.\<close>

type_synonym live = "(nat \<Rightarrow> http_env) \<times> server"

definition answer_of :: "response option \<Rightarrow> http_reply" where
  "answer_of r =
     (case r of None \<Rightarrow> Failed ''no answer''
      | Some resp \<Rightarrow>
          Answer (resp_code resp) (status_line (resp_code resp))
            (if resp_body resp = NoContent \<and> resp_code resp = 404 then ''404 page not found'' @ [newline]
             else reply_text (resp_body resp)))"

definition broker_network :: "crypto \<Rightarrow> string \<Rightarrow> live network" where
  "broker_network cr base q z =
     (case z of (env, s) \<Rightarrow>
        if \<not> HasPrefix (hr_URL q) base then (Failed ''unknown host'', z)
        else
          (case serve cr (env 0) (hr_Method q) (hr_Authorization q)
                  (route_of (drop (length base) (hr_URL q)) (case hr_Body q of Some b \<Rightarrow> b | None \<Rightarrow> [])) s of
             (r, s) \<Rightarrow> (answer_of r, (\<lambda>i. env (Suc i), s))))"

end
