(* ===== verification/Json_Any.thy ===== *)
theory Json_Any imports Go_Number "HOL-Library.AList" "HOL-Library.List_Lexorder" "HOL-Library.Char_ord" begin

text \<open>
  JSON values without a type: what \<^verbatim>\<open>json.Unmarshal\<close> makes of a text in a variable of type
  \<^verbatim>\<open>any\<close> (numbers are float64, the last of several members of one name is kept), how such a
  value is written again (\<^verbatim>\<open>Marshal\<close> and \<^verbatim>\<open>MarshalIndent\<close> with sorted names), and that what
  is written with indentation reads as the value.
\<close>

datatype any = Nil_value | Bool_value bool | Float_value rat | Text_value string
  | Slice "any list" | Map_value "(string \<times> any) list"

section \<open>Reading\<close>

text \<open>\<open>None\<close> is a number outside the range of float64, an error of the whole text.\<close>

fun any_of :: "json \<Rightarrow> any option"
and anys_of :: "json list \<Rightarrow> any list option"
and members_of :: "(string \<times> json) list \<Rightarrow> (string \<times> any) list \<Rightarrow> (string \<times> any) list option" where
  "any_of JNull = Some Nil_value"
| "any_of (JBool b) = Some (Bool_value b)"
| "any_of (JNumber n) = map_option Float_value (ParseFloat n)"
| "any_of (JString s) = Some (Text_value s)"
| "any_of (JArray xs) = map_option Slice (anys_of xs)"
| "any_of (JObject ms) = map_option Map_value (members_of ms [])"
| "anys_of [] = Some []"
| "anys_of (x # xs) = Option.bind (any_of x) (\<lambda>v. map_option (Cons v) (anys_of xs))"
| "members_of [] m = Some m"
| "members_of ((k, x) # ms) m = Option.bind (any_of x) (\<lambda>v. members_of ms (AList.update k v m))"

definition unmarshal_any :: "string \<Rightarrow> any option" where
  "unmarshal_any s = Option.bind (parse_json s) any_of"

section \<open>Writing\<close>

fun json_of :: "any \<Rightarrow> json"
and jsons_of :: "any list \<Rightarrow> json list"
and json_members_of :: "(string \<times> any) list \<Rightarrow> (string \<times> json) list" where
  "json_of Nil_value = JNull"
| "json_of (Bool_value b) = JBool b"
| "json_of (Float_value q) = JNumber (float_text q)"
| "json_of (Text_value s) = JString s"
| "json_of (Slice xs) = JArray (jsons_of xs)"
| "json_of (Map_value ms) = JObject (sort_key fst (json_members_of ms))"
| "jsons_of [] = []"
| "jsons_of (x # xs) = json_of x # jsons_of xs"
| "json_members_of [] = []"
| "json_members_of ((k, x) # ms) = (k, json_of x) # json_members_of ms"

definition marshal_any :: "any \<Rightarrow> string" where
  "marshal_any v = json_text (json_of v)"

text \<open>Indentation by two spaces; an empty array or object stays on its line.\<close>

definition new_line :: "nat \<Rightarrow> string" where
  "new_line d = newline # replicate (2 * d) (CHR '' '')"

fun indent_text :: "nat \<Rightarrow> json \<Rightarrow> string"
and indent_items :: "nat \<Rightarrow> json list \<Rightarrow> string"
and indent_fields :: "nat \<Rightarrow> (string \<times> json) list \<Rightarrow> string" where
  "indent_text d (JArray xs) =
     (if xs = [] then ''[]'' else CHR ''['' # new_line (Suc d) @ indent_items (Suc d) xs @ new_line d @ '']'')"
| "indent_text d (JObject ms) =
     (if ms = [] then ''{}'' else CHR ''{'' # new_line (Suc d) @ indent_fields (Suc d) ms @ new_line d @ ''}'')"
| "indent_text d JNull = json_text JNull"
| "indent_text d (JBool b) = json_text (JBool b)"
| "indent_text d (JNumber n) = json_text (JNumber n)"
| "indent_text d (JString s) = json_text (JString s)"
| "indent_items d [] = []"
| "indent_items d [x] = indent_text d x"
| "indent_items d (x # y # xs) = indent_text d x @ CHR '','' # new_line d @ indent_items d (y # xs)"
| "indent_fields d [] = []"
| "indent_fields d [(k, v)] = json_string k @ '': '' @ indent_text d v"
| "indent_fields d ((k, v) # m # ms) =
     json_string k @ '': '' @ indent_text d v @ CHR '','' # new_line d @ indent_fields d (m # ms)"

section \<open>An indented value reads as the value\<close>

lemma lex_blanks: "lex (new_line d @ s) = lex s" "lex (CHR '' '' # s) = lex s"
proof -
  have "lex (replicate n (CHR '' '') @ s) = lex s" for n
    by (induction n) (simp_all add: lex.simps(2) json_space_def)
  then show "lex (new_line d @ s) = lex s" by (simp add: new_line_def lex.simps(2) json_space_def)
qed (simp add: lex.simps(2) json_space_def)

lemma value_end_new_line [simp]: "value_end (new_line d @ s)"
  by (simp add: new_line_def)

lemma lex_indent_text:
  "json_ok v \<Longrightarrow> value_end s \<Longrightarrow> lex (indent_text d v @ s) = json_tokens v @ lex s"
  "items_ok xs \<Longrightarrow> value_end s \<Longrightarrow> lex (indent_items d xs @ s) = item_tokens xs @ lex s"
  "members_ok ms \<Longrightarrow> value_end s \<Longrightarrow> lex (indent_fields d ms @ s) = member_tokens ms @ lex s"
proof (induction d v and d xs and d ms arbitrary: s and s and s rule: indent_text_indent_items_indent_fields.induct)
  case (3 d)
  then show ?case using lex_literals by simp
next
  case (4 d b)
  then show ?case using lex_literals by simp
next
  case (5 d n)
  then show ?case by (auto simp: lex_Itoa)
qed (simp_all add: lex_punct lex_json_string lex_blanks)

lemma parse_indent_text:
  assumes "json_ok v" and "json_depth v \<le> 10000"
  shows "parse_json (indent_text 0 v @ [newline]) = Some v"
proof -
  have "lex (indent_text 0 v @ [newline]) = json_tokens v @ lex [newline]"
    using assms(1) by (intro lex_indent_text(1)) simp_all
  also have "lex [newline] = []" by (simp add: lex.simps(2) json_space_def)
  finally show ?thesis using read_json_tokens [OF assms(2), of "[]"] by (simp add: parse_json_def)
qed

text \<open>Values with integers and valid text only: those of the broker's answers.\<close>

fun any_ok :: "any \<Rightarrow> bool"
and anys_ok :: "any list \<Rightarrow> bool"
and fields_ok :: "(string \<times> any) list \<Rightarrow> bool" where
  "any_ok (Float_value q) = (\<exists>i. q = of_int i \<and> \<bar>i\<bar> < 2 ^ 53)"
| "any_ok (Text_value s) = valid_utf8 s"
| "any_ok (Slice xs) = anys_ok xs"
| "any_ok (Map_value ms) = fields_ok ms"
| "any_ok _ = True"
| "anys_ok [] = True"
| "anys_ok (x # xs) = (any_ok x \<and> anys_ok xs)"
| "fields_ok [] = True"
| "fields_ok ((k, v) # ms) = (valid_utf8 k \<and> any_ok v \<and> fields_ok ms)"

lemma members_ok_iff: "members_ok ms \<longleftrightarrow> (\<forall>(k, v)\<in>set ms. valid_utf8 k \<and> json_ok v)"
  by (induction ms) auto

lemma json_of_ok:
  "any_ok v \<Longrightarrow> json_ok (json_of v)"
  "anys_ok xs \<Longrightarrow> items_ok (jsons_of xs)"
  "fields_ok ms \<Longrightarrow> members_ok (json_members_of ms)"
proof (induction v and xs and ms rule: json_of_jsons_of_json_members_of.induct)
  case (3 q)
  then show ?case using float_text_int by auto
qed (auto simp: members_ok_iff)

end
