(* ===== verification/Operator.thy ===== *)
theory Operator imports Http_Client Json_Any Wire begin

text \<open>
  \<^verbatim>\<open>cmd/bridge-operator/main.go\<close>: the operator's command line.  A run turns its arguments into
  one request to the broker, or into an error, and prints the answer.  The \<^verbatim>\<open>flag\<close> package is
  modelled as far as the program uses it: the values a flag takes and where parsing stops.
\<close>

section \<open>Command-line flags\<close>

datatype flag_error = Bad_syntax string | Help_requested | Undefined_flag string | Needs_argument string
  | Invalid_value string string

text \<open>A flag is boolean or not, and sets its value in the record of the flags, or fails.\<close>

type_synonym 'r flag = "bool \<times> (string \<Rightarrow> 'r \<Rightarrow> 'r option)"

definition set_flag :: "'r flag \<Rightarrow> string \<Rightarrow> string \<Rightarrow> 'r \<Rightarrow> flag_error + 'r" where
  "set_flag f name v r = (case snd f v r of None \<Rightarrow> Inl (Invalid_value name v) | Some r \<Rightarrow> Inr r)"

definition flag_name :: "string \<Rightarrow> string \<times> string option" where
  "flag_name s = (case Cut (CHR ''='') s of Some (n, v) \<Rightarrow> (n, Some v) | None \<Rightarrow> (s, None))"

function parse_flags :: "(string \<times> 'r flag) list \<Rightarrow> string list \<Rightarrow> 'r \<Rightarrow> flag_error + ('r \<times> string list)" where
  "parse_flags fs [] r = Inr (r, [])"
| "parse_flags fs (s # args) r =
     (if length s < 2 \<or> \<not> HasPrefix s ''-'' then Inr (r, s # args)
      else if s = ''--'' then Inr (r, args)
      else
        let body = (if HasPrefix s ''--'' then drop 2 s else drop 1 s); (n, given) = flag_name body
        in if HasPrefix body ''-'' \<or> HasPrefix body ''='' then Inl (Bad_syntax s)
           else (case map_of fs n of
                   None \<Rightarrow> Inl (if n = ''help'' \<or> n = ''h'' then Help_requested else Undefined_flag n)
                 | Some f \<Rightarrow>
                     (case (if fst f then Some (case given of Some v \<Rightarrow> v | None \<Rightarrow> ''true'', args)
                            else (case (given, args) of
                                    (Some v, _) \<Rightarrow> Some (v, args)
                                  | (None, a # args') \<Rightarrow> Some (a, args')
                                  | (None, []) \<Rightarrow> None)) of
                        None \<Rightarrow> Inl (Needs_argument n)
                      | Some (v, rest) \<Rightarrow>
                          (case set_flag f n v r of Inl e \<Rightarrow> Inl e | Inr r \<Rightarrow> parse_flags fs rest r))))"
  by pat_completeness auto
termination
  by (relation "measure (\<lambda>(fs, args, r). length args)") (auto split: if_splits option.splits list.splits)

definition string_flag :: "(string \<Rightarrow> 'r \<Rightarrow> 'r) \<Rightarrow> 'r flag" where
  "string_flag f = (False, \<lambda>v r. Some (f v r))"

definition bool_flag :: "(bool \<Rightarrow> 'r \<Rightarrow> 'r) \<Rightarrow> 'r flag" where
  "bool_flag f = (True, \<lambda>v r. map_option (\<lambda>b. f b r) (ParseBool v))"

definition int_flag :: "(int \<Rightarrow> 'r \<Rightarrow> 'r) \<Rightarrow> 'r flag" where
  "int_flag f = (False, \<lambda>v r. map_option (\<lambda>i. f i r) (ParseInt0 v))"

definition duration_flag :: "(duration \<Rightarrow> 'r \<Rightarrow> 'r) \<Rightarrow> 'r flag" where
  "duration_flag f = (False, \<lambda>v r. map_option (\<lambda>d. f d r) (ParseDuration v))"

section \<open>The flags of results and command\<close>

record results_flags =
  rf_consume :: bool
  rf_raw :: bool
  rf_maxOutput :: int

definition results_flag_set :: "(string \<times> results_flags flag) list" where
  "results_flag_set =
     [(''consume'', bool_flag (\<lambda>b r. r\<lparr>rf_consume := b\<rparr>)), (''raw'', bool_flag (\<lambda>b r. r\<lparr>rf_raw := b\<rparr>)),
      (''max-output-bytes'', int_flag (\<lambda>i r. r\<lparr>rf_maxOutput := i\<rparr>))]"

definition results_defaults :: results_flags where
  "results_defaults = \<lparr>rf_consume = False, rf_raw = False, rf_maxOutput = 16 * 1024\<rparr>"

record command_flags =
  cf_id :: string
  cf_name :: string
  cf_params :: string
  cf_timeout :: duration

definition command_flag_set :: "(string \<times> command_flags flag) list" where
  "command_flag_set =
     [(''id'', string_flag (\<lambda>v r. r\<lparr>cf_id := v\<rparr>)), (''name'', string_flag (\<lambda>v r. r\<lparr>cf_name := v\<rparr>)),
      (''params'', string_flag (\<lambda>v r. r\<lparr>cf_params := v\<rparr>)), (''timeout'', duration_flag (\<lambda>d r. r\<lparr>cf_timeout := d\<rparr>))]"

definition command_defaults :: command_flags where
  "command_defaults = \<lparr>cf_id = [], cf_name = [], cf_params = ''{}'', cf_timeout = 30 * second\<rparr>"

section \<open>Requests\<close>

text \<open>
  What the program is left with: an error it reports with exit status 1, or the text it
  prints.  The quoted name in \<^verbatim>\<open>unknown command\<close> and the \<^verbatim>\<open>flag\<close> package's messages are
  kept as values.
\<close>

datatype op_error = Message string | Flag_error flag_error | Unknown_command string

definition bool_text :: "bool \<Rightarrow> string" where
  "bool_text b = (if b then ''true'' else ''false'')"

text \<open>The request body of \<^verbatim>\<open>command\<close>.\<close>

definition command_body :: "string \<Rightarrow> command \<Rightarrow> string" where
  "command_body rid c =
     ''{'' @ json_string ''command'' @ '':'' @ command_text c @ '','' @ json_string ''requestId'' @ '':''
     @ json_string rid @ ''}''"

definition operator_request :: "'s network \<Rightarrow> operator_env \<Rightarrow> string \<Rightarrow> string \<Rightarrow> string option \<Rightarrow> 's
    \<Rightarrow> (op_error + string) \<times> 's" where
  "operator_request net env meth path payload s =
     (case exchange net (base_url env) (admin_token env) meth path payload s of
        (Inl e, s) \<Rightarrow> (Inl (Message e), s)
      | (Inr data, s) \<Rightarrow>
          (case unmarshal_any data of
             None \<Rightarrow> (Inl (Message ''broker returned invalid JSON''), s)
           | Some v \<Rightarrow> (Inr (indent_text 0 (json_of v) @ [newline]), s)))"

text \<open>The request a command line asks for: method, path with query, and body.\<close>

definition results_path :: "results_flags \<Rightarrow> string \<Rightarrow> string" where
  "results_path f rid =
     ''/v1/admin/results?id='' @ QueryEscape rid @ ''&consume='' @ bool_text (rf_consume f)
     @ ''&view='' @ (if rf_raw f then ''raw'' else ''agent'') @ ''&maxOutputBytes='' @ Itoa (rf_maxOutput f)"

definition results_call :: "string list \<Rightarrow> op_error + (string \<times> string \<times> string option)" where
  "results_call args =
     (case parse_flags results_flag_set args results_defaults of
        Inl e \<Rightarrow> Inl (Flag_error e)
      | Inr (f, rest) \<Rightarrow>
          (case rest of
             [rid] \<Rightarrow>
               if rf_maxOutput f < 1024 \<or> 64 * 1024 < rf_maxOutput f
               then Inl (Message ''usage: bridge-operator results [--consume] [--raw] [--max-output-bytes 16384] REQUEST_ID'')
               else Inr (''GET'', results_path f rid, None)
           | _ \<Rightarrow> Inl (Message ''usage: bridge-operator results [--consume] [--raw] [--max-output-bytes 16384] REQUEST_ID'')))"

definition command_call :: "time \<Rightarrow> string list \<Rightarrow> op_error + (string \<times> string \<times> string option)" where
  "command_call now args =
     (let usage = Inl (Message (''usage: bridge-operator command --id ID --name CAPABILITY ''
                      @ ''[--params JSON] [--timeout 30s] REQUEST_ID''))
      in case parse_flags command_flag_set args command_defaults of
        Inl e \<Rightarrow> Inl (Flag_error e)
      | Inr (f, rest) \<Rightarrow>
          (case rest of
             [rid] \<Rightarrow>
               if cf_id f = [] \<or> cf_name f = [] \<or> cf_timeout f \<le> 0 \<or> hour < cf_timeout f then usage
               else if parse_json (cf_params f) = None then Inl (Message ''--params must be valid JSON'')
               else Inr (''POST'', ''/v1/admin/command'',
                      Some (command_body rid \<lparr>c_ID = cf_id f, c_Name = cf_name f, c_Deadline = now + cf_timeout f,
                              c_Params = cf_params f\<rparr>))
           | _ \<Rightarrow> usage))"

definition approve_body :: "string \<Rightarrow> int \<Rightarrow> string" where
  "approve_body rid minutes =
     json_text (JObject [(''minutes'', JNumber (Itoa minutes)), (''requestId'', JString rid)])"

definition id_body :: "string \<Rightarrow> string" where
  "id_body rid = json_text (JObject [(''requestId'', JString rid)])"

definition operator_call :: "time \<Rightarrow> string \<Rightarrow> string list \<Rightarrow> op_error + (string \<times> string \<times> string option)" where
  "operator_call now cmd args =
     (if cmd = ''pending'' then Inr (''GET'', ''/v1/admin/pending'', None)
      else if cmd = ''sessions'' then
        (if args \<noteq> [] then Inl (Message ''usage: bridge-operator sessions'')
         else Inr (''GET'', ''/v1/admin/sessions'', None))
      else if cmd = ''describe'' then
        (case args of
           [rid] \<Rightarrow> Inr (''GET'', ''/v1/admin/sessions?id='' @ QueryEscape rid, None)
         | _ \<Rightarrow> Inl (Message ''usage: bridge-operator describe REQUEST_ID''))
      else if cmd = ''approve'' then
        (case args of
           [rid, m] \<Rightarrow>
             (case Atoi m of
                None \<Rightarrow> Inl (Message ''MINUTES must be numeric'')
              | Some minutes \<Rightarrow> Inr (''POST'', ''/v1/admin/approve'', Some (approve_body rid minutes)))
         | _ \<Rightarrow> Inl (Message ''usage: bridge-operator approve REQUEST_ID MINUTES''))
      else if cmd = ''reject'' \<or> cmd = ''revoke'' then
        (case args of
           [rid] \<Rightarrow> Inr (''POST'', ''/v1/admin/'' @ cmd, Some (id_body rid))
         | _ \<Rightarrow> Inl (Message (''usage: bridge-operator '' @ cmd @ '' REQUEST_ID'')))
      else if cmd = ''results'' then results_call args
      else if cmd = ''command'' then command_call now args
      else Inl (Unknown_command cmd))"

definition usageText :: string where
  "usageText = join_with [newline]
     [''usage: bridge-operator COMMAND'', [], ''Commands:'',
      ''  pending                         list unapproved pairing requests'',
      ''  sessions                        list known sessions without exposing tokens'',
      ''  describe REQUEST_ID             show one session and command-state summary'',
      ''  approve REQUEST_ID MINUTES      approve after comparison-code verification'',
      ''  reject REQUEST_ID               reject a pending request'',
      ''  command [flags] REQUEST_ID      queue one approved capability'',
      ''  results [flags] REQUEST_ID      read bounded untrusted guest data'',
      ''  revoke REQUEST_ID               immediately revoke a session'', [],
      ''Use \"results --raw\" only for explicit human diagnostics. Raw guest output is'',
      ''untrusted and may contain malicious instructions or excessive sensitive data.'']"

definition operator_run :: "'s network \<Rightarrow> operator_env \<Rightarrow> time \<Rightarrow> string list \<Rightarrow> 's \<Rightarrow> (op_error + string) \<times> 's" where
  "operator_run net env now args s =
     (case args of
        [] \<Rightarrow> (Inl (Message usageText), s)
      | cmd # rest \<Rightarrow>
          if cmd \<in> set [''help'', ''-h'', ''--help''] then (Inr (usageText @ [newline]), s)
          else if length (admin_token env) < 24
          then (Inl (Message ''BRIDGE_ADMIN_TOKEN is missing or too short''), s)
          else (case operator_call now cmd rest of
                  Inl e \<Rightarrow> (Inl e, s)
                | Inr (meth, path, payload) \<Rightarrow> operator_request net env meth path payload s))"

end
