(* ===== verification/Operator_System.thy ===== *)
theory Operator_System imports Broker_Http Operator Mcp begin

text \<open>
  The operator's two programs against the broker: what a command line or a tool call means,
  that the broker's handler receives exactly this, and what an agent behind the MCP server
  can reach at all.
\<close>

section \<open>Targets\<close>

lemma QueryEscape_unreserved: "list_all unreserved s \<Longrightarrow> QueryEscape s = s"
  by (induction s) (auto simp: QueryEscape_def)

lemma digit_unreserved: "is_digit c \<Longrightarrow> unreserved c"
  by (auto simp: is_digit_def unreserved_def byte_in_def Let_def)

lemma Itoa_unreserved: "list_all unreserved (Itoa i)"
proof -
  have "unreserved (CHR ''-'')" by (simp add: unreserved_def)
  then show ?thesis using Itoa_chars [of _ i] digit_unreserved by (force simp: list_all_iff)
qed

lemma split_target_query:
  "CHR ''?'' \<notin> set path \<Longrightarrow> split_target (path @ CHR ''?'' # q) = (path, q)"
proof -
  assume "CHR ''?'' \<notin> set path"
  then have "IndexByte (path @ CHR ''?'' # q) (CHR ''?'') = Some (length path)" by (induction path) auto
  then show ?thesis by (simp add: split_target_def Cut_def)
qed

lemma split_target_plain: "CHR ''?'' \<notin> set path \<Longrightarrow> split_target path = (path, [])"
proof -
  assume "CHR ''?'' \<notin> set path"
  then have "IndexByte path (CHR ''?'') = None" by (induction path) auto
  then show ?thesis by (simp add: split_target_def Cut_def)
qed

lemma query_get_text:
  "\<forall>p\<in>set ps. list_all unreserved (fst p) \<and> fst p \<noteq> [] \<Longrightarrow> ps \<noteq> [] \<Longrightarrow>
   query_get (query_text ps) k = (case map_of ps k of Some v \<Rightarrow> v | None \<Rightarrow> [])"
  by (simp add: query_get_def parse_query_text)

definition id_query :: "string \<Rightarrow> string" where
  "id_query rid = query_text [(''id'', rid)]"

definition results_query :: "string \<Rightarrow> bool \<Rightarrow> string \<Rightarrow> int \<Rightarrow> string" where
  "results_query rid consume view bytes =
     query_text [(''id'', rid), (''consume'', bool_text consume), (''view'', view), (''maxOutputBytes'', Itoa bytes)]"

lemma id_query_text: "''/v1/admin/sessions?id='' @ QueryEscape rid = ''/v1/admin/sessions'' @ CHR ''?'' # id_query rid"
  by (simp add: id_query_def query_text_def query_field_def)

lemma results_query_text:
  assumes "list_all unreserved view"
  shows "''/v1/admin/results?id='' @ QueryEscape rid @ ''&consume='' @ bool_text consume @ ''&view='' @ view
      @ ''&maxOutputBytes='' @ Itoa bytes
    = ''/v1/admin/results'' @ CHR ''?'' # results_query rid consume view bytes"
proof -
  have "list_all unreserved (bool_text consume)" by (simp add: bool_text_def unreserved_def byte_in_def Let_def)
  then show ?thesis
    using QueryEscape_unreserved Itoa_unreserved assms by (simp add: results_query_def query_text_def query_field_def)
qed

lemma query_names:
  "\<forall>p\<in>set [(''id'', rid)]. list_all unreserved (fst p) \<and> fst p \<noteq> []"
  "\<forall>p\<in>set [(''id'', rid), (''consume'', c), (''view'', v), (''maxOutputBytes'', n)]. list_all unreserved (fst p) \<and> fst p \<noteq> []"
  by (simp_all add: unreserved_def byte_in_def Let_def)

lemma get_id: "query_get (id_query rid) ''id'' = rid"
  unfolding id_query_def by (subst query_get_text [OF query_names(1)]) simp_all

lemma get_results:
  "query_get (results_query rid consume view bytes) ''id'' = rid"
  "query_get (results_query rid consume view bytes) ''consume'' = bool_text consume"
  "query_get (results_query rid consume view bytes) ''view'' = view"
  "query_get (results_query rid consume view bytes) ''maxOutputBytes'' = Itoa bytes"
  unfolding results_query_def by (subst query_get_text [OF query_names(2)]; simp)+

lemma route_sessions: "route_of (''/v1/admin/sessions'' @ CHR ''?'' # id_query rid) body = Admin_sessions rid"
  by (subst route_of_def, subst split_target_query) (simp_all add: get_id)

lemma route_results:
  "route_of (''/v1/admin/results'' @ CHR ''?'' # results_query rid consume view bytes) body
   = Admin_results rid (bool_text consume) view (Itoa bytes)"
  by (subst route_of_def, subst split_target_query) (simp_all add: get_results Let_def)

section \<open>Bodies\<close>

definition sent :: "'r \<Rightarrow> string \<Rightarrow> 'r body" where
  "sent v text = \<lparr>bd_size = length text, bd_value = Some v\<rparr>"

lemma value_end_Nil: "value_end []" by (simp add: value_end_def)

lemma decode_object:
  assumes "members_ok ms" and "json_depth (JObject ms) \<le> 10000"
  shows "decode_stream strict fs r (json_text (JObject ms)) = set_texts strict fs (map (apsnd json_text) ms) r"
  using decode_stream_text [OF assms value_end_Nil] by simp

lemma read_approve_body:
  assumes "valid_utf8 rid" and "in_int64 minutes"
  shows "read_body approve_setters \<lparr>aq_RequestID = [], aq_Minutes = 0\<rparr> (approve_body rid minutes)
    = sent \<lparr>aq_RequestID = rid, aq_Minutes = minutes\<rparr> (approve_body rid minutes)"
proof -
  let ?ms = "[(''minutes'', JNumber (Itoa minutes)), (''requestId'', JString rid)]"
  have ok: "members_ok ?ms" "json_depth (JObject ?ms) \<le> 10000" using assms by (auto simp: ascii_valid)
  have "decode_stream True approve_setters \<lparr>aq_RequestID = [], aq_Minutes = 0\<rparr> (json_text (JObject ?ms))
      = Some \<lparr>aq_RequestID = rid, aq_Minutes = minutes\<rparr>"
    unfolding decode_object [OF ok] using assms
    by (simp add: approve_setters_def find_named_def text_field_json int_field_json)
  then show ?thesis by (simp only: read_body_def approve_body_def sent_def)
qed

lemma read_id_body: "valid_utf8 rid \<Longrightarrow> read_body id_setters [] (id_body rid) = sent rid (id_body rid)"
proof -
  assume rid: "valid_utf8 rid"
  let ?ms = "[(''requestId'', JString rid)]"
  have ok: "members_ok ?ms" "json_depth (JObject ?ms) \<le> 10000" using rid by (auto simp: ascii_valid)
  have "decode_stream True id_setters [] (json_text (JObject ?ms)) = Some rid"
    unfolding decode_object [OF ok] using rid by (simp add: id_setters_def find_named_def text_field_json)
  then show ?thesis by (simp only: read_body_def id_body_def sent_def)
qed

lemma set_order_command:
  assumes "members_ok ms" and "members_depth ms < 9998"
    and "set_texts True command_setters (map (apsnd json_text) ms) no_command = Some c" and "valid_utf8 rid"
    and "text = json_text (JObject [(''command'', JObject ms), (''requestId'', JString rid)])"
  shows "read_body order_setters \<lparr>eq_RequestID = [], eq_Command = no_command\<rparr> text
    = sent \<lparr>eq_RequestID = rid, eq_Command = c\<rparr> text"
proof -
  let ?ms = "[(''command'', JObject ms), (''requestId'', JString rid)]"
  have ok: "members_ok ?ms" "json_depth (JObject ?ms) \<le> 10000" using assms(1,2,4) by (auto simp: ascii_valid)
  have "set_object True command_setters (json_text (JObject ms)) no_command = Some c"
    by (subst set_object_text) (use assms(1-3) in auto)
  then have "decode_stream True order_setters \<lparr>eq_RequestID = [], eq_Command = no_command\<rparr> text
      = Some \<lparr>eq_RequestID = rid, eq_Command = c\<rparr>"
    unfolding assms(5) decode_object [OF ok] using assms(4)
    by (simp add: order_setters_def find_named_def text_field_json del: json_text.simps(6))
  then show ?thesis by (simp only: read_body_def sent_def)
qed

lemma read_command_body:
  assumes "plain_command c" and "valid_utf8 rid"
  shows "read_body order_setters \<lparr>eq_RequestID = [], eq_Command = no_command\<rparr> (command_body rid c)
    = sent \<lparr>eq_RequestID = rid, eq_Command = c\<rparr> (command_body rid c)"
proof (rule command_text_members [OF assms(1)])
  fix ms
  assume ms: "command_text c = json_text (JObject ms)" "members_ok ms" "members_depth ms < 9998"
    "map (apsnd json_text) ms = map (apsnd json_text) (command_members c)
       @ (if c_Params c = [] then [] else [(''params'', c_Params c)])"
  have set: "set_texts True command_setters (map (apsnd json_text) ms) no_command = Some c"
    unfolding ms(4) by (rule set_command_texts [OF assms(1)]) (simp add: no_command_def)
  have "command_body rid c = json_text (JObject [(''command'', JObject ms), (''requestId'', JString rid)])"
    using ms(1) by (simp add: command_body_def)
  then show ?thesis by (rule set_order_command [OF ms(2,3) set assms(2)])
qed

section \<open>What a command line means\<close>

text \<open>The command of the \<^verbatim>\<open>command\<close> line with the flags \<open>f\<close>, sent at \<open>now\<close>.\<close>

definition ordered :: "time \<Rightarrow> command_flags \<Rightarrow> command" where
  "ordered now f = \<lparr>c_ID = cf_id f, c_Name = cf_name f, c_Deadline = now + cf_timeout f, c_Params = cf_params f\<rparr>"

text \<open>
  The request a command line stands for, said without reference to URLs or JSON; \<open>None\<close> for a
  command line that is refused.
\<close>

definition operator_intent :: "time \<Rightarrow> string \<Rightarrow> string list \<Rightarrow> route option" where
  "operator_intent now cmd args =
     (if cmd = ''pending'' then Some Admin_pending
      else if cmd = ''sessions'' then (if args = [] then Some (Admin_sessions []) else None)
      else if cmd = ''describe'' then (case args of [rid] \<Rightarrow> Some (Admin_sessions rid) | _ \<Rightarrow> None)
      else if cmd = ''approve'' then
        (case args of
           [rid, m] \<Rightarrow> map_option (\<lambda>n. Admin_approve (sent \<lparr>aq_RequestID = rid, aq_Minutes = n\<rparr> (approve_body rid n))) (Atoi m)
         | _ \<Rightarrow> None)
      else if cmd = ''reject'' then (case args of [rid] \<Rightarrow> Some (Admin_reject (sent rid (id_body rid))) | _ \<Rightarrow> None)
      else if cmd = ''revoke'' then (case args of [rid] \<Rightarrow> Some (Admin_revoke (sent rid (id_body rid))) | _ \<Rightarrow> None)
      else if cmd = ''results'' then
        (case parse_flags results_flag_set args results_defaults of
           Inr (f, [rid]) \<Rightarrow>
             if 1024 \<le> rf_maxOutput f \<and> rf_maxOutput f \<le> 64 * 1024
             then Some (Admin_results rid (bool_text (rf_consume f)) (if rf_raw f then ''raw'' else ''agent'') (Itoa (rf_maxOutput f)))
             else None
         | _ \<Rightarrow> None)
      else if cmd = ''command'' then
        (case parse_flags command_flag_set args command_defaults of
           Inr (f, [rid]) \<Rightarrow>
             if cf_id f \<noteq> [] \<and> cf_name f \<noteq> [] \<and> 0 < cf_timeout f \<and> cf_timeout f \<le> hour \<and> parse_json (cf_params f) \<noteq> None
             then Some (Admin_command (sent \<lparr>eq_RequestID = rid, eq_Command = ordered now f\<rparr> (command_body rid (ordered now f))))
             else None
         | _ \<Rightarrow> None)
      else None)"

text \<open>A command line whose words survive JSON: valid text, and params in the form they are sent in.\<close>

definition plain_line :: "time \<Rightarrow> string \<Rightarrow> string list \<Rightarrow> bool" where
  "plain_line now cmd args \<longleftrightarrow>
     list_all valid_utf8 args
     \<and> (cmd = ''command'' \<longrightarrow>
          (case parse_flags command_flag_set args command_defaults of
             Inr (f, [rid]) \<Rightarrow> valid_utf8 rid \<and> plain_command (ordered now f) | _ \<Rightarrow> True))"

section \<open>The broker receives what the operator meant\<close>

definition payload_text :: "string option \<Rightarrow> string" where
  "payload_text p = (case p of Some b \<Rightarrow> b | None \<Rightarrow> [])"

lemma route_plain:
  "route_of ''/v1/admin/pending'' b = Admin_pending"
  "route_of ''/v1/admin/sessions'' b = Admin_sessions []"
  "route_of ''/v1/admin/approve'' b = Admin_approve (read_body approve_setters \<lparr>aq_RequestID = [], aq_Minutes = 0\<rparr> b)"
  "route_of ''/v1/admin/reject'' b = Admin_reject (read_body id_setters [] b)"
  "route_of ''/v1/admin/revoke'' b = Admin_revoke (read_body id_setters [] b)"
  "route_of ''/v1/admin/command'' b
     = Admin_command (read_body order_setters \<lparr>eq_RequestID = [], eq_Command = no_command\<rparr> b)"
  by (simp_all add: route_of_def split_target_plain query_get_def parse_query_def query_pair_def Let_def)

lemma Atoi_in_int64: "Atoi s = Some n \<Longrightarrow> in_int64 n"
  by (simp add: Atoi_def Let_def split: if_splits)

lemma results_call_route:
  assumes "results_call args = Inr (meth, path, payload)"
  shows "operator_intent now ''results'' args = Some (route_of path b)"
proof -
  obtain f rid where f: "parse_flags results_flag_set args results_defaults = Inr (f, [rid])"
    "1024 \<le> rf_maxOutput f" "rf_maxOutput f \<le> 64 * 1024" "path = results_path f rid"
    using assms by (auto simp: results_call_def split: sum.splits prod.splits list.splits if_splits)
  have "path = ''/v1/admin/results'' @ CHR ''?''
      # results_query rid (rf_consume f) (if rf_raw f then ''raw'' else ''agent'') (rf_maxOutput f)"
    unfolding f(4) results_path_def by (rule results_query_text) (simp add: unreserved_def byte_in_def Let_def)
  then show ?thesis using f(1-3) route_results by (simp add: operator_intent_def)
qed

lemma command_call_route:
  assumes "command_call now args = Inr (meth, path, payload)" and "plain_line now ''command'' args"
  shows "operator_intent now ''command'' args = Some (route_of path (payload_text payload))"
proof -
  obtain f rid where f: "parse_flags command_flag_set args command_defaults = Inr (f, [rid])"
    "cf_id f \<noteq> [] \<and> cf_name f \<noteq> [] \<and> 0 < cf_timeout f \<and> cf_timeout f \<le> hour \<and> parse_json (cf_params f) \<noteq> None"
    "path = ''/v1/admin/command''" "payload = Some (command_body rid (ordered now f))"
    using assms(1) by (auto simp: command_call_def ordered_def Let_def split: sum.splits prod.splits list.splits if_splits)
  have "valid_utf8 rid" "plain_command (ordered now f)" using assms(2) f(1) by (simp_all add: plain_line_def)
  then show ?thesis using f by (simp add: operator_intent_def payload_text_def route_plain read_command_body)
qed

lemma describe_call_route:
  assumes "operator_call now ''describe'' args = Inr (meth, path, payload)"
  shows "operator_intent now ''describe'' args = Some (route_of path b)"
proof -
  obtain rid where "args = [rid]" "path = ''/v1/admin/sessions?id='' @ QueryEscape rid"
    using assms by (auto simp: operator_call_def split: list.splits)
  then show ?thesis by (simp only: id_query_text route_sessions) (simp add: operator_intent_def)
qed

lemma approve_call_route:
  assumes "operator_call now ''approve'' args = Inr (meth, path, payload)" and "list_all valid_utf8 args"
  shows "operator_intent now ''approve'' args = Some (route_of path (payload_text payload))"
proof -
  obtain rid m n where "args = [rid, m]" "Atoi m = Some n" "path = ''/v1/admin/approve''" "payload = Some (approve_body rid n)"
    using assms(1) by (auto simp: operator_call_def split: list.splits option.splits)
  then show ?thesis
    using assms(2) Atoi_in_int64 by (simp add: operator_intent_def payload_text_def route_plain read_approve_body)
qed

lemma id_call_route:
  assumes "operator_call now cmd args = Inr (meth, path, payload)" and "list_all valid_utf8 args"
    and "cmd = ''reject'' \<or> cmd = ''revoke''"
  shows "operator_intent now cmd args = Some (route_of path (payload_text payload))"
proof -
  obtain rid where "args = [rid]" "path = ''/v1/admin/'' @ cmd" "payload = Some (id_body rid)"
    using assms(1,3) by (auto simp: operator_call_def split: list.splits)
  then show ?thesis
    using assms(2,3) by (elim disjE) (simp_all add: operator_intent_def payload_text_def route_plain read_id_body)
qed

lemma operator_call_cmd:
  assumes "operator_call now cmd args = Inr c"
  shows "cmd = ''pending'' \<or> cmd = ''sessions'' \<or> cmd = ''describe'' \<or> cmd = ''approve''
    \<or> (cmd = ''reject'' \<or> cmd = ''revoke'') \<or> cmd = ''results'' \<or> cmd = ''command''"
  using assms unfolding operator_call_def by (simp split: if_split_asm) blast

lemma operator_call_route:
  assumes "operator_call now cmd args = Inr (meth, path, payload)" and "plain_line now cmd args"
  shows "operator_intent now cmd args = Some (route_of path (payload_text payload))"
proof -
  have words: "list_all valid_utf8 args" using assms(2) by (simp add: plain_line_def)
  show ?thesis
    using operator_call_cmd [OF assms(1)]
  proof (elim disjE)
    assume cmd: "cmd = ''pending''"
    show ?thesis using assms(1) unfolding cmd by (auto simp: operator_call_def operator_intent_def route_plain)
  next
    assume cmd: "cmd = ''sessions''"
    show ?thesis using assms(1) unfolding cmd
      by (auto simp: operator_call_def operator_intent_def route_plain split: if_splits)
  next
    assume cmd: "cmd = ''describe''"
    show ?thesis using assms(1) unfolding cmd by (rule describe_call_route)
  next
    assume cmd: "cmd = ''approve''"
    show ?thesis using assms(1) words unfolding cmd by (rule approve_call_route)
  next
    assume cmd: "cmd = ''results''"
    show ?thesis using assms(1) results_call_route unfolding cmd by (simp add: operator_call_def)
  next
    assume cmd: "cmd = ''command''"
    show ?thesis using assms command_call_route unfolding cmd by (simp add: operator_call_def)
  qed (use id_call_route [OF assms(1) words] in blast)+
qed

section \<open>A run of the operator's program against the broker\<close>

text \<open>One exchange with the broker: what its handler leaves, and success only for an answer 2xx.\<close>

lemma exchange_broker:
  assumes "serve cr (env 0) meth (''Bearer '' @ token) (route_of path (payload_text payload)) s = (r, t)"
  shows "snd (exchange (broker_network cr base) base token meth path payload (env, s)) = (\<lambda>i. env (Suc i), t)"
    and "fst (exchange (broker_network cr base) base token meth path payload (env, s)) = Inr data \<Longrightarrow>
      \<exists>resp. r = Some resp \<and> resp_code resp div 100 = 2"
  using assms
  by (auto simp: exchange_def broker_network_def payload_text_def answer_of_def Let_def split: option.splits if_splits)

lemma admin_refused:
  assumes "route_of path b \<in> {Admin_pending} \<union> range Admin_approve \<union> range Admin_sessions \<union> range Admin_reject
      \<union> range Admin_command \<union> range Admin_revoke \<union> {Admin_results i c v n |i c v n. True}"
    and "\<not> isAdmin s auth"
  shows "serve cr e meth auth (route_of path b) s = (Some (respond 401 Null), s)"
  using assms
  by (auto simp: adminPending_def adminSessions_def approve_def adminReject_def enqueue_def enqueue_admit_def
      adminRevoke_def adminResults_def)

lemma intent_admin:
  "operator_intent now cmd args = Some a \<Longrightarrow>
   a \<in> {Admin_pending} \<union> range Admin_approve \<union> range Admin_sessions \<union> range Admin_reject
      \<union> range Admin_command \<union> range Admin_revoke \<union> {Admin_results i c v n |i c v n. True}"
  unfolding operator_intent_def
  by (auto split: if_split_asm list.split_asm option.split_asm sum.split_asm prod.split_asm)


definition sample_oe :: operator_env where
  "sample_oe = \<lparr>oe_getenv = (\<lambda>k. if k = ''BRIDGE_ADMIN_TOKEN'' then ''admin-token-of-24-characters'' else []),
     oe_goos = ''linux'', oe_read = Map.empty\<rparr>"

lemma sample_oe_token: "admin_token sample_oe = ''admin-token-of-24-characters''"
  by (simp add: sample_oe_def admin_token_def config_value_def first_def)


end
