(* ===== verification/Mcp_System.thy ===== *)
theory Mcp_System imports Operator_System begin

text \<open>
  The MCP server against the broker: what an agent behind it can reach at all, whatever it
  sends; that its tools reach the broker's handlers with the values of their arguments; and that
  it answers requests one by one, in order.
\<close>

section \<open>The requests an agent can cause\<close>

text \<open>The body of a command: member names in lower case, sorted.\<close>

definition agent_command_body :: "string \<Rightarrow> string \<Rightarrow> string \<Rightarrow> time \<Rightarrow> (string \<times> any) list \<Rightarrow> string" where
  "agent_command_body rid cid name deadline params =
     json_text (JObject
       [(''command'', JObject
           [(''deadline'', JString (rfc3339_nano deadline)), (''id'', JString cid), (''name'', JString name),
            (''params'', json_of (Map_value params))]),
        (''requestId'', JString rid)])"

definition agent_call :: "time \<Rightarrow> call \<Rightarrow> bool" where
  "agent_call now c \<longleftrightarrow>
     (\<exists>path. c = (''GET'', path, None)
        \<and> (route_of path [] = Admin_pending \<or> (\<exists>rid. route_of path [] = Admin_sessions rid)
           \<or> (\<exists>rid consume n. route_of path [] = Admin_results rid consume ''agent'' (Itoa n) \<and> rid \<noteq> []
                \<and> 1024 \<le> n \<and> n \<le> 64 * 1024)))
     \<or> (\<exists>rid minutes. c = (''POST'', ''/v1/admin/approve'', Some (approve_body rid minutes)) \<and> rid \<noteq> []
          \<and> 1 \<le> minutes \<and> minutes \<le> 1440)
     \<or> (\<exists>rid path. c = (''POST'', path, Some (id_body rid)) \<and> (path = ''/v1/admin/reject'' \<or> path = ''/v1/admin/revoke'')
          \<and> rid \<noteq> [])
     \<or> (\<exists>rid cid name t params. c = (''POST'', ''/v1/admin/command'', Some (agent_command_body rid cid name (now + t * second) params))
          \<and> rid \<noteq> [] \<and> cid \<noteq> [] \<and> name \<in> set mcp_capabilities \<and> 1 \<le> t \<and> t \<le> 3600)"

lemma agent_callI:
  "route_of path [] = Admin_pending \<Longrightarrow> agent_call now (''GET'', path, None)"
  "route_of path [] = Admin_sessions rid \<Longrightarrow> agent_call now (''GET'', path, None)"
  "route_of path [] = Admin_results rid consume ''agent'' (Itoa n) \<Longrightarrow> rid \<noteq> [] \<Longrightarrow> 1024 \<le> n \<Longrightarrow> n \<le> 64 * 1024 \<Longrightarrow>
     agent_call now (''GET'', path, None)"
  "rid \<noteq> [] \<Longrightarrow> 1 \<le> m \<Longrightarrow> m \<le> 1440 \<Longrightarrow> agent_call now (''POST'', ''/v1/admin/approve'', Some (approve_body rid m))"
  "rid \<noteq> [] \<Longrightarrow> path = ''/v1/admin/reject'' \<or> path = ''/v1/admin/revoke'' \<Longrightarrow> agent_call now (''POST'', path, Some (id_body rid))"
  "rid \<noteq> [] \<Longrightarrow> cid \<noteq> [] \<Longrightarrow> name \<in> set mcp_capabilities \<Longrightarrow> 1 \<le> t \<Longrightarrow> t \<le> 3600 \<Longrightarrow>
     agent_call now (''POST'', ''/v1/admin/command'', Some (agent_command_body rid cid name (now + t * second) params))"
       apply (unfold agent_call_def)
       apply (rule disjI1, rule exI [of _ path], simp)
      apply (rule disjI1, rule exI [of _ path], simp)
     apply (rule disjI1, rule exI [of _ path], simp, blast)
    apply (rule disjI2, rule disjI1, rule exI [of _ rid], rule exI [of _ m], simp)
   apply (rule disjI2, rule disjI2, rule disjI1, rule exI [of _ rid], rule exI [of _ path], simp)
  apply (rule disjI2, rule disjI2, rule disjI2, rule exI [of _ rid], rule exI [of _ cid], rule exI [of _ name],
      rule exI [of _ t], rule exI [of _ params], simp)
  done

lemma tool_schema_names: "json_strings (json_member ''enum'' (json_member ''name'' (json_member ''properties''
    (t_InputSchema (tools ! 5))))) = mcp_capabilities"
  by (simp add: tools_def object_schema_def mcp_capabilities_def)

lemma allowedCapability_iff: "allowedCapability name \<longleftrightarrow> name \<in> set mcp_capabilities"
proof -
  have "find (\<lambda>t. t_Name t = ''bridge_command'') tools = Some (tools ! 5)" by (simp add: tools_def)
  then show ?thesis using tool_schema_names by (simp add: allowedCapability_def)
qed

lemma approve_call_agent: "approve_call rid args = Inr c \<Longrightarrow> agent_call now c"
  unfolding approve_call_def Let_def approve_body_def [symmetric] not_less
  by (auto simp del: json_text.simps intro: agent_callI(4) split: prod.splits if_splits)

lemma mcp_results_call_agent:
  assumes "mcp_results_call rid args = Inr c"
  shows "agent_call now c"
proof -
  obtain consume n where c: "c = (''GET'', ''/v1/admin/results'' @ CHR ''?'' # results_query rid consume ''agent'' n, None)"
    "rid \<noteq> []" "1024 \<le> n" "n \<le> 64 * 1024"
    using assms results_query_text [of "''agent''" rid]
    by (auto simp: mcp_results_call_def bool_text_def unreserved_def byte_in_def Let_def split: if_splits)
  show ?thesis unfolding c(1) by (rule agent_callI(3) [OF route_results c(2-4)])
qed

definition params_argument :: "arguments \<Rightarrow> (string \<times> any) list" where
  "params_argument args = (case map_of args ''params'' of Some (Map_value ms) \<Rightarrow> ms | _ \<Rightarrow> [])"

lemma mcp_command_call_eq:
  "mcp_command_call now rid args =
     (let cid = text_argument args ''command_id''; name = text_argument args ''name'';
          t = number_or 30 (map_of args ''timeout_seconds'')
      in if rid = [] \<or> cid = [] \<or> name \<notin> set mcp_capabilities
         then Inl (Call_error ''valid request_id, command_id, and capability name are required'')
         else if t < 1 \<or> 3600 < t then Inl (Call_error ''timeout_seconds must be between 1 and 3600'')
         else Inr (''POST'', ''/v1/admin/command'',
                Some (agent_command_body rid cid name (now + t * second) (params_argument args))))"
  by (simp only: mcp_command_call_def Let_def allowedCapability_iff agent_command_body_def params_argument_def)

lemma mcp_command_call_accepts:
  assumes "mcp_command_call now rid args = Inr c"
  obtains t where "c = (''POST'', ''/v1/admin/command'', Some (agent_command_body rid (text_argument args ''command_id'')
        (text_argument args ''name'') (now + t * second) (params_argument args)))"
    "t = number_or 30 (map_of args ''timeout_seconds'')" "rid \<noteq> []" "text_argument args ''command_id'' \<noteq> []"
    "text_argument args ''name'' \<in> set mcp_capabilities" "1 \<le> t" "t \<le> 3600"
  using assms unfolding mcp_command_call_eq Let_def by (simp split: if_split_asm)

lemma mcp_command_call_agent: "mcp_command_call now rid args = Inr c \<Longrightarrow> agent_call now c"
  by (erule mcp_command_call_accepts) (use agent_callI(6) in simp)

lemma tool_call_name:
  assumes "tool_call now name args = Inr c"
  shows "name = ''bridge_list_pending'' \<or> name = ''bridge_list_sessions'' \<or> name = ''bridge_describe_session''
    \<or> name = ''bridge_approve'' \<or> name = ''bridge_reject'' \<or> name = ''bridge_revoke'' \<or> name = ''bridge_results''
    \<or> name = ''bridge_command''"
  using assms unfolding tool_call_def Let_def by (simp split: if_split_asm) blast

lemma tool_call_simps:
  "tool_call now ''bridge_list_pending'' args = Inr (''GET'', ''/v1/admin/pending'', None)"
  "tool_call now ''bridge_list_sessions'' args = Inr (''GET'', ''/v1/admin/sessions'', None)"
  "tool_call now ''bridge_describe_session'' args =
     (if text_argument args ''request_id'' = [] then Inl (Call_error ''request_id is required'')
      else Inr (''GET'', ''/v1/admin/sessions?id='' @ QueryEscape (text_argument args ''request_id''), None))"
  "tool_call now ''bridge_approve'' args = approve_call (text_argument args ''request_id'') args"
  "tool_call now ''bridge_reject'' args =
     (if text_argument args ''request_id'' = [] then Inl (Call_error ''request_id is required'')
      else Inr (''POST'', ''/v1/admin/reject'', Some (id_body (text_argument args ''request_id''))))"
  "tool_call now ''bridge_revoke'' args =
     (if text_argument args ''request_id'' = [] then Inl (Call_error ''request_id is required'')
      else Inr (''POST'', ''/v1/admin/revoke'', Some (id_body (text_argument args ''request_id''))))"
  "tool_call now ''bridge_results'' args = mcp_results_call (text_argument args ''request_id'') args"
  "tool_call now ''bridge_command'' args = mcp_command_call now (text_argument args ''request_id'') args"
  by (simp_all add: tool_call_def Let_def TrimPrefix_def id_body_def)

lemma tool_call_agent:
  assumes "tool_call now name args = Inr c"
  shows "agent_call now c"
  using tool_call_name [OF assms]
proof (elim disjE)
  assume n: "name = ''bridge_list_pending''"
  show ?thesis using assms agent_callI(1) [OF route_plain(1)] unfolding n tool_call_simps by simp
next
  assume n: "name = ''bridge_list_sessions''"
  show ?thesis using assms agent_callI(2) [OF route_plain(2)] unfolding n tool_call_simps by simp
next
  assume n: "name = ''bridge_describe_session''"
  show ?thesis using assms agent_callI(2) [OF route_sessions] unfolding n tool_call_simps id_query_text by (auto split: if_splits)
next
  assume n: "name = ''bridge_approve''"
  show ?thesis using assms approve_call_agent unfolding n tool_call_simps by blast
next
  assume n: "name = ''bridge_reject''"
  show ?thesis using assms agent_callI(5) unfolding n tool_call_simps by (auto split: if_splits)
next
  assume n: "name = ''bridge_revoke''"
  show ?thesis using assms agent_callI(5) unfolding n tool_call_simps by (auto split: if_splits)
next
  assume n: "name = ''bridge_results''"
  show ?thesis using assms mcp_results_call_agent unfolding n tool_call_simps by blast
next
  assume n: "name = ''bridge_command''"
  show ?thesis using assms mcp_command_call_agent unfolding n tool_call_simps by blast
qed

section \<open>Whatever an agent sends\<close>

text \<open>A network that keeps the requests it has seen.\<close>

definition recording :: "'s network \<Rightarrow> (http_request list \<times> 's) network" where
  "recording net q z = (case net q (snd z) of (r, s) \<Rightarrow> (r, (fst z @ [q], s)))"

text \<open>A request in the bounds of \<open>agent_call\<close>, with the server's token, to the configured broker.\<close>

definition agent_request :: "operator_env \<Rightarrow> time \<Rightarrow> http_request \<Rightarrow> bool" where
  "agent_request oe now q \<longleftrightarrow>
     (\<exists>path. hr_URL q = base_url oe @ path \<and> agent_call now (hr_Method q, path, hr_Body q))
     \<and> hr_Authorization q = ''Bearer '' @ admin_token oe"

lemma exchange_recorded:
  "fst (snd (exchange (recording net) base token meth path payload z))
   = fst z @ [\<lparr>hr_Method = meth, hr_URL = base @ path, hr_Authorization = ''Bearer '' @ token, hr_Body = payload\<rparr>]"
  by (auto simp: exchange_def recording_def Let_def split: prod.splits http_reply.splits)

lemma callTool_recorded:
  "set (fst (snd (callTool (recording net) oe now name args z))) \<subseteq> set (fst z) \<union> {q. agent_request oe now q}"
proof (cases "tool_call now name args")
  case (Inr c)
  obtain meth path payload where c: "c = (meth, path, payload)" by (metis prod_cases3)
  have "snd (mcp_request (recording net) oe c z)
      = snd (exchange (recording net) (base_url oe) (admin_token oe) meth path payload z)"
    by (auto simp: mcp_request_def c split: prod.splits sum.splits)
  then show ?thesis
    using tool_call_agent [OF Inr] by (auto simp: callTool_def Inr c exchange_recorded agent_request_def)
qed (simp add: callTool_def)

lemma handle_recorded:
  "set (fst (snd (handle srv (recording net) now q z))) \<subseteq> set (fst z) \<union> {r. agent_request (ms_env srv) now r}"
proof -
  have "snd (handle srv (recording net) now q z) = z
      \<or> (\<exists>name args. snd (handle srv (recording net) now q z) = snd (callTool (recording net) (ms_env srv) now name args z))"
    unfolding handle_def Let_def by (auto split: option.splits prod.splits) (metis snd_conv)
  then show ?thesis using callTool_recorded by fastforce
qed

lemma serve_lines_recorded:
  "set (fst (snd (serve_lines srv (recording net) clock ls z)))
     \<subseteq> set (fst z) \<union> {r. \<exists>i. agent_request (ms_env srv) (clock i) r}"
proof (induction ls arbitrary: clock z)
  case (Cons l ls)
  let ?h = "handle_line srv (recording net) (clock 0) (drop_return l) z"
  have h: "set (fst (snd ?h)) \<subseteq> set (fst z) \<union> {r. \<exists>i. agent_request (ms_env srv) (clock i) r}"
    using handle_recorded [of srv net "clock 0" _ z] by (fastforce simp: handle_line_def split: option.splits)
  have "set (fst (snd (serve_lines srv (recording net) (\<lambda>i. clock (Suc i)) ls (snd ?h))))
      \<subseteq> set (fst (snd ?h)) \<union> {r. \<exists>i. agent_request (ms_env srv) (clock (Suc i)) r}"
    by (rule Cons.IH)
  moreover have "{r. \<exists>i. agent_request (ms_env srv) (clock (Suc i)) r} \<subseteq> {r. \<exists>i. agent_request (ms_env srv) (clock i) r}"
    by blast
  moreover have "snd (serve_lines srv (recording net) clock (l # ls) z)
      = (if max_line \<le> length l then z else snd (serve_lines srv (recording net) (\<lambda>i. clock (Suc i)) ls (snd ?h)))"
    by (simp split: prod.splits)
  ultimately show ?case using h by (simp split: if_splits) blast
qed simp

text \<open>C7 Whatever an agent sends, it stays within what the tools promise: every request the server
  makes, over any input and any answers of the broker, goes to the configured broker with the
  administrator's token and is a listing, one of the decisions on a non-empty request id, an
  approval of 1 to 1440 minutes, a command with one of the 21 capabilities and a deadline at
  most an hour away, or a reading of results in the bounded and sanitised view.  The raw view of
  guest output is out of reach.\<close>

theorem agent_stays_in_bounds:
  assumes "q \<in> set (fst (snd (mcp_run srv (recording net) clock input ([], s))))"
  shows "(\<exists>i. agent_request (ms_env srv) (clock i) q)
    \<and> (\<forall>path rid consume view bytes. hr_URL q = base_url (ms_env srv) @ path \<longrightarrow> hr_Body q = None \<longrightarrow>
          route_of path [] = Admin_results rid consume view bytes \<longrightarrow> view = ''agent'' \<and> rid \<noteq> [])"
proof -
  obtain i where i: "agent_request (ms_env srv) (clock i) q"
    using assms serve_lines_recorded [of srv net clock "input_lines input" "([], s)"] unfolding mcp_run_def
    by (cases "length (admin_token (ms_env srv)) < 24") auto
  have "view = ''agent'' \<and> rid \<noteq> []"
    if "hr_URL q = base_url (ms_env srv) @ path" "hr_Body q = None" "route_of path [] = Admin_results rid consume view bytes"
    for path rid consume view bytes
    using i that unfolding agent_request_def agent_call_def by auto
  then show ?thesis using i by blast
qed

section \<open>One answer for each request, in order\<close>

text \<open>The ids of the answers a line calls for: none for the two notifications, no id for a line that is no request.\<close>

definition expected_ids :: "string \<Rightarrow> json option list" where
  "expected_ids l =
     (case unmarshal rpc_fields no_request (drop_return l) of
        None \<Rightarrow> [None]
      | Some q \<Rightarrow>
          if rq_Method q = ''notifications/initialized'' \<or> rq_Method q = ''notifications/cancelled'' then [] else [rq_ID q])"

definition one_outcome :: "rpc_response \<Rightarrow> bool" where
  "one_outcome r \<longleftrightarrow> (rs_Result r = None) \<noteq> (rs_Error r = None)"

lemma handle_answer:
  "case fst (handle srv net now q s) of
     None \<Rightarrow> rq_Method q = ''notifications/initialized'' \<or> rq_Method q = ''notifications/cancelled''
   | Some r \<Rightarrow> rq_Method q \<noteq> ''notifications/initialized'' \<and> rq_Method q \<noteq> ''notifications/cancelled''
       \<and> rs_ID r = rq_ID q \<and> one_outcome r"
  unfolding handle_def Let_def one_outcome_def
  by (simp split: option.splits prod.splits)

lemma handle_line_answer:
  "case fst (handle_line srv net now (drop_return l) s) of
     None \<Rightarrow> expected_ids l = []
   | Some r \<Rightarrow> expected_ids l = [rs_ID r] \<and> one_outcome r"
proof (cases "unmarshal rpc_fields no_request (drop_return l)")
  case (Some q)
  then show ?thesis
    using handle_answer [where srv = srv and net = net and now = now and q = q and s = s] by (auto simp: handle_line_def expected_ids_def split: option.splits)
qed (simp add: handle_line_def expected_ids_def parse_error_def one_outcome_def)

lemma serve_lines_answers:
  "list_all (\<lambda>l. length l < max_line) ls \<Longrightarrow>
   \<exists>rs t. serve_lines srv net clock ls s = ((rs, None), t) \<and> map rs_ID rs = concat (map expected_ids ls)
     \<and> list_all one_outcome rs"
proof (induction ls arbitrary: clock s)
  case (Cons l ls)
  obtain r u where h: "handle_line srv net (clock 0) (drop_return l) s = (r, u)" by force
  obtain rs t where rest: "serve_lines srv net (\<lambda>i. clock (Suc i)) ls u = ((rs, None), t)"
    "map rs_ID rs = concat (map expected_ids ls)" "list_all one_outcome rs"
    using Cons by fastforce
  have l: "\<not> max_line \<le> length l" using Cons.prems by simp
  show ?case
  proof (cases r)
    case None
    then have "expected_ids l = []" using handle_line_answer [where srv = srv and net = net and now = "clock 0" and l = l and s = s] h by simp
    then show ?thesis using h rest None l by simp
  next
    case (Some x)
    then have "expected_ids l = [rs_ID x] \<and> one_outcome x" using handle_line_answer [where srv = srv and net = net and now = "clock 0" and l = l and s = s] h by simp
    then show ?thesis using h rest Some l by simp
  qed
qed simp

text \<open>C30 The server answers its client line by line: if the token is long enough and no line has
  4 MiB, then whatever the lines hold and whatever the broker does, the run ends without error,
  each request and each unreadable line has exactly one answer, in the order of the input and
  with the id of the request, the two notifications have none, and every answer has either a
  result or an error.\<close>

theorem mcp_answers_in_order:
  assumes "24 \<le> length (admin_token (ms_env srv))" and "list_all (\<lambda>l. length l < max_line) (input_lines input)"
  shows "\<exists>rs t. mcp_run srv net clock input s = ((rs, None), t)
    \<and> map rs_ID rs = concat (map expected_ids (input_lines input)) \<and> list_all one_outcome rs"
  using serve_lines_answers [OF assms(2), of srv net clock s] assms(1) by (simp add: mcp_run_def)

definition sample_srv :: mcp_server where
  "sample_srv = \<lparr>ms_env = sample_oe, ms_quoted = (\<lambda>s. s)\<rparr>"

definition sample_call :: "(string \<times> json) list" where
  "sample_call =
     [(''jsonrpc'', JString ''2.0''), (''id'', JString ''7''), (''method'', JString ''tools/call''),
      (''params'', JObject [(''name'', JString ''bridge_list_pending'')])]"

definition silent :: "unit network" where
  "silent q s = (Failed ''down'', s)"

lemma sample_call_text:
  "json_text (JObject sample_call) = ''{'' @ [quote] @ ''jsonrpc'' @ [quote] @ '':'' @ [quote] @ ''2.0'' @ [quote] @ '',''
     @ [quote] @ ''id'' @ [quote] @ '':'' @ [quote] @ ''7'' @ [quote] @ '','' @ [quote] @ ''method'' @ [quote] @ '':'' @ [quote] @ ''tools/call'' @ [quote] @ '',''
     @ [quote] @ ''params'' @ [quote] @ '':{'' @ [quote] @ ''name'' @ [quote] @ '':'' @ [quote] @ ''bridge_list_pending''
     @ [quote] @ ''}}''"
  by (simp add: sample_call_def json_string_plain plain_char_def html_char_def)

lemma sample_lines: "input_lines (json_text (JObject sample_call)) = [json_text (JObject sample_call)]"
  unfolding sample_call_text by (simp add: input_lines_def)

lemma sample_request_read:
  "unmarshal rpc_fields no_request (drop_return (json_text (JObject sample_call)))
   = Some \<lparr>rq_JSONRPC = ''2.0'', rq_ID = Some (JString ''7''), rq_Method = ''tools/call'',
       rq_Params = Some (JObject [(''name'', JString ''bridge_list_pending'')])\<rparr>"
proof -
  have "drop_return (json_text (JObject sample_call)) = json_text (JObject sample_call)"
    unfolding sample_call_text by (simp add: drop_return_def)
  moreover have "json_ok (JObject sample_call)" "json_depth (JObject sample_call) \<le> 10000"
    by (simp_all add: sample_call_def ascii_valid)
  ultimately show ?thesis
    by (simp add: unmarshal_text del: json_text.simps json_ok.simps)
       (simp add: sample_call_def rpc_fields_def find_field_def no_request_def)
qed

theorem mcp_answers_in_order_witness:
  "\<exists>rs t. mcp_run sample_srv silent (\<lambda>i. 0) (json_text (JObject sample_call)) () = ((rs, None), t) \<and> map rs_ID rs = [Some (JString ''7'')]"
proof -
  have "length (json_text (JObject sample_call)) < max_line" unfolding sample_call_text by (simp add: max_line_def)
  then show ?thesis
    using mcp_answers_in_order [of sample_srv "json_text (JObject sample_call)" silent "\<lambda>i. 0" "()"] sample_request_read
    unfolding sample_lines by (auto simp: expected_ids_def sample_srv_def sample_oe_token)
qed

definition sample_seen :: http_request where
  "sample_seen = \<lparr>hr_Method = ''GET'', hr_URL = base_url sample_oe @ ''/v1/admin/pending'',
     hr_Authorization = ''Bearer '' @ admin_token sample_oe, hr_Body = None\<rparr>"

lemma sample_run_seen:
  "sample_seen \<in> set (fst (snd (mcp_run sample_srv (recording silent) (\<lambda>i. 0) (json_text (JObject sample_call)) ([], ()))))"
proof -
  let ?l = "json_text (JObject sample_call)"
  have short: "\<not> max_line \<le> length ?l" unfolding sample_call_text by (simp add: max_line_def)
  have seen: "fst (snd (exchange (recording silent) (base_url sample_oe) (admin_token sample_oe) ''GET'' ''/v1/admin/pending'' None ([], ())))
      = [sample_seen]"
    by (simp add: exchange_recorded sample_seen_def)
  have "fst (snd (callTool (recording silent) sample_oe 0 ''bridge_list_pending'' [] ([], ()))) = [sample_seen]"
    using seen by (auto simp: callTool_def tool_call_simps mcp_request_def split: prod.splits sum.splits)
  then have "fst (snd (handle_line sample_srv (recording silent) 0 (drop_return ?l) ([], ()))) = [sample_seen]"
    unfolding handle_line_def sample_request_read
    by (auto simp: handle_def call_fields_def find_field_def Let_def sample_srv_def split: prod.splits)
  then show ?thesis
    using short sample_oe_token
    by (auto simp: mcp_run_def sample_lines sample_srv_def [THEN arg_cong, of ms_env] simp del: json_text.simps split: prod.splits)
qed

theorem agent_stays_in_bounds_witness:
  "\<exists>i::nat. agent_request sample_oe 0 sample_seen"
  using agent_stays_in_bounds [OF sample_run_seen] by (simp add: sample_srv_def)

section \<open>The broker receives what the agent asked for\<close>

lemma fold_names: "fold_name ''deadline'' = fold_name ''Deadline''" "fold_name ''id'' = fold_name ''ID''"
  "fold_name ''name'' = fold_name ''Name''" "fold_name ''id'' \<noteq> fold_name ''Name''"
  "fold_name ''deadline'' \<noteq> fold_name ''ID''" "fold_name ''deadline'' \<noteq> fold_name ''Name''" "fold_name ''name'' \<noteq> fold_name ''ID''"
  by (simp_all add: fold_name_def runes_ascii fold_rune_def byte_in_def)

definition agent_order :: "string \<Rightarrow> string \<Rightarrow> time \<Rightarrow> (string \<times> any) list \<Rightarrow> command" where
  "agent_order cid name deadline params =
     \<lparr>c_ID = cid, c_Name = name, c_Deadline = deadline, c_Params = json_text (json_of (Map_value params))\<rparr>"

lemma read_agent_command:
  assumes "valid_utf8 rid" "valid_utf8 cid" "valid_utf8 name" "year_ok deadline" "any_ok (Map_value params)"
    and "json_depth (json_of (Map_value params)) < 9998"
  shows "read_body order_setters \<lparr>eq_RequestID = [], eq_Command = no_command\<rparr> (agent_command_body rid cid name deadline params)
    = sent \<lparr>eq_RequestID = rid, eq_Command = agent_order cid name deadline params\<rparr> (agent_command_body rid cid name deadline params)"
proof -
  define v where "v = json_of (Map_value params)"
  have v: "json_ok v" "json_depth v < 9998" using assms(5,6) json_of_ok(1) by (simp_all add: v_def del: json_of.simps)
  define ms where "ms = [(''deadline'', JString (rfc3339_nano deadline)), (''id'', JString cid), (''name'', JString name), (''params'', v)]"
  have ok: "members_ok ms" "members_depth ms < 9998"
    using assms v by (simp_all add: ms_def ascii_valid)
  have "find_named command_setters ''deadline'' = Some (time_field (\<lambda>t c. c\<lparr>c_Deadline := t\<rparr>))"
    "find_named command_setters ''id'' = Some (text_field (\<lambda>v c. c\<lparr>c_ID := v\<rparr>))"
    "find_named command_setters ''name'' = Some (text_field (\<lambda>v c. c\<lparr>c_Name := v\<rparr>))"
    "find_named command_setters ''params'' = Some (by_text (\<lambda>s c. c\<lparr>c_Params := s\<rparr>))"
    using fold_names by (simp_all add: find_named_def command_setters_def)
  then have "set_texts True command_setters (map (apsnd json_text) ms) no_command = Some (agent_order cid name deadline params)"
    using assms(1-4)
    by (simp add: ms_def no_command_def agent_order_def by_text_def time_field_json text_field_json v_def)
  from set_order_command [OF ok this assms(1)] show ?thesis
    by (simp only: agent_command_body_def ms_def v_def)
qed

text \<open>The request a tool call stands for, in terms of its arguments.\<close>

definition mcp_intent :: "time \<Rightarrow> string \<Rightarrow> arguments \<Rightarrow> route" where
  "mcp_intent now name args =
     (let rid = text_argument args ''request_id''
      in if name = ''bridge_list_pending'' then Admin_pending
         else if name = ''bridge_list_sessions'' then Admin_sessions []
         else if name = ''bridge_describe_session'' then Admin_sessions rid
         else if name = ''bridge_approve'' then
           (let m = fst (number (map_of args ''minutes''))
            in Admin_approve (sent \<lparr>aq_RequestID = rid, aq_Minutes = m\<rparr> (approve_body rid m)))
         else if name = ''bridge_reject'' then Admin_reject (sent rid (id_body rid))
         else if name = ''bridge_revoke'' then Admin_revoke (sent rid (id_body rid))
         else if name = ''bridge_results'' then
           Admin_results rid (bool_text (map_of args ''consume'' = Some (Bool_value True))) ''agent''
             (Itoa (number_or (16 * 1024) (map_of args ''max_output_bytes'')))
         else
           (let cid = text_argument args ''command_id''; cap = text_argument args ''name''; ps = params_argument args;
                d = now + number_or 30 (map_of args ''timeout_seconds'') * second
            in Admin_command (sent \<lparr>eq_RequestID = rid, eq_Command = agent_order cid cap d ps\<rparr> (agent_command_body rid cid cap d ps))))"

definition plain_arguments :: "time \<Rightarrow> arguments \<Rightarrow> bool" where
  "plain_arguments now args \<longleftrightarrow>
     valid_utf8 (text_argument args ''request_id'') \<and> valid_utf8 (text_argument args ''command_id'')
     \<and> (\<forall>t. 1 \<le> t \<and> t \<le> 3600 \<longrightarrow> year_ok (now + t * second))
     \<and> any_ok (Map_value (params_argument args)) \<and> json_depth (json_of (Map_value (params_argument args))) < 9998"

lemma capabilities_ascii: "name \<in> set mcp_capabilities \<Longrightarrow> valid_utf8 name"
  by (auto simp: mcp_capabilities_def ascii_valid)

lemma mcp_approve_call_route:
  assumes "approve_call rid args = Inr (meth, path, payload)" and "valid_utf8 rid"
  shows "route_of path (payload_text payload)
    = Admin_approve (sent \<lparr>aq_RequestID = rid, aq_Minutes = fst (number (map_of args ''minutes''))\<rparr>
        (approve_body rid (fst (number (map_of args ''minutes'')))))"
proof -
  obtain m where m: "m = fst (number (map_of args ''minutes''))" "1 \<le> m" "m \<le> 1440" "path = ''/v1/admin/approve''"
    "payload = Some (approve_body rid m)"
    using assms(1) unfolding approve_call_def Let_def approve_body_def
    by (auto simp del: json_text.simps split: prod.splits if_splits)
  then have "in_int64 m" by (simp add: in_int64_def)
  then show ?thesis using m assms(2) by (simp add: payload_text_def route_plain read_approve_body)
qed

lemma mcp_results_call_route:
  assumes "mcp_results_call rid args = Inr (meth, path, payload)"
  shows "route_of path b = Admin_results rid (bool_text (map_of args ''consume'' = Some (Bool_value True))) ''agent''
    (Itoa (number_or (16 * 1024) (map_of args ''max_output_bytes'')))"
proof -
  let ?n = "number_or (16 * 1024) (map_of args ''max_output_bytes'')"
  let ?c = "case map_of args ''consume'' of Some (Bool_value b) \<Rightarrow> b | _ \<Rightarrow> False"
  have c: "?c = (map_of args ''consume'' = Some (Bool_value True))" by (auto split: option.splits any.splits)
  have "path = ''/v1/admin/results?id='' @ QueryEscape rid @ ''&consume='' @ bool_text ?c @ ''&view='' @ ''agent''
      @ ''&maxOutputBytes='' @ Itoa ?n"
    using assms unfolding mcp_results_call_def Let_def bool_text_def by (auto split: if_splits)
  also have "\<dots> = ''/v1/admin/results'' @ CHR ''?'' # results_query rid ?c ''agent'' ?n"
    by (rule results_query_text) (simp add: unreserved_def byte_in_def Let_def)
  finally show ?thesis using route_results c by simp
qed

lemma mcp_command_call_route:
  assumes "mcp_command_call now (text_argument args ''request_id'') args = Inr (meth, path, payload)" and "plain_arguments now args"
  shows "route_of path (payload_text payload) = mcp_intent now ''bridge_command'' args"
proof (rule mcp_command_call_accepts [OF assms(1)])
  let ?rid = "text_argument args ''request_id''" and ?cid = "text_argument args ''command_id''"
    and ?cap = "text_argument args ''name''" and ?ps = "params_argument args"
  fix t
  assume t: "(meth, path, payload) = (''POST'', ''/v1/admin/command'', Some (agent_command_body ?rid ?cid ?cap (now + t * second) ?ps))"
    "t = number_or 30 (map_of args ''timeout_seconds'')" "?cap \<in> set mcp_capabilities" "1 \<le> t" "t \<le> 3600"
  have "read_body order_setters \<lparr>eq_RequestID = [], eq_Command = no_command\<rparr> (agent_command_body ?rid ?cid ?cap (now + t * second) ?ps)
      = sent \<lparr>eq_RequestID = ?rid, eq_Command = agent_order ?cid ?cap (now + t * second) ?ps\<rparr>
          (agent_command_body ?rid ?cid ?cap (now + t * second) ?ps)"
    by (rule read_agent_command) (use assms(2) capabilities_ascii t in \<open>auto simp: plain_arguments_def\<close>)
  then show ?thesis using t(1,2) by (simp add: payload_text_def route_plain mcp_intent_def Let_def)
qed

lemma tool_call_route:
  assumes "tool_call now name args = Inr (meth, path, payload)" and "plain_arguments now args"
  shows "route_of path (payload_text payload) = mcp_intent now name args"
  using tool_call_name [OF assms(1)]
proof (elim disjE)
  assume n: "name = ''bridge_list_pending''"
  show ?thesis using assms(1) unfolding n tool_call_simps by (auto simp: route_plain mcp_intent_def)
next
  assume n: "name = ''bridge_list_sessions''"
  show ?thesis using assms(1) unfolding n tool_call_simps by (auto simp: route_plain mcp_intent_def)
next
  assume n: "name = ''bridge_describe_session''"
  have p: "path = ''/v1/admin/sessions?id='' @ QueryEscape (text_argument args ''request_id'')"
    using assms(1) unfolding n tool_call_simps by (auto split: if_splits)
  show ?thesis unfolding n p id_query_text route_sessions by (simp add: mcp_intent_def)
next
  assume n: "name = ''bridge_approve''"
  have rid: "valid_utf8 (text_argument args ''request_id'')" using assms(2) by (simp add: plain_arguments_def)
  show ?thesis
    using mcp_approve_call_route [OF _ rid] assms(1) unfolding n tool_call_simps by (simp add: mcp_intent_def Let_def)
next
  assume n: "name = ''bridge_reject''"
  show ?thesis
    using assms unfolding n tool_call_simps
    by (auto simp: payload_text_def route_plain read_id_body plain_arguments_def mcp_intent_def Let_def split: if_splits)
next
  assume n: "name = ''bridge_revoke''"
  show ?thesis
    using assms unfolding n tool_call_simps
    by (auto simp: payload_text_def route_plain read_id_body plain_arguments_def mcp_intent_def Let_def split: if_splits)
next
  assume n: "name = ''bridge_results''"
  show ?thesis
    using mcp_results_call_route assms(1) unfolding n tool_call_simps by (simp add: mcp_intent_def Let_def)
next
  assume n: "name = ''bridge_command''"
  show ?thesis using mcp_command_call_route assms unfolding n tool_call_simps by blast
qed

lemma mcp_request_broker:
  assumes "serve cr (env 0) meth (''Bearer '' @ admin_token oe) (route_of path (payload_text payload)) s = (r, t)"
  shows "snd (mcp_request (broker_network cr (base_url oe)) oe (meth, path, payload) (env, s)) = (\<lambda>i. env (Suc i), t)"
    and "fst (mcp_request (broker_network cr (base_url oe)) oe (meth, path, payload) (env, s)) = Inr x \<Longrightarrow>
      \<exists>resp. r = Some resp \<and> resp_code resp div 100 = 2"
  using exchange_broker(1) [of cr env, OF assms, of "base_url oe"] exchange_broker(2) [of cr env, OF assms, of "base_url oe"]
  by (auto simp: mcp_request_def split: prod.splits sum.splits if_splits)

text \<open>C23 A tool does what its name and its arguments say: an accepted call leads to one request, and
  the broker's handler receives the request id, minutes, command id, capability, params and
  deadline of the arguments, after JSON encoding under other names and strict decoding; the
  broker's state afterwards is what this handler leaves, and a result that is no error stands for
  an answer 2xx.  A refused call changes nothing.\<close>

theorem mcp_tools_reach_broker:
  assumes "plain_arguments now args"
  shows "case tool_call now name args of
      Inl e \<Rightarrow> callTool (broker_network cr (base_url oe)) oe now name args (env, s) = (Inl e, (env, s))
    | Inr c \<Rightarrow> (\<exists>r t out. serve cr (env 0) (fst c) (''Bearer '' @ admin_token oe) (mcp_intent now name args) s = (r, t)
        \<and> callTool (broker_network cr (base_url oe)) oe now name args (env, s) = (out, (\<lambda>i. env (Suc i), t))
        \<and> (\<forall>x. out = Inr x \<longrightarrow> (\<exists>resp. r = Some resp \<and> resp_code resp div 100 = 2)))"
proof (cases "tool_call now name args")
  case (Inr c)
  obtain meth path payload where c: "c = (meth, path, payload)" by (metis prod_cases3)
  have route: "route_of path (payload_text payload) = mcp_intent now name args"
    by (rule tool_call_route [OF Inr [unfolded c] assms])
  obtain r t where serve: "serve cr (env 0) meth (''Bearer '' @ admin_token oe) (route_of path (payload_text payload)) s = (r, t)"
    by force
  let ?q = "mcp_request (broker_network cr (base_url oe)) oe (meth, path, payload) (env, s)"
  have "?q = (fst ?q, (\<lambda>i. env (Suc i), t))"
    using mcp_request_broker(1) [of cr env, OF serve] by (simp add: prod_eq_iff)
  then show ?thesis
    using mcp_request_broker(2) [of cr env, OF serve] serve
    by (simp add: Inr c callTool_def route) (metis route)
qed (simp add: callTool_def)

text \<open>The tool bridge_approve offers up to 1440 minutes, but the broker grants at most 60: a call
  with 61 to 1440 minutes is sent, and then always refused, leaving the broker as it was.\<close>

theorem long_approval_refused:
  assumes "text_argument args ''request_id'' \<noteq> []" and "valid_utf8 (text_argument args ''request_id'')"
    and "number (map_of args ''minutes'') = (m, True)" and "60 < m" and "m \<le> 1440"
  shows "\<exists>c e. tool_call now ''bridge_approve'' args = Inr c
    \<and> callTool (broker_network cr (base_url oe)) oe now ''bridge_approve'' args (env, s) = (Inl e, (\<lambda>i. env (Suc i), s))"
proof -
  let ?rid = "text_argument args ''request_id''"
  have call: "tool_call now ''bridge_approve'' args = Inr (''POST'', ''/v1/admin/approve'', Some (approve_body ?rid m))"
    using assms unfolding tool_call_simps approve_call_def Let_def approve_body_def by (simp del: json_text.simps)
  have "in_int64 m" using assms(4,5) by (simp add: in_int64_def)
  then have route: "route_of ''/v1/admin/approve'' (payload_text (Some (approve_body ?rid m)))
      = Admin_approve (sent \<lparr>aq_RequestID = ?rid, aq_Minutes = m\<rparr> (approve_body ?rid m))"
    using assms(2) by (simp add: payload_text_def route_plain read_approve_body)
  define resp where "resp = fst (approve cr (he_approve (env 0)) (''Bearer '' @ admin_token oe)
      (sent \<lparr>aq_RequestID = ?rid, aq_Minutes = m\<rparr> (approve_body ?rid m)) s)"
  have approve: "approve cr (he_approve (env 0)) (''Bearer '' @ admin_token oe)
      (sent \<lparr>aq_RequestID = ?rid, aq_Minutes = m\<rparr> (approve_body ?rid m)) s = (resp, s)" "resp_code resp \<in> {400, 401}"
    using assms(4) by (auto simp: resp_def approve_def limitedJSON_def limitedJSONN_def sent_def)
  have serve: "serve cr (env 0) ''POST'' (''Bearer '' @ admin_token oe)
      (route_of ''/v1/admin/approve'' (payload_text (Some (approve_body ?rid m)))) s = (Some resp, s)"
    unfolding route using approve(1) by simp
  let ?q = "mcp_request (broker_network cr (base_url oe)) oe (''POST'', ''/v1/admin/approve'', Some (approve_body ?rid m)) (env, s)"
  have state: "snd ?q = (\<lambda>i. env (Suc i), s)" by (rule mcp_request_broker(1) [of cr env, OF serve])
  have "fst ?q \<noteq> Inr x" for x
    using mcp_request_broker(2) [of cr env, OF serve, of x] approve(2) by auto
  then obtain e where "fst ?q = Inl e" by (cases "fst ?q") auto
  then have "?q = (Inl e, (\<lambda>i. env (Suc i), s))" using state by (simp add: prod_eq_iff)
  then show ?thesis using call by (simp add: callTool_def)
qed

theorem mcp_tools_reach_broker_witness:
  "\<forall>env s. \<exists>out. callTool (broker_network toy_crypto (base_url sample_oe)) sample_oe hour ''bridge_reject''
       [(''request_id'', Text_value ''r1'')] (env, s)
     = (out, (\<lambda>i. env (Suc i), snd (adminReject (he_now (env 0)) (he_fault (env 0)) ''Bearer admin-token-of-24-characters''
                  (sent ''r1'' (id_body ''r1'')) s)))"
proof (intro allI)
  fix env s
  let ?args = "[(''request_id'', Text_value ''r1'')]"
  have rid: "text_argument ?args ''request_id'' = ''r1''" "params_argument ?args = []" "text_argument ?args ''command_id'' = []"
    by (simp_all add: text_argument_def params_argument_def)
  have plain: "plain_arguments hour ?args" unfolding plain_arguments_def rid by (auto simp: ascii_valid year_ok_def)
  have call: "tool_call hour ''bridge_reject'' ?args = Inr (''POST'', ''/v1/admin/reject'', Some (id_body ''r1''))"
    unfolding tool_call_simps rid by simp
  have intent: "mcp_intent hour ''bridge_reject'' ?args = Admin_reject (sent ''r1'' (id_body ''r1''))"
    by (simp add: mcp_intent_def rid Let_def)
  obtain r t out where x: "serve toy_crypto (env 0) ''POST'' (''Bearer '' @ admin_token sample_oe) (mcp_intent hour ''bridge_reject'' ?args) s = (r, t)"
    "callTool (broker_network toy_crypto (base_url sample_oe)) sample_oe hour ''bridge_reject'' ?args (env, s) = (out, (\<lambda>i. env (Suc i), t))"
    using mcp_tools_reach_broker [OF plain, where name = "''bridge_reject''" and cr = toy_crypto and oe = sample_oe and env = env and s = s] unfolding call by auto
  have "t = snd (adminReject (he_now (env 0)) (he_fault (env 0)) ''Bearer admin-token-of-24-characters''
      (sent ''r1'' (id_body ''r1'')) s)"
    using arg_cong [OF x(1), of snd] by (simp add: intent sample_oe_token)
  then show "\<exists>out. callTool (broker_network toy_crypto (base_url sample_oe)) sample_oe hour ''bridge_reject'' ?args (env, s)
     = (out, (\<lambda>i. env (Suc i), snd (adminReject (he_now (env 0)) (he_fault (env 0)) ''Bearer admin-token-of-24-characters''
                  (sent ''r1'' (id_body ''r1'')) s)))"
    using x(2) by blast
qed

theorem long_approval_refused_witness:
  "\<forall>env s. \<exists>e. callTool (broker_network toy_crypto (base_url sample_oe)) sample_oe 0 ''bridge_approve''
       [(''request_id'', Text_value ''r1''), (''minutes'', Float_value 90)] (env, s) = (Inl e, (\<lambda>i. env (Suc i), s))"
proof (intro allI)
  fix env s
  let ?args = "[(''request_id'', Text_value ''r1''), (''minutes'', Float_value 90)]"
  have n: "number (map_of ?args ''minutes'') = (90, True)"
    by (simp add: number_def) (code_simp)
  show "\<exists>e. callTool (broker_network toy_crypto (base_url sample_oe)) sample_oe 0 ''bridge_approve'' ?args (env, s)
      = (Inl e, (\<lambda>i. env (Suc i), s))"
    using long_approval_refused [of ?args 90 0 toy_crypto sample_oe env s, OF _ _ n]
    by (auto simp: text_argument_def ascii_valid)
qed

end
