(* ===== verification/Release.thy ===== *)
theory Release imports Auth Go_Time Paths begin

text \<open>
  \<^verbatim>\<open>internal/release/release.go\<close>: the signed manifest of a release, release versions, and
  the check a launcher makes before it runs a payload.  A file is what \<^verbatim>\<open>os.ReadFile\<close>
  returns for its path, \<open>None\<close> when the call fails.  Keys and signatures are checked by the
  parameter \<open>crypto\<close>; base64, hexadecimal, JSON and paths are modelled.
\<close>

section \<open>Keys and signatures\<close>

definition DecodePublicKey :: "string \<Rightarrow> string + string" where
  "DecodePublicKey s =
     (case RawStdDecode s of
        None \<Rightarrow> Inl ''invalid release public key''
      | Some b \<Rightarrow> if length b \<noteq> 32 then Inl ''invalid release public key'' else Inr b)"

definition DecodePrivateKey :: "string \<Rightarrow> string + string" where
  "DecodePrivateKey s =
     (case RawStdDecode s of
        None \<Rightarrow> Inl ''invalid release private key''
      | Some b \<Rightarrow> if length b \<noteq> 64 then Inl ''invalid release private key'' else Inr b)"

definition release_Sign :: "crypto \<Rightarrow> string \<Rightarrow> string \<Rightarrow> string" where
  "release_Sign cr priv data = RawStdEncode (ed25519_sign cr priv data)"

definition release_Verify :: "crypto \<Rightarrow> string \<Rightarrow> string \<Rightarrow> string \<Rightarrow> bool" where
  "release_Verify cr pub data signature =
     (case RawStdDecode signature of
        None \<Rightarrow> False
      | Some sig \<Rightarrow> length sig = 64 \<and> ed25519_verify cr pub data sig)"

definition release_Hash :: "crypto \<Rightarrow> string \<Rightarrow> string" where
  "release_Hash cr data = hex_encode (sha256 cr data)"

section \<open>Versions\<close>

fun version_parts :: "string list \<Rightarrow> int list option" where
  "version_parts [] = Some []"
| "version_parts (part # raw) =
     (if part = [] then None
      else (case Atoi part of
              None \<Rightarrow> None
            | Some number \<Rightarrow> if number < 0 then None else map_option (Cons number) (version_parts raw)))"

definition numericVersion :: "string \<Rightarrow> int list option" where
  "numericVersion value =
     (let core = hd (split_on (CHR ''-'') (TrimPrefix (TrimSpace value) ''v''))
      in if core = [] then None else version_parts (split_on (CHR ''.'') core))"

definition part_at :: "int list \<Rightarrow> nat \<Rightarrow> int" where
  "part_at v i = (if i < length v then v ! i else 0)"

text \<open>The loop over the \<open>n\<close> positions from \<open>i\<close> on.\<close>

fun compare_parts :: "int list \<Rightarrow> int list \<Rightarrow> nat \<Rightarrow> nat \<Rightarrow> bool" where
  "compare_parts c m i 0 = True"
| "compare_parts c m i (Suc n) =
     (if part_at c i \<noteq> part_at m i then part_at m i < part_at c i else compare_parts c m (Suc i) n)"

definition VersionAtLeast :: "string \<Rightarrow> string \<Rightarrow> bool" where
  "VersionAtLeast current minimum =
     (case (numericVersion current, numericVersion minimum) of
        (Some c, Some m) \<Rightarrow> compare_parts c m 0 (max (length c) (length m))
      | _ \<Rightarrow> False)"

section \<open>The manifest\<close>

record manifest =
  m_Version :: string
  m_OS :: string
  m_Architecture :: string
  m_Filename :: string
  m_URL :: string
  m_SHA256 :: string
  m_Size :: int
  m_Date :: string
  m_MinimumLauncher :: string
  m_MinimumProtocol :: int

definition no_manifest :: manifest where
  "no_manifest = \<lparr>m_Version = [], m_OS = [], m_Architecture = [], m_Filename = [], m_URL = [],
     m_SHA256 = [], m_Size = 0, m_Date = [], m_MinimumLauncher = [], m_MinimumProtocol = 0\<rparr>"

definition manifest_fields :: "manifest field list" where
  "manifest_fields =
     [(''version'', set_string (\<lambda>s. m_Version_update (\<lambda>_. s))),
      (''os'', set_string (\<lambda>s. m_OS_update (\<lambda>_. s))),
      (''architecture'', set_string (\<lambda>s. m_Architecture_update (\<lambda>_. s))),
      (''filename'', set_string (\<lambda>s. m_Filename_update (\<lambda>_. s))),
      (''url'', set_string (\<lambda>s. m_URL_update (\<lambda>_. s))),
      (''sha256'', set_string (\<lambda>s. m_SHA256_update (\<lambda>_. s))),
      (''size'', set_int (\<lambda>i. m_Size_update (\<lambda>_. i))),
      (''date'', set_string (\<lambda>s. m_Date_update (\<lambda>_. s))),
      (''minimumLauncher'', set_string (\<lambda>s. m_MinimumLauncher_update (\<lambda>_. s))),
      (''minimumProtocol'', set_int (\<lambda>i. m_MinimumProtocol_update (\<lambda>_. i)))]"

definition manifest_members :: "manifest \<Rightarrow> (string \<times> json) list" where
  "manifest_members m =
     [(''version'', JString (m_Version m)), (''os'', JString (m_OS m)),
      (''architecture'', JString (m_Architecture m)), (''filename'', JString (m_Filename m))]
     @ (if m_URL m = [] then [] else [(''url'', JString (m_URL m))])
     @ [(''sha256'', JString (m_SHA256 m)), (''size'', JNumber (Itoa (m_Size m))), (''date'', JString (m_Date m)),
        (''minimumLauncher'', JString (m_MinimumLauncher m)),
        (''minimumProtocol'', JNumber (Itoa (m_MinimumProtocol m)))]"

section \<open>Loading a release\<close>

definition LoadAndVerify :: "crypto \<Rightarrow> (string \<rightharpoonup> string) \<Rightarrow> string \<Rightarrow> string \<Rightarrow> string \<Rightarrow> string
    \<Rightarrow> string + manifest \<times> string" where
  "LoadAndVerify cr files payloadDir pub expectedOS expectedArch =
     (case files (Join payloadDir ''manifest.json'') of
        None \<Rightarrow> Inl ''read manifest''
      | Some manifestBytes \<Rightarrow>
          (case files (Join payloadDir ''manifest.json.sig'') of
             None \<Rightarrow> Inl ''manifest signature verification failed''
           | Some manifestSig \<Rightarrow>
               if \<not> release_Verify cr pub manifestBytes manifestSig then
                 Inl ''manifest signature verification failed''
               else
                 (case unmarshal manifest_fields no_manifest manifestBytes of
                    None \<Rightarrow> Inl ''parse manifest''
                  | Some m \<Rightarrow>
                      if m_OS m \<noteq> expectedOS \<or> m_Architecture m \<noteq> expectedArch
                         \<or> Base (m_Filename m) \<noteq> m_Filename m \<or> m_Filename m = dot then
                        Inl ''manifest target rejected''
                      else if m_Version m = [] \<or> m_MinimumLauncher m = [] \<or> m_MinimumProtocol m \<le> 0 then
                        Inl ''manifest compatibility metadata rejected''
                      else
                        (case files (Join payloadDir (m_Filename m)) of
                           None \<Rightarrow> Inl ''read payload''
                         | Some payload \<Rightarrow>
                             (case files (Join payloadDir (m_Filename m @ ''.sig'')) of
                                None \<Rightarrow> Inl ''payload signature verification failed''
                              | Some payloadSig \<Rightarrow>
                                  if \<not> release_Verify cr pub payload payloadSig then
                                    Inl ''payload signature verification failed''
                                  else if int (length payload) \<noteq> m_Size m \<or> release_Hash cr payload \<noteq> m_SHA256 m then
                                    Inl ''payload hash or size mismatch''
                                  else Inr (m, payload))))))"

section \<open>The order of versions\<close>

text \<open>The first position where two versions differ decides; missing parts count as 0.\<close>

lemma compare_parts_iff:
  "compare_parts c m i n \<longleftrightarrow>
     (\<forall>j<n. part_at c (i + j) = part_at m (i + j))
     \<or> (\<exists>k<n. part_at m (i + k) < part_at c (i + k) \<and> (\<forall>j<k. part_at c (i + j) = part_at m (i + j)))"
  by (induction n arbitrary: i) (auto simp: All_less_Suc2 Ex_less_Suc2)

lemma VersionAtLeast_iff:
  assumes "numericVersion a = Some x" and "numericVersion b = Some y"
  shows "VersionAtLeast a b \<longleftrightarrow>
    part_at x = part_at y \<or> (\<exists>k. part_at y k < part_at x k \<and> (\<forall>j<k. part_at x j = part_at y j))"
proof -
  let ?n = "max (length x) (length y)"
  have out: "?n \<le> j \<Longrightarrow> part_at x j = 0 \<and> part_at y j = 0" for j by (simp add: part_at_def)
  have "(\<forall>j<?n. part_at x j = part_at y j) \<longleftrightarrow> part_at x = part_at y"
    using out by (metis ext leI)
  moreover have "part_at y k < part_at x k \<Longrightarrow> k < ?n" for k
    using out [of k] by (metis leI order_less_irrefl)
  ultimately show ?thesis using assms by (auto simp: VersionAtLeast_def compare_parts_iff)
qed

lemma first_difference:
  fixes f g :: "nat \<Rightarrow> int"
  assumes "f \<noteq> g"
  obtains k where "f k \<noteq> g k" and "\<forall>j<k. f j = g j"
proof -
  have "\<exists>k. f k \<noteq> g k" using assms by auto
  then show ?thesis using that exists_least_iff [of "\<lambda>k. f k \<noteq> g k"] by auto
qed

lemma VersionAtLeast_trans:
  assumes "VersionAtLeast a b" and "VersionAtLeast b c"
  shows "VersionAtLeast a c"
proof -
  obtain x y z where n: "numericVersion a = Some x" "numericVersion b = Some y" "numericVersion c = Some z"
    using assms by (auto simp: VersionAtLeast_def split: option.splits)
  note iff = VersionAtLeast_iff [OF n(1,2)] VersionAtLeast_iff [OF n(2,3)] VersionAtLeast_iff [OF n(1,3)]
  consider "part_at x = part_at y" | "part_at y = part_at z"
    | k l where "part_at y k < part_at x k" "\<forall>j<k. part_at x j = part_at y j"
        "part_at z l < part_at y l" "\<forall>j<l. part_at y j = part_at z j"
    using assms iff by auto
  then show ?thesis
  proof cases
    case 1
    then show ?thesis using assms(2) iff by simp
  next
    case 2
    then show ?thesis using assms(1) iff by simp
  next
    case 3
    have "part_at z (min k l) < part_at x (min k l) \<and> (\<forall>j<min k l. part_at x j = part_at z j)"
      using 3 by (cases k l rule: linorder_cases) auto
    then show ?thesis using iff(3) by blast
  qed
qed

text \<open>Release versions are totally preordered by their numbers.  For two versions with
  numeric parts the comparison asks whether all parts agree, a missing part counting as zero,
  or the first one that differs is greater; either of the two is at least the other; both are
  at least each other exactly when they have the same parts; the relation is transitive; and
  a text without numeric parts is related to nothing.\<close>

theorem version_order:
  assumes "numericVersion a = Some x" and "numericVersion b = Some y"
  shows "(VersionAtLeast a b \<longleftrightarrow>
        part_at x = part_at y \<or> (\<exists>k. part_at y k < part_at x k \<and> (\<forall>j<k. part_at x j = part_at y j)))
    \<and> (VersionAtLeast a b \<or> VersionAtLeast b a)
    \<and> (VersionAtLeast a b \<and> VersionAtLeast b a \<longleftrightarrow> part_at x = part_at y)
    \<and> (\<forall>c. VersionAtLeast a b \<longrightarrow> VersionAtLeast b c \<longrightarrow> VersionAtLeast a c)
    \<and> (\<forall>c. numericVersion c = None \<longrightarrow> \<not> VersionAtLeast a c \<and> \<not> VersionAtLeast c a)"
proof -
  note iff = VersionAtLeast_iff [OF assms] VersionAtLeast_iff [OF assms(2,1)]
  have both: "(VersionAtLeast a b \<or> VersionAtLeast b a)
      \<and> (VersionAtLeast a b \<and> VersionAtLeast b a \<longleftrightarrow> part_at x = part_at y)"
  proof (cases "part_at x = part_at y")
    case False
    then obtain k where k: "part_at x k \<noteq> part_at y k" "\<forall>j<k. part_at x j = part_at y j"
      by (rule first_difference)
    have unique: "l = k" if "part_at x l \<noteq> part_at y l" "\<forall>j<l. part_at x j = part_at y j" for l
      using k that by (cases l k rule: linorder_cases) auto
    have "(\<exists>l. part_at y l < part_at x l \<and> (\<forall>j<l. part_at x j = part_at y j)) \<longleftrightarrow> part_at y k < part_at x k"
      "(\<exists>l. part_at x l < part_at y l \<and> (\<forall>j<l. part_at y j = part_at x j)) \<longleftrightarrow> part_at x k < part_at y k"
      using k unique by (metis less_irrefl)+
    then show ?thesis using iff False k(1) by auto
  qed (simp add: iff)
  moreover have "\<not> VersionAtLeast a c \<and> \<not> VersionAtLeast c a" if "numericVersion c = None" for c
    using that by (simp add: VersionAtLeast_def split: option.splits)
  ultimately show ?thesis using iff(1) VersionAtLeast_trans by blast
qed

theorem version_order_witness:
  "VersionAtLeast ''v1.0.0'' ''1.0'' \<and> VersionAtLeast ''1.0'' ''v1.0.0'' \<and> \<not> VersionAtLeast ''1.2'' ''1.2.1''"
proof -
  have n: "numericVersion ''v1.0.0'' = Some [1, 0, 0]" "numericVersion ''1.0'' = Some [1, 0]"
    "numericVersion ''1.2'' = Some [1, 2]" "numericVersion ''1.2.1'' = Some [1, 2, 1]"
    by (simp_all add: numericVersion_def TrimSpace_def runes_ascii IsSpace_def byte_in_def TrimPrefix_def Atoi_def
        is_digit_def digits_value_def digit_value_def in_int64_def Let_def)
  have "part_at [1, 0, 0] = part_at [1, 0]" by (rule ext) (simp add: part_at_def nth_Cons split: nat.splits)
  moreover have "part_at [1, 2, 1] 2 \<noteq> part_at [1, 2] 2" by (simp add: part_at_def)
  then have "part_at [1, 2] \<noteq> part_at [1, 2, 1]" by metis
  moreover have "\<not> (part_at [1, 2, 1] k < part_at [1, 2] k)" for k
    by (simp add: part_at_def nth_Cons split: nat.splits)
  ultimately show ?thesis
    using version_order [OF n(1,2)] version_order [OF n(3,4)] by blast
qed

section \<open>What an accepted release is\<close>

lemma Base_fixed: "Base f = f \<Longrightarrow> f \<noteq> dot \<Longrightarrow> good_part f \<or> f = dotdot \<or> f = [slash]"
proof -
  assume base: "Base f = f" and "f \<noteq> dot"
  then have ne: "f \<noteq> []" by (auto simp: Base_def)
  let ?t = "last (split_on slash (strip_slashes f))"
  have "slash \<notin> set ?t" by (rule split_on_free [OF last_in_set]) simp
  moreover have "f = ?t \<or> f = [slash]" using base ne by (auto simp: Base_def Let_def split: if_splits)
  ultimately show ?thesis using ne \<open>f \<noteq> dot\<close> by (auto simp: good_part_def)
qed

lemma LoadAndVerify_accepts:
  assumes "LoadAndVerify cr files payloadDir pub os arch = Inr (m, payload)"
  obtains mb ms ps where "files (Join payloadDir ''manifest.json'') = Some mb"
    and "files (Join payloadDir ''manifest.json.sig'') = Some ms" and "release_Verify cr pub mb ms"
    and "unmarshal manifest_fields no_manifest mb = Some m"
    and "m_OS m = os" "m_Architecture m = arch" "Base (m_Filename m) = m_Filename m" "m_Filename m \<noteq> dot"
    and "m_Version m \<noteq> []" "m_MinimumLauncher m \<noteq> []" "0 < m_MinimumProtocol m"
    and "files (Join payloadDir (m_Filename m)) = Some payload"
    and "files (Join payloadDir (m_Filename m @ ''.sig'')) = Some ps" and "release_Verify cr pub payload ps"
    and "int (length payload) = m_Size m" and "release_Hash cr payload = m_SHA256 m"
  using assms by (auto simp: LoadAndVerify_def not_le split: option.splits if_splits)

text \<open>A launcher runs only what the release key signed.  If a release loads, its manifest
  and its payload are both texts that verify under the key, so they are among the texts the key
  was used on; the manifest names the platform asked for and a file of the payload directory
  itself; the payload is that file, with the size and hash of the manifest.  So two releases
  with the same manifest carry the same payload.\<close>

theorem LoadAndVerify_trusted:
  assumes "LoadAndVerify cr files payloadDir pub os arch = Inr (m, payload)"
    and "\<And>msg sig. ed25519_verify cr pub msg sig \<Longrightarrow> msg \<in> signed"
  shows "(\<exists>mb. mb \<in> signed \<and> files (Join payloadDir ''manifest.json'') = Some mb
        \<and> unmarshal manifest_fields no_manifest mb = Some m)
    \<and> payload \<in> signed \<and> files (Join payloadDir (m_Filename m)) = Some payload
    \<and> m_OS m = os \<and> m_Architecture m = arch
    \<and> (good_part (m_Filename m) \<or> m_Filename m = dotdot \<or> m_Filename m = [slash])
    \<and> int (length payload) = m_Size m \<and> release_Hash cr payload = m_SHA256 m
    \<and> (\<forall>files' dir' payload'. inj_on (sha256 cr) signed \<longrightarrow>
         LoadAndVerify cr files' dir' pub os arch = Inr (m, payload') \<longrightarrow> payload' = payload)"
proof -
  have signed: "msg \<in> signed" if "release_Verify cr pub msg sig" for msg sig
    using that assms(2) by (auto simp: release_Verify_def split: option.splits)
  have unique: "payload' = payload" if "inj_on (sha256 cr) signed"
    and "LoadAndVerify cr files' dir' pub os arch = Inr (m, payload')" for files' dir' payload'
  proof -
    have "payload \<in> signed" "release_Hash cr payload = m_SHA256 m"
      using LoadAndVerify_accepts [OF assms(1)] signed by metis+
    moreover have "payload' \<in> signed" "release_Hash cr payload' = m_SHA256 m"
      using LoadAndVerify_accepts [OF that(2)] signed by metis+
    ultimately have "sha256 cr payload' = sha256 cr payload"
      by (metis hex.enc_eq_iff release_Hash_def)
    then show ?thesis
      using that(1) \<open>payload \<in> signed\<close> \<open>payload' \<in> signed\<close> by (auto dest: inj_onD)
  qed
  show ?thesis
    by (rule LoadAndVerify_accepts [OF assms(1)]) (use unique signed Base_fixed in blast)
qed

end
