(* ===== verification/Launcher.thy ===== *)
theory Launcher imports Release begin

text \<open>
  \<^verbatim>\<open>cmd/usb-launcher\<close>: the program on the portable drive.  It finds the drive's root, checks
  configuration and payload against the key it was built with, asks the user for a profile,
  and runs the verified client from a temporary directory.  Files, terminals and the run of
  the client are parameters; what is modelled is every decision before the client starts.
\<close>

section \<open>The machine\<close>

text \<open>
  What the launcher finds: \<open>ln_files\<close> is \<^verbatim>\<open>os.ReadFile\<close>, \<open>ln_stat\<close> is \<^verbatim>\<open>os.Stat\<close> (absent,
  or whether it is a directory), \<open>ln_input\<close> what the user types, \<open>ln_stage\<close> the fresh temporary
  directory, and \<open>ln_run\<close> how a started program ends (an error or none).
\<close>

record machine =
  ln_goos :: string
  ln_goarch :: string
  ln_key :: string
  ln_version :: string
  ln_self :: "string option"
  ln_getenv :: "string \<Rightarrow> string"
  ln_tty :: bool
  ln_lookpath :: "string \<Rightarrow> string option"
  ln_files :: "string \<rightharpoonup> string"
  ln_stat :: "string \<Rightarrow> bool option"
  ln_input :: string
  ln_stage :: "string option"
  ln_writable :: "string \<Rightarrow> bool"
  ln_run :: "string \<Rightarrow> string list \<Rightarrow> string option"

datatype launcher_error = Message string | Unsupported_platform string string | Launcher_too_old string string
  | Mixed_release string string | Terminal_failed string string | Client_failed string

section \<open>A visible terminal\<close>

definition supportedTarget :: "string \<Rightarrow> string \<Rightarrow> bool" where
  "supportedTarget goos goarch \<longleftrightarrow>
     (if goarch \<noteq> ''amd64'' \<and> goarch \<noteq> ''arm64'' then False
      else goos = ''windows'' \<or> goos = ''linux'' \<or> goos = ''darwin'')"

definition linuxTerminalCandidates :: "(string \<times> (string \<Rightarrow> string list)) list" where
  "linuxTerminalCandidates =
     [(''xdg-terminal-exec'', \<lambda>self. [self]),
      (''kitty'', \<lambda>self. [''--title'', ''OpenClaw Portable Bridge'', self]),
      (''foot'', \<lambda>self. [''--title=OpenClaw Portable Bridge'', self]),
      (''alacritty'', \<lambda>self. [''--title'', ''OpenClaw Portable Bridge'', ''-e'', self]),
      (''gnome-terminal'', \<lambda>self. [''--wait'', ''--'', self]),
      (''kgx'', \<lambda>self. [''--'', self]),
      (''konsole'', \<lambda>self. [''-e'', self]),
      (''x-terminal-emulator'', \<lambda>self. [''-T'', ''OpenClaw Portable Bridge'', ''-e'', self]),
      (''xterm'', \<lambda>self. [''-T'', ''OpenClaw Portable Bridge'', ''-e'', self])]"

fun first_terminal :: "(string \<times> (string \<Rightarrow> string list)) list \<Rightarrow> string \<Rightarrow> (string \<Rightarrow> string option)
    \<Rightarrow> (string \<times> string list) option" where
  "first_terminal [] self lookPath = None"
| "first_terminal ((name, args) # cs) self lookPath =
     (case lookPath name of Some path \<Rightarrow> Some (path, args self) | None \<Rightarrow> first_terminal cs self lookPath)"

definition linuxTerminalCommand :: "string \<Rightarrow> (string \<Rightarrow> string option) \<Rightarrow> (string \<times> string list) option" where
  "linuxTerminalCommand self lookPath = first_terminal linuxTerminalCandidates self lookPath"

text \<open>
  \<open>Inr True\<close>: the launcher ran again in a terminal of its own.  Outside Linux there is nothing
  to do.
\<close>

definition ensureInteractiveConsole :: "machine \<Rightarrow> string \<Rightarrow> launcher_error + bool" where
  "ensureInteractiveConsole ln self =
     (if ln_goos ln \<noteq> ''linux'' then Inr False
      else if ln_tty ln then Inr False
      else if ln_getenv ln ''OPENCLAW_BRIDGE_CONSOLE_CHILD'' = ''1'' then
        Inl (Message ''the selected terminal emulator did not provide an interactive console'')
      else if ln_getenv ln ''DISPLAY'' = [] \<and> ln_getenv ln ''WAYLAND_DISPLAY'' = [] then
        Inl (Message ''an interactive terminal is required; run this launcher from a visible terminal'')
      else
        (case linuxTerminalCommand self (ln_lookpath ln) of
           None \<Rightarrow> Inl (Message (''no supported terminal emulator found; install xdg-terminal-exec, Kitty, Foot, ''
                     @ ''Alacritty, GNOME Terminal, Console, Konsole, or xterm''))
         | Some (path, args) \<Rightarrow>
             (case ln_run ln path args of Some e \<Rightarrow> Inl (Terminal_failed path e) | None \<Rightarrow> Inr True)))"

section \<open>The drive\<close>

definition config_file :: "string \<Rightarrow> string" where
  "config_file dir = Join (Join dir ''config'') ''bridge-public.json''"

definition payload_dir :: "string \<Rightarrow> string \<Rightarrow> string" where
  "payload_dir dir target = Join (Join dir ''payload'') target"

definition is_root :: "machine \<Rightarrow> string \<Rightarrow> string \<Rightarrow> bool" where
  "is_root ln target dir \<longleftrightarrow>
     ln_stat ln (config_file dir) \<noteq> None \<and> ln_stat ln (Join (payload_dir dir target) ''manifest.json'') \<noteq> None"

fun search_root :: "machine \<Rightarrow> string \<Rightarrow> nat \<Rightarrow> string \<Rightarrow> string option" where
  "search_root ln target 0 dir = None"
| "search_root ln target (Suc n) dir =
     (if is_root ln target dir then Some dir
      else if Dir dir = dir then None
      else search_root ln target n (Dir dir))"

definition findPortableRoot :: "machine \<Rightarrow> string \<Rightarrow> string \<Rightarrow> string option" where
  "findPortableRoot ln start target = search_root ln target 4 (Clean start)"

record public_config =
  pc_USBID :: string
  pc_BrokerURL :: string

definition public_config_fields :: "public_config field list" where
  "public_config_fields =
     [(''usbId'', set_string (\<lambda>v c. c\<lparr>pc_USBID := v\<rparr>)), (''brokerUrl'', set_string (\<lambda>v c. c\<lparr>pc_BrokerURL := v\<rparr>))]"

definition safe_url :: "string \<Rightarrow> bool" where
  "safe_url url \<longleftrightarrow> HasPrefix url ''https://'' \<or> HasPrefix url ''http://127.0.0.1:''"

definition loadPublicConfig :: "crypto \<Rightarrow> (string \<rightharpoonup> string) \<Rightarrow> string \<Rightarrow> string \<Rightarrow> launcher_error + public_config" where
  "loadPublicConfig cr files root pub =
     (case files (config_file root) of
        None \<Rightarrow> Inl (Message ''public configuration'')
      | Some configBytes \<Rightarrow>
          (case files (config_file root @ ''.sig'') of
             None \<Rightarrow> Inl (Message ''public configuration signature verification failed'')
           | Some sig \<Rightarrow>
               if \<not> release_Verify cr pub configBytes sig then
                 Inl (Message ''public configuration signature verification failed'')
               else
                 (case unmarshal public_config_fields \<lparr>pc_USBID = [], pc_BrokerURL = []\<rparr> configBytes of
                    None \<Rightarrow> Inl (Message ''invalid public configuration or non-TLS broker URL'')
                  | Some cfg \<Rightarrow>
                      if pc_USBID cfg = [] \<or> \<not> safe_url (pc_BrokerURL cfg) then
                        Inl (Message ''invalid public configuration or non-TLS broker URL'')
                      else Inr cfg)))"

section \<open>Consent\<close>

text \<open>\<^verbatim>\<open>ReadString('\n')\<close>: the line with its end, and the rest; at the end what is left.\<close>

definition read_line :: "string \<Rightarrow> string \<times> string" where
  "read_line s =
     (case IndexByte s newline of None \<Rightarrow> (s, []) | Some i \<Rightarrow> (take (Suc i) s, drop (Suc i) s))"

definition client_args :: "public_config \<Rightarrow> string \<Rightarrow> string list" where
  "client_args cfg profile = [''-broker'', pc_BrokerURL cfg, ''-usb-id'', pc_USBID cfg, ''-profile'', profile]"

definition volumes :: "string list" where
  "volumes = map (\<lambda>c. [c, CHR '':'', CHR 0x5C]) ''ABCDEFGHIJKLMNOPQRSTUVWXYZ''"

text \<open>The arguments of the client after the user's choice, or the error.\<close>

definition consent :: "machine \<Rightarrow> public_config \<Rightarrow> launcher_error + string list" where
  "consent ln cfg =
     (let (choice, input) = read_line (ln_input ln); (answer, input) = read_line input; answer = TrimSpace answer
      in if TrimSpace choice = ''2'' then
           (if answer \<noteq> ''DEVELOPER'' then Inl (Message ''Developer profile was not confirmed'')
            else if ln_goos ln = ''windows'' then
              Inr (client_args cfg ''developer''
                @ concat (map (\<lambda>v. [''-allow-dir'', v]) (filter (\<lambda>v. ln_stat ln v = Some True) volumes)))
            else Inr (client_args cfg ''developer'' @ [''-allow-dir'', ''/'']))
         else if answer = [] then Inr (client_args cfg ''information'')
         else if ln_stat ln answer \<noteq> Some True then Inl (Message ''invalid readable directory'')
         else Inr (client_args cfg ''information'' @ [''-allow-dir'', answer]))"

section \<open>A run\<close>

text \<open>
  A client that was started: the file that is run and what it holds, the arguments, the
  working directory, and how it ended.
\<close>

record started_client =
  sc_path :: string
  sc_payload :: string
  sc_args :: "string list"
  sc_dir :: string
  sc_result :: "string option"

datatype launch_result = Rejected launcher_error | Relaunched | Client started_client

definition run_payload :: "machine \<Rightarrow> public_config \<Rightarrow> manifest \<Rightarrow> string \<Rightarrow> launch_result" where
  "run_payload ln cfg m payload =
     (case ln_stage ln of
        None \<Rightarrow> Rejected (Message ''temporary directory'')
      | Some stage \<Rightarrow>
          let clientPath = Join stage (m_Filename m)
          in if \<not> ln_writable ln clientPath then Rejected (Message ''write payload'')
             else (case consent ln cfg of
                     Inl e \<Rightarrow> Rejected e
                   | Inr args \<Rightarrow>
                       Client \<lparr>sc_path = clientPath, sc_payload = payload, sc_args = args, sc_dir = stage,
                               sc_result = ln_run ln clientPath args\<rparr>))"

definition verified_run :: "crypto \<Rightarrow> machine \<Rightarrow> string \<Rightarrow> string \<Rightarrow> launch_result" where
  "verified_run cr ln pub root =
     (case loadPublicConfig cr (ln_files ln) root pub of
        Inl e \<Rightarrow> Rejected e
      | Inr cfg \<Rightarrow>
          (case LoadAndVerify cr (ln_files ln) (payload_dir root (ln_goos ln @ ''-'' @ ln_goarch ln)) pub (ln_goos ln) (ln_goarch ln) of
             Inl e \<Rightarrow> Rejected (Message e)
           | Inr (m, payload) \<Rightarrow>
               if \<not> VersionAtLeast (ln_version ln) (m_MinimumLauncher m) then
                 Rejected (Launcher_too_old (ln_version ln) (m_MinimumLauncher m))
               else
                 (case ln_files ln (Join root ''VERSION.txt'') of
                    None \<Rightarrow> Rejected (Message ''release version file'')
                  | Some versionBytes \<Rightarrow>
                      if TrimSpace versionBytes \<noteq> m_Version m then
                        Rejected (Mixed_release (TrimSpace versionBytes) (m_Version m))
                      else run_payload ln cfg m payload)))"

definition launcher_run :: "crypto \<Rightarrow> machine \<Rightarrow> launch_result" where
  "launcher_run cr ln =
     (if \<not> supportedTarget (ln_goos ln) (ln_goarch ln) then Rejected (Unsupported_platform (ln_goos ln) (ln_goarch ln))
      else if ln_key ln = [] then Rejected (Message ''launcher has no embedded release public key'')
      else
        (case DecodePublicKey (ln_key ln) of
           Inl e \<Rightarrow> Rejected (Message e)
         | Inr pub \<Rightarrow>
             (case ln_self ln of
                None \<Rightarrow> Rejected (Message ''executable'')
              | Some self \<Rightarrow>
                  (case ensureInteractiveConsole ln self of
                     Inl e \<Rightarrow> Rejected e
                   | Inr True \<Rightarrow> Relaunched
                   | Inr False \<Rightarrow>
                       (case findPortableRoot ln (Dir self) (ln_goos ln @ ''-'' @ ln_goarch ln) of
                          None \<Rightarrow> Rejected (Message
                            ''portable root not found; keep config, payload, and launcher directories together'')
                        | Some root \<Rightarrow> verified_run cr ln pub root)))))"

section \<open>The nearest root\<close>

fun ancestor :: "nat \<Rightarrow> string \<Rightarrow> string" where
  "ancestor 0 dir = dir"
| "ancestor (Suc n) dir = ancestor n (Dir dir)"

lemma search_root_nearest:
  "search_root ln target n dir = Some root \<Longrightarrow>
   \<exists>k<n. root = ancestor k dir \<and> is_root ln target root \<and> (\<forall>j<k. \<not> is_root ln target (ancestor j dir))"
proof (induction n arbitrary: dir)
  case (Suc n)
  show ?case
  proof (cases "is_root ln target dir")
    case True
    then show ?thesis using Suc.prems by (intro exI [of _ 0]) simp
  next
    case False
    then have "search_root ln target n (Dir dir) = Some root" using Suc.prems by (simp split: if_splits)
    then obtain k where "k < n" "root = ancestor k (Dir dir)" "is_root ln target root"
      "\<forall>j<k. \<not> is_root ln target (ancestor j (Dir dir))" using Suc.IH by blast
    then show ?thesis using False by (intro exI [of _ "Suc k"]) (auto simp: less_Suc_eq_0_disj)
  qed
qed simp

section \<open>What is started was signed and agreed to\<close>

lemma loadPublicConfig_accepts:
  assumes "loadPublicConfig cr files root pub = Inr cfg"
  obtains cb sig where "files (config_file root) = Some cb" "release_Verify cr pub cb sig"
    "unmarshal public_config_fields \<lparr>pc_USBID = [], pc_BrokerURL = []\<rparr> cb = Some cfg"
    "pc_USBID cfg \<noteq> []" "safe_url (pc_BrokerURL cfg)"
  using assms by (auto simp: loadPublicConfig_def split: option.splits if_splits)

lemma run_payload_client:
  assumes "run_payload ln cfg m payload = Client l"
  obtains stage where "ln_stage ln = Some stage" "sc_dir l = stage" "sc_path l = Join stage (m_Filename m)"
    "sc_payload l = payload" "consent ln cfg = Inr (sc_args l)"
  using assms by (cases "consent ln cfg") (auto simp: run_payload_def Let_def split: option.splits if_splits)

lemma verified_run_client:
  assumes "verified_run cr ln pub root = Client l"
  obtains cfg m vb payload where "loadPublicConfig cr (ln_files ln) root pub = Inr cfg"
    "LoadAndVerify cr (ln_files ln) (payload_dir root (ln_goos ln @ ''-'' @ ln_goarch ln)) pub (ln_goos ln) (ln_goarch ln)
       = Inr (m, payload)"
    "VersionAtLeast (ln_version ln) (m_MinimumLauncher m)" "ln_files ln (Join root ''VERSION.txt'') = Some vb"
    "TrimSpace vb = m_Version m" "run_payload ln cfg m payload = Client l"
proof (cases "loadPublicConfig cr (ln_files ln) root pub")
  case (Inr cfg)
  note cfg = this
  show ?thesis
  proof (cases "LoadAndVerify cr (ln_files ln) (payload_dir root (ln_goos ln @ ''-'' @ ln_goarch ln)) pub
      (ln_goos ln) (ln_goarch ln)")
    case (Inr mp)
    obtain m payload where mp: "mp = (m, payload)" by (cases mp)
    have rest: "VersionAtLeast (ln_version ln) (m_MinimumLauncher m) \<and> ln_files ln (Join root ''VERSION.txt'') \<noteq> None"
      using assms unfolding verified_run_def cfg Inr mp by (simp split: if_split_asm option.split_asm)
    then obtain vb where vb: "ln_files ln (Join root ''VERSION.txt'') = Some vb" by blast
    have "TrimSpace vb = m_Version m \<and> run_payload ln cfg m payload = Client l"
      using assms rest unfolding verified_run_def cfg Inr mp by (simp add: vb split: if_split_asm)
    then show ?thesis using that cfg Inr mp rest vb by simp
  qed (use assms Inr in \<open>simp add: verified_run_def\<close>)
qed (use assms in \<open>simp add: verified_run_def\<close>)

lemma launcher_run_client:
  assumes "launcher_run cr ln = Client l"
  obtains pub self root where "supportedTarget (ln_goos ln) (ln_goarch ln)" "DecodePublicKey (ln_key ln) = Inr pub"
    "ln_self ln = Some self" "ensureInteractiveConsole ln self = Inr False"
    "findPortableRoot ln (Dir self) (ln_goos ln @ ''-'' @ ln_goarch ln) = Some root" "verified_run cr ln pub root = Client l"
proof -
  have ok: "supportedTarget (ln_goos ln) (ln_goarch ln)" "ln_key ln \<noteq> []"
    using assms by (simp_all add: launcher_run_def split: if_split_asm)
  note run = assms [unfolded launcher_run_def, simplified ok not_True_eq_False if_False]
  obtain pub where pub: "DecodePublicKey (ln_key ln) = Inr pub" using run by (simp split: sum.split_asm)
  obtain self where self: "ln_self ln = Some self" using run by (simp add: pub split: option.split_asm)
  have console: "ensureInteractiveConsole ln self = Inr False"
    using run by (simp add: pub self split: sum.split_asm bool.split_asm)
  obtain root where root: "findPortableRoot ln (Dir self) (ln_goos ln @ ''-'' @ ln_goarch ln) = Some root"
    using run by (simp add: pub self console split: option.split_asm)
  show ?thesis using that [OF ok(1) pub self console root] run by (simp add: pub self console root [simplified])
qed

text \<open>C4 The launcher starts only what the release key signed: if a client is started, its bytes
  and the configuration it is given are texts that verify under the embedded key; both come
  from the root, the nearest of the launcher's directory and its three ancestors that holds
  configuration and payload; the payload is the one the signed manifest names for this
  platform, its version is that of the package, the launcher is not older than it demands,
  and the broker is reached over TLS or on this machine.  The bytes run from the temporary directory.\<close>

theorem launcher_starts_only_signed:
  assumes "launcher_run cr ln = Client l"
    and "\<And>pub msg sig. DecodePublicKey (ln_key ln) = Inr pub \<Longrightarrow> ed25519_verify cr pub msg sig \<Longrightarrow> msg \<in> signed"
  shows "\<exists>root k cb cfg mb m vb stage.
      k < 4 \<and> root = ancestor k (Clean (Dir (the (ln_self ln)))) \<and> is_root ln (ln_goos ln @ ''-'' @ ln_goarch ln) root
      \<and> (\<forall>j<k. \<not> is_root ln (ln_goos ln @ ''-'' @ ln_goarch ln) (ancestor j (Clean (Dir (the (ln_self ln))))))
      \<and> ln_files ln (config_file root) = Some cb \<and> cb \<in> signed
      \<and> unmarshal public_config_fields \<lparr>pc_USBID = [], pc_BrokerURL = []\<rparr> cb = Some cfg \<and> safe_url (pc_BrokerURL cfg)
      \<and> mb \<in> signed \<and> unmarshal manifest_fields no_manifest mb = Some m
      \<and> ln_files ln (Join (payload_dir root (ln_goos ln @ ''-'' @ ln_goarch ln)) (m_Filename m)) = Some (sc_payload l)
      \<and> sc_payload l \<in> signed \<and> release_Hash cr (sc_payload l) = m_SHA256 m
      \<and> m_OS m = ln_goos ln \<and> m_Architecture m = ln_goarch ln
      \<and> ln_files ln (Join root ''VERSION.txt'') = Some vb \<and> TrimSpace vb = m_Version m
      \<and> VersionAtLeast (ln_version ln) (m_MinimumLauncher m)
      \<and> ln_stage ln = Some stage \<and> sc_dir l = stage \<and> sc_path l = Join stage (m_Filename m)
      \<and> consent ln cfg = Inr (sc_args l)"
proof -
  obtain pub self root where run: "DecodePublicKey (ln_key ln) = Inr pub" "ln_self ln = Some self"
    "findPortableRoot ln (Dir self) (ln_goos ln @ ''-'' @ ln_goarch ln) = Some root" "verified_run cr ln pub root = Client l"
    by (rule launcher_run_client [OF assms(1)])
  have signed: "msg \<in> signed" if "release_Verify cr pub msg sig" for msg sig
    using that assms(2) [OF run(1)] by (auto simp: release_Verify_def split: option.splits)
  obtain k where k: "k < 4" "root = ancestor k (Clean (Dir self))" "is_root ln (ln_goos ln @ ''-'' @ ln_goarch ln) root"
    "\<forall>j<k. \<not> is_root ln (ln_goos ln @ ''-'' @ ln_goarch ln) (ancestor j (Clean (Dir self)))"
    using search_root_nearest [OF run(3) [unfolded findPortableRoot_def]] by blast
  obtain cfg m vb payload where v: "loadPublicConfig cr (ln_files ln) root pub = Inr cfg"
    "LoadAndVerify cr (ln_files ln) (payload_dir root (ln_goos ln @ ''-'' @ ln_goarch ln)) pub (ln_goos ln) (ln_goarch ln)
       = Inr (m, payload)"
    "VersionAtLeast (ln_version ln) (m_MinimumLauncher m)" "ln_files ln (Join root ''VERSION.txt'') = Some vb"
    "TrimSpace vb = m_Version m" "run_payload ln cfg m payload = Client l"
    by (rule verified_run_client [OF run(4)])
  obtain stage where p: "ln_stage ln = Some stage" "sc_dir l = stage" "sc_path l = Join stage (m_Filename m)"
    "sc_payload l = payload" "consent ln cfg = Inr (sc_args l)"
    by (rule run_payload_client [OF v(6)])
  obtain cb sig where c: "ln_files ln (config_file root) = Some cb" "release_Verify cr pub cb sig"
    "unmarshal public_config_fields \<lparr>pc_USBID = [], pc_BrokerURL = []\<rparr> cb = Some cfg" "safe_url (pc_BrokerURL cfg)"
    by (rule loadPublicConfig_accepts [OF v(1)])
  obtain mb ms ps where m: "release_Verify cr pub mb ms" "unmarshal manifest_fields no_manifest mb = Some m"
    "m_OS m = ln_goos ln" "m_Architecture m = ln_goarch ln"
    "ln_files ln (Join (payload_dir root (ln_goos ln @ ''-'' @ ln_goarch ln)) (m_Filename m)) = Some payload"
    "release_Verify cr pub payload ps" "release_Hash cr payload = m_SHA256 m"
    by (rule LoadAndVerify_accepts [OF v(2)])
  show ?thesis
    by (rule exI [of _ root], rule exI [of _ k], rule exI [of _ cb], rule exI [of _ cfg],
        rule exI [of _ mb], rule exI [of _ m], rule exI [of _ vb], rule exI [of _ stage])
       (use k c m v(3-5) p run(2) signed in simp)
qed

end
