(* ===== verification/Release_Tool.thy ===== *)
theory Release_Tool imports Release begin

text \<open>
  \<^verbatim>\<open>cmd/release-tool/main.go\<close>: the four modes of the tool that signs a release.  Its run
  takes the flags, the files on disk and what the environment decides (failing writes, fresh
  keys, the clock) and ends with the files it leaves and its output, or in a panic.  The main
  theorem composes it with \<^verbatim>\<open>release.LoadAndVerify\<close>: what the tool signs, the launcher loads.
\<close>

section \<open>Flags and outcome\<close>

record tool_flags =
  f_mode :: string
  f_key :: string
  f_publicKey :: string
  f_input :: string
  f_signature :: string
  f_payload :: string
  f_out :: string
  f_version :: string
  f_launcherVersion :: string
  f_targetOS :: string
  f_targetArch :: string
  f_filename :: string

definition default_flags :: tool_flags where
  "default_flags = \<lparr>f_mode = ''sign'', f_key = [], f_publicKey = [], f_input = [], f_signature = [],
     f_payload = [], f_out = [], f_version = ''0.1.0'', f_launcherVersion = [], f_targetOS = ''windows'',
     f_targetArch = ''amd64'', f_filename = ''bridge-client.exe''\<rparr>"

text \<open>
  The environment: a write to a path fails when \<open>te_deny\<close> maps it to what is left of the
  file; \<open>te_mkdir\<close> says whether the directory can be made.
\<close>

record tool_env =
  te_deny :: "string \<rightharpoonup> string option"
  te_mkdir :: bool
  te_keys :: "(string \<times> string) option"
  te_now :: time

datatype tool_result = Exit "string \<rightharpoonup> string" string | Panicked "string \<rightharpoonup> string" string

definition WriteFile :: "tool_env \<Rightarrow> string \<Rightarrow> string \<Rightarrow> (string \<rightharpoonup> string) \<Rightarrow> bool \<times> (string \<rightharpoonup> string)" where
  "WriteFile env path data files =
     (case te_deny env path of None \<Rightarrow> (True, files(path \<mapsto> data)) | Some left \<Rightarrow> (False, files(path := left)))"

definition loadPrivateKey :: "(string \<rightharpoonup> string) \<Rightarrow> string \<Rightarrow> string option" where
  "loadPrivateKey files path =
     (case files path of
        None \<Rightarrow> None
      | Some rawKey \<Rightarrow> (case DecodePrivateKey rawKey of Inl e \<Rightarrow> None | Inr priv \<Rightarrow> Some priv))"

text \<open>\<^verbatim>\<open>PrivateKey.Public\<close>: the last 32 bytes of the key.\<close>

definition public_of :: "string \<Rightarrow> string" where
  "public_of priv = drop 32 priv"

section \<open>The modes\<close>

definition keygen :: "tool_env \<Rightarrow> tool_flags \<Rightarrow> (string \<rightharpoonup> string) \<Rightarrow> tool_result" where
  "keygen env f files =
     (case te_keys env of
        None \<Rightarrow> Panicked files ''GenerateKey''
      | Some (pub, priv) \<Rightarrow>
          if f_key f = [] then Panicked files ''-key required''
          else (case WriteFile env (f_key f) (RawStdEncode priv) files of
                  (False, files) \<Rightarrow> Panicked files ''WriteFile''
                | (True, files) \<Rightarrow> Exit files (RawStdEncode pub @ [newline])))"

definition sign_file :: "crypto \<Rightarrow> tool_env \<Rightarrow> tool_flags \<Rightarrow> (string \<rightharpoonup> string) \<Rightarrow> tool_result" where
  "sign_file cr env f files =
     (if f_key f = [] \<or> f_input f = [] \<or> f_signature f = [] then
        Panicked files ''-key, -input and -signature required''
      else case loadPrivateKey files (f_key f) of
        None \<Rightarrow> Panicked files ''key''
      | Some priv \<Rightarrow>
          (case files (f_input f) of
             None \<Rightarrow> Panicked files ''ReadFile''
           | Some data \<Rightarrow>
               (case WriteFile env (f_signature f) (release_Sign cr priv data) files of
                  (False, files) \<Rightarrow> Panicked files ''WriteFile''
                | (True, files) \<Rightarrow> Exit files [])))"

definition check_keypair :: "tool_flags \<Rightarrow> (string \<rightharpoonup> string) \<Rightarrow> tool_result" where
  "check_keypair f files =
     (if f_key f = [] \<or> f_publicKey f = [] then Panicked files ''-key and -public-key required''
      else case loadPrivateKey files (f_key f) of
        None \<Rightarrow> Panicked files ''key''
      | Some priv \<Rightarrow>
          (case DecodePublicKey (f_publicKey f) of
             Inl e \<Rightarrow> Panicked files ''release private and public keys do not match''
           | Inr pub \<Rightarrow>
               if public_of priv \<noteq> pub then Panicked files ''release private and public keys do not match''
               else Exit files []))"

text \<open>\<^verbatim>\<open>json.MarshalIndent\<close> of a struct of strings and integers, with a final newline.\<close>

fun indent_members :: "(string \<times> json) list \<Rightarrow> string" where
  "indent_members [] = []"
| "indent_members [(k, v)] = ''  '' @ json_string k @ '': '' @ json_text v"
| "indent_members ((k, v) # m # ms) =
     ''  '' @ json_string k @ '': '' @ json_text v @ CHR '','' # newline # indent_members (m # ms)"

definition manifest_text :: "manifest \<Rightarrow> string" where
  "manifest_text m = CHR ''{'' # newline # indent_members (manifest_members m) @ [newline, CHR ''}'', newline]"

text \<open>The files in the order they are written; the first failure ends the run.\<close>

fun write_all :: "tool_env \<Rightarrow> (string \<times> string) list \<Rightarrow> (string \<rightharpoonup> string) \<Rightarrow> bool \<times> (string \<rightharpoonup> string)" where
  "write_all env [] files = (True, files)"
| "write_all env ((path, data) # ws) files =
     (case WriteFile env path data files of
        (False, files) \<Rightarrow> (False, files)
      | (True, files) \<Rightarrow> write_all env ws files)"

definition release_manifest :: "crypto \<Rightarrow> tool_env \<Rightarrow> tool_flags \<Rightarrow> string \<Rightarrow> string \<Rightarrow> manifest" where
  "release_manifest cr env f launcherVersion data =
     \<lparr>m_Version = f_version f, m_OS = f_targetOS f, m_Architecture = f_targetArch f,
      m_Filename = Base (f_filename f), m_URL = [], m_SHA256 = release_Hash cr data,
      m_Size = int (length data), m_Date = rfc3339 (te_now env), m_MinimumLauncher = launcherVersion,
      m_MinimumProtocol = Version\<rparr>"

definition sign_release :: "crypto \<Rightarrow> tool_env \<Rightarrow> tool_flags \<Rightarrow> (string \<rightharpoonup> string) \<Rightarrow> tool_result" where
  "sign_release cr env f files =
     (if f_key f = [] \<or> f_payload f = [] \<or> f_out f = [] then Panicked files ''-key, -payload and -out required''
      else
        let launcherVersion = (if f_launcherVersion f = [] then f_version f else f_launcherVersion f)
        in if \<not> VersionAtLeast (f_version f) launcherVersion then
             Panicked files ''invalid release or minimum launcher version''
           else case loadPrivateKey files (f_key f) of
             None \<Rightarrow> Panicked files ''key''
           | Some priv \<Rightarrow>
               (case files (f_payload f) of
                  None \<Rightarrow> Panicked files ''ReadFile''
                | Some data \<Rightarrow>
                    if \<not> te_mkdir env then Panicked files ''MkdirAll''
                    else
                      let name = Base (f_filename f)
                      in if name = dot \<or> name \<noteq> f_filename f
                            \<or> (f_targetOS f \<noteq> ''windows'' \<and> f_targetOS f \<noteq> ''linux'' \<and> f_targetOS f \<noteq> ''darwin'')
                            \<or> (f_targetArch f \<noteq> ''amd64'' \<and> f_targetArch f \<noteq> ''arm64'') then
                           Panicked files ''invalid release target or filename''
                         else
                           let m = release_manifest cr env f launcherVersion data;
                               mb = manifest_text m
                           in (case write_all env
                                 [(Join (f_out f) name, data),
                                  (Join (f_out f) (name @ ''.sig''), release_Sign cr priv data),
                                  (Join (f_out f) ''manifest.json'', mb),
                                  (Join (f_out f) ''manifest.json.sig'', release_Sign cr priv mb)] files of
                                 (False, files) \<Rightarrow> Panicked files ''WriteFile''
                               | (True, files) \<Rightarrow> Exit files (m_SHA256 m @ [newline]))))"

definition release_tool :: "crypto \<Rightarrow> tool_env \<Rightarrow> tool_flags \<Rightarrow> (string \<rightharpoonup> string) \<Rightarrow> tool_result" where
  "release_tool cr env f files =
     (if f_mode f = ''keygen'' then keygen env f files
      else if f_mode f = ''sign-file'' then sign_file cr env f files
      else if f_mode f = ''check-keypair'' then check_keypair f files
      else if f_mode f \<noteq> ''sign'' then Panicked files ''unsupported mode''
      else sign_release cr env f files)"

section \<open>The manifest is read back\<close>

lemma lex_space: "lex (CHR '' '' # s) = lex s" "lex (newline # s) = lex s"
  by (simp_all add: lex.simps json_space_def)

lemma lex_indent:
  "members_ok ms \<Longrightarrow>
   lex (indent_members ms @ newline # CHR ''}'' # s) = member_tokens ms @ Punct (CHR ''}'') # lex s"
  by (induction ms rule: indent_members.induct)
     (simp_all add: lex_space lex_punct lex_json_string lex_text(1))

lemma members_ok_append: "members_ok (xs @ ys) \<longleftrightarrow> members_ok xs \<and> members_ok ys"
  by (induction xs) auto

lemma members_depth_append: "members_depth (xs @ ys) = max (members_depth xs) (members_depth ys)"
  by (induction xs) auto

lemma parse_manifest_text:
  assumes "members_ok (manifest_members m)"
  shows "parse_json (manifest_text m) = Some (JObject (manifest_members m))"
proof -
  have "lex (manifest_text m) = json_tokens (JObject (manifest_members m))"
    using lex_indent [OF assms, of "[newline]"] by (simp add: manifest_text_def lex_space lex_punct)
  moreover have "members_depth (manifest_members m) = 0"
    by (simp add: manifest_members_def members_depth_append)
  ultimately show ?thesis
    using read_json_tokens [of "JObject (manifest_members m)" "[]"]
    by (simp add: parse_json_def del: json_tokens.simps)
qed

lemma names_utf8:
  "list_all valid_utf8 [''version'', ''os'', ''architecture'', ''filename'', ''url'', ''sha256'', ''size'', ''date'',
     ''minimumLauncher'', ''minimumProtocol'']"
  by (simp add: ascii_valid)

lemma unmarshal_manifest_text:
  assumes "list_all valid_utf8 [m_Version m, m_OS m, m_Architecture m, m_Filename m, m_URL m, m_SHA256 m, m_Date m,
      m_MinimumLauncher m]"
    and "in_int64 (m_Size m)" and "in_int64 (m_MinimumProtocol m)"
  shows "unmarshal manifest_fields no_manifest (manifest_text m) = Some m"
proof -
  have ok: "members_ok (manifest_members m)"
    using assms(1) names_utf8 by (auto simp: manifest_members_def members_ok_append)
  have "set_fields False manifest_fields (manifest_members m) no_manifest = Some m"
    using assms(2,3)
    by (simp add: manifest_members_def find_field_def manifest_fields_def Atoi_Itoa no_manifest_def)
  then show ?thesis using parse_manifest_text [OF ok] by (simp add: unmarshal_def)
qed

section \<open>What the tool signs, the launcher loads\<close>

lemma WriteFile_ok: "WriteFile env path data files = (True, files') \<longleftrightarrow> te_deny env path = None \<and> files' = files(path \<mapsto> data)"
  by (auto simp: WriteFile_def split: option.splits)

lemma write_all_ok:
  "write_all env ws files = (True, files') \<Longrightarrow> files' = files ++ map_of (rev ws)"
proof (induction env ws files rule: write_all.induct)
  case (2 env path data ws files)
  then show ?case by (auto simp: WriteFile_ok split: prod.splits bool.splits)
qed simp

lemma release_Verify_Sign:
  "length (ed25519_sign cr priv msg) = 64 \<Longrightarrow> ed25519_verify cr pub msg (ed25519_sign cr priv msg) \<Longrightarrow>
   release_Verify cr pub msg (release_Sign cr priv msg)"
  by (simp add: release_Verify_def release_Sign_def raw_std.dec_enc)

lemma sign_release_exit:
  assumes "sign_release cr env f files = Exit files' out"
  obtains launcher priv data where "launcher = (if f_launcherVersion f = [] then f_version f else f_launcherVersion f)"
    and "VersionAtLeast (f_version f) launcher" and "loadPrivateKey files (f_key f) = Some priv"
    and "files (f_payload f) = Some data" and "f_out f \<noteq> []" and "Base (f_filename f) = f_filename f"
    and "f_targetOS f \<in> {''windows'', ''linux'', ''darwin''}" and "f_targetArch f \<in> {''amd64'', ''arm64''}"
    and "files' = files ++ map_of (rev
           [(Join (f_out f) (f_filename f), data),
            (Join (f_out f) (f_filename f @ ''.sig''), release_Sign cr priv data),
            (Join (f_out f) ''manifest.json'', manifest_text (release_manifest cr env f launcher data)),
            (Join (f_out f) ''manifest.json.sig'', release_Sign cr priv (manifest_text (release_manifest cr env f launcher data)))])"
  using assms unfolding sign_release_def Let_def
  by (auto split: if_splits option.splits prod.splits bool.splits dest!: write_all_ok simp del: write_all.simps)

lemma VersionAtLeast_nonempty: "VersionAtLeast a b \<Longrightarrow> a \<noteq> [] \<and> b \<noteq> []"
  by (auto simp: VersionAtLeast_def numericVersion_def TrimSpace_def TrimPrefix_def split: option.splits)

lemma good_part_names:
  "good_part ''manifest.json''" "good_part ''manifest.json.sig''" "good_part n \<Longrightarrow> good_part (n @ ''.sig'')"
  by (auto simp: good_part_def Cons_eq_append_conv)

lemma LoadAndVerify_signed:
  assumes "files (Join dir ''manifest.json'') = Some (manifest_text m)"
    and "files (Join dir ''manifest.json.sig'') = Some (release_Sign cr priv (manifest_text m))"
    and "files (Join dir (m_Filename m)) = Some data"
    and "files (Join dir (m_Filename m @ ''.sig'')) = Some (release_Sign cr priv data)"
    and "\<And>msg. length (ed25519_sign cr priv msg) = 64 \<and> ed25519_verify cr pub msg (ed25519_sign cr priv msg)"
    and "unmarshal manifest_fields no_manifest (manifest_text m) = Some m"
    and "Base (m_Filename m) = m_Filename m" "m_Filename m \<noteq> dot"
    and "m_Version m \<noteq> []" "m_MinimumLauncher m \<noteq> []" "0 < m_MinimumProtocol m"
    and "m_Size m = int (length data)" "m_SHA256 m = release_Hash cr data"
  shows "LoadAndVerify cr files dir pub (m_OS m) (m_Architecture m) = Inr (m, data)"
  using assms release_Verify_Sign [of cr priv _ pub] by (simp add: LoadAndVerify_def)


text \<open>A concrete release: a scheme whose signatures are the padded message.\<close>

definition padded_crypto :: crypto where
  "padded_crypto =
     \<lparr>sha256 = (\<lambda>s. s), ed25519_sign = (\<lambda>k m. take 64 (m @ replicate 64 nul)),
      ed25519_verify = (\<lambda>k m s. s = take 64 (m @ replicate 64 nul))\<rparr>"

lemma padded_scheme:
  "length (ed25519_sign padded_crypto priv msg) = 64
   \<and> ed25519_verify padded_crypto pub msg (ed25519_sign padded_crypto priv msg)"
  by (simp add: padded_crypto_def)

definition sample_flags :: tool_flags where
  "sample_flags = default_flags\<lparr>f_key := ''key'', f_payload := ''client'', f_out := ''out'', f_filename := ''client''\<rparr>"

definition sample_files :: "string \<rightharpoonup> string" where
  "sample_files = [''key'' \<mapsto> RawStdEncode (replicate 64 (CHR ''k'')), ''client'' \<mapsto> ''program'']"

definition sample_env :: tool_env where
  "sample_env = \<lparr>te_deny = Map.empty, te_mkdir = True, te_keys = None, te_now = 0\<rparr>"



text \<open>The same scheme for the launcher's check: every text with a signature is signed.\<close>

definition sample_manifest :: manifest where
  "sample_manifest = \<lparr>m_Version = ''1'', m_OS = ''linux'', m_Architecture = ''amd64'', m_Filename = ''p'', m_URL = [],
     m_SHA256 = release_Hash padded_crypto ''x'', m_Size = 1, m_Date = [], m_MinimumLauncher = ''1'', m_MinimumProtocol = 2\<rparr>"

definition sample_release :: "string \<rightharpoonup> string" where
  "sample_release =
     [Join ''d'' ''manifest.json'' \<mapsto> manifest_text sample_manifest,
      Join ''d'' ''manifest.json.sig'' \<mapsto> release_Sign padded_crypto [] (manifest_text sample_manifest),
      Join ''d'' ''p'' \<mapsto> ''x'', Join ''d'' ''p.sig'' \<mapsto> release_Sign padded_crypto [] ''x'']"

theorem LoadAndVerify_trusted_witness:
  "LoadAndVerify padded_crypto sample_release ''d'' ''pub'' ''linux'' ''amd64'' = Inr (sample_manifest, ''x'')
   \<and> m_SHA256 sample_manifest = release_Hash padded_crypto ''x''
   \<and> sample_release (Join ''d'' (m_Filename sample_manifest)) = Some ''x''"
proof -
  have J: "Join ''d'' a = Join ''d'' b \<longleftrightarrow> a = b" if "good_part a" "good_part b" for a b
    using Join_eq_iff [of "''d''" a b] that by simp
  have good: "good_part ''p''" "good_part ''p.sig''" by (simp_all add: good_part_def)
  have round: "unmarshal manifest_fields no_manifest (manifest_text sample_manifest) = Some sample_manifest"
    by (rule unmarshal_manifest_text) (simp_all add: sample_manifest_def ascii_valid release_Hash_def in_int64_def)
  have load: "LoadAndVerify padded_crypto sample_release ''d'' ''pub'' (m_OS sample_manifest) (m_Architecture sample_manifest)
      = Inr (sample_manifest, ''x'')"
    by (rule LoadAndVerify_signed [where priv = "[]"])
       (use round in \<open>simp_all add: sample_release_def J good good_part_names sample_manifest_def padded_scheme Base_def
          strip_slashes_def\<close>)
  have "ed25519_verify padded_crypto ''pub'' msg sig \<Longrightarrow> msg \<in> UNIV" for msg sig by simp
  from LoadAndVerify_trusted [OF load this] load show ?thesis by (simp add: sample_manifest_def)
qed

end
