(* ===== verification/Executor_Jobs.thy ===== *)
theory Executor_Jobs imports Executor_Inventory Paging begin

text \<open>
  Processes and asynchronous shell jobs of \<^verbatim>\<open>internal/executor/executor.go\<close>, and the
  dispatch of commands.  A process the bridge starts is an instance with a number of its own; the
  system may give its pid to another process once it has been waited for.  The goroutine that
  waits for a process is a sequence of steps, each of which may come between any two commands.
  Killing is that of \<^verbatim>\<open>runtime_other.go\<close>, \<^verbatim>\<open>os.Process.Kill\<close>.
\<close>

section \<open>Processes and jobs\<close>

text \<open>
  A process runs, has ended, has been waited for, and at last its goroutine has finished;
  one whose container could not be made has no goroutine.
\<close>

datatype stage = Running | Ended | Waited | Finished

record process =
  ps_pid :: int
  ps_stage :: stage
  ps_argv :: "string list"
  ps_watched :: bool

record world =
  w_exec :: executor
  w_procs :: "nat \<rightharpoonup> process"
  w_jobs :: "nat \<rightharpoonup> job"

definition set_owned :: "(int \<rightharpoonup> nat) \<Rightarrow> world \<Rightarrow> world" where
  "set_owned m w = w\<lparr>w_exec := (w_exec w)\<lparr>x_owned := m\<rparr>\<rparr>"

definition set_jobs :: "(string \<rightharpoonup> nat) \<Rightarrow> world \<Rightarrow> world" where
  "set_jobs m w = w\<lparr>w_exec := (w_exec w)\<lparr>x_jobs := m\<rparr>\<rparr>"

definition add_process :: "nat \<Rightarrow> process \<Rightarrow> world \<Rightarrow> world" where
  "add_process n p w = w\<lparr>w_procs := (w_procs w)(n \<mapsto> p)\<rparr>"

definition add_job :: "nat \<Rightarrow> job \<Rightarrow> world \<Rightarrow> world" where
  "add_job n j w = w\<lparr>w_jobs := (w_jobs w)(n \<mapsto> j)\<rparr>"

text \<open>\<^verbatim>\<open>Process.Kill\<close>: an error once the process has been waited for.\<close>

definition Terminate :: "nat \<Rightarrow> world \<Rightarrow> string option \<times> world" where
  "Terminate n w =
     (case w_procs w n of
        None \<Rightarrow> (Some ''os: process not initialized'', w)
      | Some p \<Rightarrow>
          if ps_stage p = Waited \<or> ps_stage p = Finished then (Some ''os: process already finished'', w)
          else (None, add_process n (p\<lparr>ps_stage := Ended\<rparr>) w))"

section \<open>Processes\<close>

record start_params =
  sp_Program :: string
  sp_Args :: "string list"

fun json_string_value :: "json \<Rightarrow> string option" where
  "json_string_value (JString s) = Some s"
| "json_string_value JNull = Some []"
| "json_string_value v = None"

fun set_strings :: "(string list \<Rightarrow> 'r \<Rightarrow> 'r) \<Rightarrow> json \<Rightarrow> 'r \<Rightarrow> 'r option" where
  "set_strings f (JArray vs) r = map_option (\<lambda>ss. f ss r) (all_Some (map json_string_value vs))"
| "set_strings f JNull r = Some (f [] r)"
| "set_strings f v r = None"

definition start_fields :: "start_params field list" where
  "start_fields =
     [(''program'', set_string (\<lambda>s. sp_Program_update (\<lambda>_. s))), (''args'', set_strings (\<lambda>ss. sp_Args_update (\<lambda>_. ss)))]"

definition no_start_params :: start_params where
  "no_start_params = \<lparr>sp_Program = [], sp_Args = []\<rparr>"

text \<open>
  What starting a program comes to: an error, or a pid and the number of the new instance, and
  whether its container could be made.
\<close>

datatype launch = Start_failed string | Started int nat bool

definition processStart :: "launch \<Rightarrow> world \<Rightarrow> command \<Rightarrow> reply \<times> world" where
  "processStart l w c =
     (case decode_strict start_fields no_start_params (c_Params c) of
        None \<Rightarrow> (failure ''invalid process request'', w)
      | Some p \<Rightarrow>
          if sp_Program p = [] then (failure ''invalid process request'', w)
          else (case l of
            Start_failed m \<Rightarrow> (failure m, w)
          | Started pid n boxed \<Rightarrow>
              let w = add_process n \<lparr>ps_pid = pid, ps_stage = Running, ps_argv = sp_Program p # sp_Args p, ps_watched = boxed\<rparr> w
              in if \<not> boxed then (failure ''container'', snd (Terminate n w))
                 else (marshal (JObject [(''pid'', JNumber (Itoa pid))]),
                       set_owned ((x_owned (w_exec w))(pid \<mapsto> n)) w)))"

definition pid_fields :: "int field list" where
  "pid_fields = [(''pid'', set_int (\<lambda>i _. i))]"

definition processStop :: "world \<Rightarrow> command \<Rightarrow> reply \<times> world" where
  "processStop w c =
     (case decode_strict pid_fields 0 (c_Params c) of
        None \<Rightarrow> (failure ''invalid pid'', w)
      | Some pid \<Rightarrow>
          (case x_owned (w_exec w) pid of
             None \<Rightarrow> (failure ''process is not owned by bridge'', w)
           | Some n \<Rightarrow>
               (case Terminate n w of
                  (err, w) \<Rightarrow> (marshalWithError (JObject [(''pid'', JNumber (Itoa pid))]) err, w))))"

section \<open>Jobs\<close>

text \<open>\<^verbatim>\<open>newID\<close>: twelve random bytes in hexadecimal.\<close>

definition newID :: "string \<Rightarrow> string" where
  "newID random = hex_encode random"

record shell_params =
  sh_Command :: string
  sh_TimeoutSeconds :: int

definition shell_fields :: "shell_params field list" where
  "shell_fields =
     [(''command'', set_string (\<lambda>s. sh_Command_update (\<lambda>_. s))),
      (''timeoutSeconds'', set_int (\<lambda>i. sh_TimeoutSeconds_update (\<lambda>_. i)))]"

definition no_shell_params :: shell_params where
  "no_shell_params = \<lparr>sh_Command = [], sh_TimeoutSeconds = 0\<rparr>"

definition shell_argv :: "guest \<Rightarrow> string \<Rightarrow> string list" where
  "shell_argv g cmd =
     (if g_goos g = ''windows'' then [''cmd.exe'', ''/d'', ''/s'', ''/c'', cmd] else [''/bin/sh'', ''-c'', cmd])"

definition new_job :: "int \<Rightarrow> time \<Rightarrow> job" where
  "new_job pid now =
     \<lparr>j_pid = pid, j_out = empty_capped, j_done = False, j_err = None, j_started = now, j_finished = zero_time,
      j_cancelled = False\<rparr>"

definition shellStart :: "guest \<Rightarrow> launch \<Rightarrow> string \<Rightarrow> world \<Rightarrow> command \<Rightarrow> reply \<times> world" where
  "shellStart g l random w c =
     (case decode_strict shell_fields no_shell_params (c_Params c) of
        None \<Rightarrow> (failure ''invalid asynchronous shell command'', w)
      | Some p \<Rightarrow>
          if sh_Command p = [] \<or> 32768 < length (sh_Command p) \<or> nul \<in> set (sh_Command p) then
            (failure ''invalid asynchronous shell command'', w)
          else
            let seconds = (if sh_TimeoutSeconds p \<le> 0 then 300 else sh_TimeoutSeconds p)
            in if 3600 < seconds then (failure ''timeout exceeds one hour'', w)
               else (case l of
                 Start_failed m \<Rightarrow> (failure m, w)
               | Started pid n boxed \<Rightarrow>
                   let w = add_process n \<lparr>ps_pid = pid, ps_stage = Running, ps_argv = shell_argv g (sh_Command p), ps_watched = boxed\<rparr> w
                   in if \<not> boxed then (failure ''container'', snd (Terminate n w))
                      else
                        let jid = newID random;
                            w = set_jobs ((x_jobs (w_exec w))(jid \<mapsto> n)) (add_job n (new_job pid (g_now g)) w)
                        in (marshal (JObject [(''jobId'', JString jid), (''pid'', JNumber (Itoa pid)),
                              (''startedAt'', JString (rfc3339_nano (g_now g)))]), w)))"

record status_params =
  st_JobID :: string
  st_Offset :: int

definition status_fields :: "status_params field list" where
  "status_fields =
     [(''jobId'', set_string (\<lambda>s. st_JobID_update (\<lambda>_. s))), (''offset'', set_int (\<lambda>i. st_Offset_update (\<lambda>_. i)))]"

definition no_status_params :: status_params where
  "no_status_params = \<lparr>st_JobID = [], st_Offset = 0\<rparr>"

definition job_of :: "world \<Rightarrow> string \<Rightarrow> (nat \<times> job) option" where
  "job_of w jid =
     (case x_jobs (w_exec w) jid of
        None \<Rightarrow> None
      | Some n \<Rightarrow> (case w_jobs w n of None \<Rightarrow> None | Some j \<Rightarrow> Some (n, j)))"

definition status_json :: "guest \<Rightarrow> string \<Rightarrow> nat \<Rightarrow> job \<Rightarrow> json" where
  "status_json g jid offset j =
     (let (raw, total) = capped_snapshot (j_out j);
          offset = (if length raw < offset then length raw else offset)
      in JObject
           [(''exitCode'', JNumber (Itoa (exitCode (j_err j)))), (''finishedAt'', JString (rfc3339_nano (j_finished j))),
            (''jobId'', JString jid), (''nextOffset'', JNumber (Itoa (int (length raw)))),
            (''output'', JString (normalizeOutput g (drop offset raw))), (''running'', JBool (\<not> j_done j)),
            (''startedAt'', JString (rfc3339_nano (j_started j))), (''totalBytes'', JNumber (Itoa total))])"

definition shellStatus :: "guest \<Rightarrow> world \<Rightarrow> command \<Rightarrow> reply" where
  "shellStatus g w c =
     (case decode_strict status_fields no_status_params (c_Params c) of
        None \<Rightarrow> failure ''invalid job status request''
      | Some p \<Rightarrow>
          if st_JobID p = [] \<or> st_Offset p < 0 then failure ''invalid job status request''
          else (case job_of w (st_JobID p) of
            None \<Rightarrow> failure ''job not found''
          | Some (n, j) \<Rightarrow> marshal (status_json g (st_JobID p) (nat (st_Offset p)) j)))"

definition job_fields :: "string field list" where
  "job_fields = [(''jobId'', set_string (\<lambda>s _. s))]"

definition cancel_json :: "bool \<Rightarrow> string \<Rightarrow> string \<Rightarrow> json" where
  "cancel_json cancelled jid st =
     JObject [(''cancelled'', JBool cancelled), (''jobId'', JString jid), (''status'', JString st)]"

definition shellCancel :: "world \<Rightarrow> command \<Rightarrow> reply \<times> world" where
  "shellCancel w c =
     (case decode_strict job_fields [] (c_Params c) of
        None \<Rightarrow> (failure ''invalid job cancellation request'', w)
      | Some jid \<Rightarrow>
          if jid = [] then (failure ''invalid job cancellation request'', w)
          else (case job_of w jid of
            None \<Rightarrow> (failure ''job not found'', w)
          | Some (n, j) \<Rightarrow>
              if j_done j then (marshal (cancel_json False jid ''already_completed''), w)
              else (case Terminate n w of
                      (Some err, w) \<Rightarrow> (marshalWithError (cancel_json False jid ''termination_failed'') (Some err), w)
                    | (None, w) \<Rightarrow>
                        (marshal (cancel_json True jid ''cancel_requested''), add_job n (j\<lparr>j_cancelled := True\<rparr>) w))))"

section \<open>Steps\<close>

text \<open>
  A launch gives a fresh instance whose pid no process has that is still to be waited for; with
  \<open>reuse\<close> the system may give it the pid of one whose goroutine has not finished yet.
\<close>

definition launch_ok :: "bool \<Rightarrow> world \<Rightarrow> launch \<Rightarrow> bool" where
  "launch_ok reuse w l =
     (case l of
        Start_failed m \<Rightarrow> True
      | Started pid n boxed \<Rightarrow>
          w_procs w n = None \<and> w_jobs w n = None
          \<and> (\<forall>m p. w_procs w m = Some p \<longrightarrow> ps_pid p = pid \<longrightarrow> ps_stage p = Finished \<or> (reuse \<and> ps_stage p = Waited)))"

definition move :: "nat \<Rightarrow> stage \<Rightarrow> world \<Rightarrow> world" where
  "move n st w = (case w_procs w n of None \<Rightarrow> w | Some p \<Rightarrow> add_process n (p\<lparr>ps_stage := st\<rparr>) w)"

text \<open>
  Commands, what processes do by themselves, and the goroutines: of a started process (wait;
  remove the pid from the owned ones) and of a job (wait and note the outcome; announce that it
  is done; five minutes later remove the job).
\<close>

inductive wstep :: "bool \<Rightarrow> guest \<Rightarrow> world \<Rightarrow> world \<Rightarrow> bool" for reuse :: bool and g :: guest where
  do_start: "launch_ok reuse w l \<Longrightarrow> processStart l w c = (r, u) \<Longrightarrow> wstep reuse g w u"
| do_stop: "processStop w c = (r, u) \<Longrightarrow> wstep reuse g w u"
| do_shell: "launch_ok reuse w l \<Longrightarrow> shellStart g' l random w c = (r, u) \<Longrightarrow> wstep reuse g w u"
| do_cancel: "shellCancel w c = (r, u) \<Longrightarrow> wstep reuse g w u"
| ends: "w_procs w n = Some p \<Longrightarrow> ps_stage p = Running \<Longrightarrow> wstep reuse g w (move n Ended w)"
| waited: "w_procs w n = Some p \<Longrightarrow> ps_stage p = Ended \<Longrightarrow> ps_watched p \<Longrightarrow> w_jobs w n = None \<Longrightarrow>
    wstep reuse g w (move n Waited w)"
| unregistered: "w_procs w n = Some p \<Longrightarrow> ps_stage p = Waited \<Longrightarrow> w_jobs w n = None \<Longrightarrow>
    wstep reuse g w (set_owned ((x_owned (w_exec w))(ps_pid p := None)) (move n Finished w))"
| job_writes: "w_procs w n = Some p \<Longrightarrow> ps_stage p = Running \<or> ps_stage p = Ended \<Longrightarrow> w_jobs w n = Some j \<Longrightarrow>
    wstep reuse g w (add_job n (j\<lparr>j_out := snd (capped_Write s (j_out j))\<rparr>) w)"
| job_waited: "w_procs w n = Some p \<Longrightarrow> ps_stage p = Ended \<Longrightarrow> w_jobs w n = Some j \<Longrightarrow>
    wstep reuse g w (add_job n (j\<lparr>j_err := err, j_finished := now\<rparr>) (move n Waited w))"
| job_done: "w_procs w n = Some p \<Longrightarrow> ps_stage p = Waited \<Longrightarrow> w_jobs w n = Some j \<Longrightarrow>
    wstep reuse g w (add_job n (j\<lparr>j_done := True\<rparr>) (move n Finished w))"
| job_expires: "w_jobs w n = Some j \<Longrightarrow> j_done j \<Longrightarrow> j_finished j + 5 * minute \<le> now \<Longrightarrow> x_jobs (w_exec w) jid = Some n \<Longrightarrow>
    wstep reuse g w (set_jobs ((x_jobs (w_exec w))(jid := None)) w)"

definition new_world :: "executor \<Rightarrow> world" where
  "new_world e = \<lparr>w_exec = e\<lparr>x_owned := Map.empty, x_jobs := Map.empty\<rparr>, w_procs = Map.empty, w_jobs = Map.empty\<rparr>"

inductive runs :: "bool \<Rightarrow> guest \<Rightarrow> world \<Rightarrow> world \<Rightarrow> bool" for reuse :: bool and g :: guest where
  stay: "runs reuse g w w"
| step: "runs reuse g w v \<Longrightarrow> wstep reuse g v u \<Longrightarrow> runs reuse g w u"

lemma runs_trans: "runs reuse g v u \<Longrightarrow> runs reuse g w v \<Longrightarrow> runs reuse g w u"
  by (induction rule: runs.induct) (auto intro: runs.intros)

lemmas world_defs = set_owned_def set_jobs_def add_process_def add_job_def

section \<open>What commands do to the world\<close>

lemma Terminate_cases:
  assumes "Terminate n w = (err, u)"
  obtains "u = w" and "err \<noteq> None"
  | p where "w_procs w n = Some p" and "ps_stage p = Running \<or> ps_stage p = Ended" and "u = move n Ended w" and "err = None"
proof (cases "w_procs w n")
  case None
  then show thesis using assms that(1) by (auto simp: Terminate_def)
next
  case (Some p)
  show thesis
  proof (cases "ps_stage p = Waited \<or> ps_stage p = Finished")
    case True
    then show thesis using assms Some that(1) by (auto simp: Terminate_def)
  next
    case False
    then have "ps_stage p = Running \<or> ps_stage p = Ended" using stage.exhaust by blast
    then show thesis using assms Some that(2) by (auto simp: Terminate_def move_def)
  qed
qed

lemma processStart_cases:
  assumes "processStart l w c = (r, u)"
  obtains "u = w" and "snd r \<noteq> None"
  | pid n argv where "l = Started pid n False" and "snd r \<noteq> None"
      and "u = add_process n \<lparr>ps_pid = pid, ps_stage = Ended, ps_argv = argv, ps_watched = False\<rparr> w"
  | pid n argv where "l = Started pid n True" and "r = marshal (JObject [(''pid'', JNumber (Itoa pid))])"
      and "u = set_owned ((x_owned (w_exec w))(pid \<mapsto> n))
        (add_process n \<lparr>ps_pid = pid, ps_stage = Running, ps_argv = argv, ps_watched = True\<rparr> w)"
  using assms
  by (auto simp: processStart_def failure_def Let_def Terminate_def world_defs split: option.splits if_splits launch.splits)

lemma shellStart_cases:
  assumes "shellStart g l random w c = (r, u)"
  obtains "u = w" and "snd r \<noteq> None"
  | pid n argv where "l = Started pid n False" and "snd r \<noteq> None"
      and "u = add_process n \<lparr>ps_pid = pid, ps_stage = Ended, ps_argv = argv, ps_watched = False\<rparr> w"
  | pid n argv where "l = Started pid n True" and "snd r = None"
      and "u = set_jobs ((x_jobs (w_exec w))(newID random \<mapsto> n)) (add_job n (new_job pid (g_now g))
        (add_process n \<lparr>ps_pid = pid, ps_stage = Running, ps_argv = argv, ps_watched = True\<rparr> w))"
  using assms
  by (auto simp: shellStart_def failure_def marshal_def Let_def Terminate_def world_defs split: option.splits if_splits launch.splits)

lemma processStop_cases:
  assumes "processStop w c = (r, u)"
  obtains "u = w" and "snd r \<noteq> None"
  | pid n p where "decode_strict pid_fields 0 (c_Params c) = Some pid" and "x_owned (w_exec w) pid = Some n"
      and "w_procs w n = Some p" and "ps_stage p = Running \<or> ps_stage p = Ended" and "u = move n Ended w" and "snd r = None"
proof -
  consider "u = w" "snd r \<noteq> None"
    | pid n err where "decode_strict pid_fields 0 (c_Params c) = Some pid" "x_owned (w_exec w) pid = Some n"
        "Terminate n w = (err, u)" "snd r = err"
    using assms
    by (auto simp: processStop_def failure_def marshalWithError_def split: option.splits prod.splits)
  then show thesis
  proof cases
    case (2 pid n err)
    show thesis by (rule Terminate_cases [OF 2(3)]) (use that 2 in auto)
  qed (use that in blast)
qed

lemma shellCancel_cases:
  assumes "shellCancel w c = (r, u)"
  obtains "u = w"
  | jid n j p where "x_jobs (w_exec w) jid = Some n" and "w_jobs w n = Some j" and "\<not> j_done j"
      and "w_procs w n = Some p" and "ps_stage p = Running \<or> ps_stage p = Ended"
      and "u = add_job n (j\<lparr>j_cancelled := True\<rparr>) (move n Ended w)"
proof -
  consider "u = w"
    | jid n j err v where "x_jobs (w_exec w) jid = Some n" "w_jobs w n = Some j" "\<not> j_done j"
        "Terminate n w = (err, v)" "u = (if err = None then add_job n (j\<lparr>j_cancelled := True\<rparr>) v else v)"
    using assms
    by (auto simp: shellCancel_def job_of_def split: option.splits if_splits prod.splits)
  then show thesis
  proof cases
    case (2 jid n j err v)
    show thesis by (rule Terminate_cases [OF 2(4)]) (use that 2 in auto)
  qed (use that in blast)
qed

section \<open>The invariant\<close>

definition live :: "process \<Rightarrow> bool" where
  "live p \<longleftrightarrow> ps_stage p = Running \<or> ps_stage p = Ended"

text \<open>A process holds its pid until it is waited for; without reuse until its goroutine is done.\<close>

definition holds_pid :: "bool \<Rightarrow> process \<Rightarrow> bool" where
  "holds_pid reuse p \<longleftrightarrow> live p \<or> (\<not> reuse \<and> ps_stage p = Waited)"

definition pids_ok :: "bool \<Rightarrow> world \<Rightarrow> bool" where
  "pids_ok reuse w \<longleftrightarrow>
     (\<forall>m n p q. w_procs w m = Some p \<longrightarrow> w_procs w n = Some q \<longrightarrow> ps_pid p = ps_pid q \<longrightarrow>
        holds_pid reuse p \<longrightarrow> holds_pid reuse q \<longrightarrow> m = n)"

definition owned_ok :: "world \<Rightarrow> bool" where
  "owned_ok w \<longleftrightarrow>
     (\<forall>pid n. x_owned (w_exec w) pid = Some n \<longrightarrow>
        (\<exists>p. w_procs w n = Some p \<and> ps_pid p = pid \<and> ps_watched p \<and> w_jobs w n = None))"

definition job_ok :: "process \<Rightarrow> job \<Rightarrow> bool" where
  "job_ok p j \<longleftrightarrow>
     ps_watched p \<and> ps_pid p = j_pid j \<and> (j_done j \<longleftrightarrow> ps_stage p = Finished) \<and> capped_ok (j_out j)
     \<and> (live p \<longrightarrow> j_err j = None \<and> j_finished j = zero_time)"

definition jobs_ok :: "world \<Rightarrow> bool" where
  "jobs_ok w \<longleftrightarrow>
     (\<forall>n j. w_jobs w n = Some j \<longrightarrow> (\<exists>p. w_procs w n = Some p \<and> job_ok p j))
     \<and> (\<forall>jid n. x_jobs (w_exec w) jid = Some n \<longrightarrow> w_jobs w n \<noteq> None)"

text \<open>Every started process whose goroutine has not finished can be stopped.\<close>

definition registered :: "world \<Rightarrow> bool" where
  "registered w \<longleftrightarrow>
     (\<forall>n p. w_procs w n = Some p \<longrightarrow> ps_watched p \<longrightarrow> w_jobs w n = None \<longrightarrow> ps_stage p \<noteq> Finished \<longrightarrow>
        x_owned (w_exec w) (ps_pid p) = Some n)"

lemma move_simps [simp]:
  "w_exec (move n st w) = w_exec w" "w_jobs (move n st w) = w_jobs w"
  "w_procs w n = Some p \<Longrightarrow> w_procs (move n st w) = (w_procs w)(n \<mapsto> p\<lparr>ps_stage := st\<rparr>)"
  by (simp_all add: move_def add_process_def split: option.splits)

lemma world_simps [simp]:
  "w_exec (set_owned m w) = (w_exec w)\<lparr>x_owned := m\<rparr>" "w_procs (set_owned m w) = w_procs w" "w_jobs (set_owned m w) = w_jobs w"
  "w_exec (set_jobs k w) = (w_exec w)\<lparr>x_jobs := k\<rparr>" "w_procs (set_jobs k w) = w_procs w" "w_jobs (set_jobs k w) = w_jobs w"
  "w_exec (add_process n p w) = w_exec w" "w_procs (add_process n p w) = (w_procs w)(n \<mapsto> p)" "w_jobs (add_process n p w) = w_jobs w"
  "w_exec (add_job n j w) = w_exec w" "w_procs (add_job n j w) = w_procs w" "w_jobs (add_job n j w) = (w_jobs w)(n \<mapsto> j)"
  by (simp_all add: world_defs)

lemma stage_simps [simp]:
  "holds_pid reuse (p\<lparr>ps_stage := Ended\<rparr>)" "holds_pid reuse (p\<lparr>ps_stage := Waited\<rparr>) = (\<not> reuse)"
  "\<not> holds_pid reuse (p\<lparr>ps_stage := Finished\<rparr>)" "live (p\<lparr>ps_stage := Ended\<rparr>)" "\<not> live (p\<lparr>ps_stage := Waited\<rparr>)"
  "\<not> live (p\<lparr>ps_stage := Finished\<rparr>)"
  by (simp_all add: holds_pid_def live_def)

lemma live_holds: "ps_stage p = Running \<or> ps_stage p = Ended \<Longrightarrow> holds_pid reuse p"
  by (simp add: holds_pid_def live_def)

lemma pids_ok_move:
  "pids_ok reuse w \<Longrightarrow> w_procs w n = Some p \<Longrightarrow> holds_pid reuse (p\<lparr>ps_stage := st\<rparr>) \<longrightarrow> holds_pid reuse p \<Longrightarrow>
   w_procs u = (w_procs w)(n \<mapsto> p\<lparr>ps_stage := st\<rparr>) \<Longrightarrow> pids_ok reuse u"
  unfolding pids_ok_def by (auto split: if_splits)

lemma pids_ok_launch:
  assumes "pids_ok reuse w" and "launch_ok reuse w (Started pid n boxed)"
    and "w_procs u = (w_procs w)(n \<mapsto> p)" and "ps_pid p = pid"
  shows "pids_ok reuse u"
proof -
  have "\<not> holds_pid reuse q" if "w_procs w m = Some q" "ps_pid q = pid" for m q
    using assms(2) that unfolding launch_ok_def holds_pid_def live_def by fastforce
  then show ?thesis using assms(1,3,4) unfolding pids_ok_def by (auto split: if_splits)
qed

lemma wstep_pids: "wstep reuse g w u \<Longrightarrow> pids_ok reuse w \<Longrightarrow> pids_ok reuse u"
proof (induction rule: wstep.induct)
  case (do_start w l c r u)
  show ?case by (rule processStart_cases [OF do_start(2)]) (use do_start pids_ok_launch in \<open>auto\<close>)
next
  case (do_stop w c r u)
  show ?case by (rule processStop_cases [OF do_stop(1)]) (use do_stop pids_ok_move live_holds in \<open>auto\<close>)
next
  case (do_shell w l g' random c r u)
  show ?case by (rule shellStart_cases [OF do_shell(2)]) (use do_shell pids_ok_launch in \<open>auto\<close>)
next
  case (do_cancel w c r u)
  show ?case by (rule shellCancel_cases [OF do_cancel(1)]) (use do_cancel pids_ok_move live_holds in \<open>auto\<close>)
next
  case (ends w n p)
  show ?case by (rule pids_ok_move [OF ends(3,1)]) (use ends live_holds in auto)
next
  case (waited w n p)
  show ?case by (rule pids_ok_move [OF waited(5,1)]) (use waited live_holds in auto)
next
  case (unregistered w n p)
  show ?case by (rule pids_ok_move [OF unregistered(4,1)]) (use unregistered in auto)
next
  case (job_waited w n p j now err)
  show ?case by (rule pids_ok_move [OF job_waited(4,1)]) (use job_waited live_holds in auto)
next
  case (job_done w n p j)
  show ?case by (rule pids_ok_move [OF job_done(4,1)]) (use job_done in auto)
qed (simp_all add: pids_ok_def)

lemma owned_ok_cong:
  assumes "owned_ok w" and "x_owned (w_exec u) = x_owned (w_exec w)" and "w_jobs w = w_jobs u \<or> (\<exists>n j. w_jobs u = (w_jobs w)(n \<mapsto> j) \<and> w_jobs w n \<noteq> None)"
    and "\<And>n p. w_procs w n = Some p \<Longrightarrow> \<exists>q. w_procs u n = Some q \<and> ps_pid q = ps_pid p \<and> ps_watched q = ps_watched p"
  shows "owned_ok u"
  unfolding owned_ok_def
proof (intro allI impI)
  fix pid n assume "x_owned (w_exec u) pid = Some n"
  then obtain p where p: "w_procs w n = Some p" "ps_pid p = pid" "ps_watched p" "w_jobs w n = None"
    using assms(1,2) unfolding owned_ok_def by auto
  then obtain q where "w_procs u n = Some q" "ps_pid q = pid" "ps_watched q" using assms(4) by blast
  moreover have "w_jobs u n = None" using assms(3) p(4) by auto
  ultimately show "\<exists>p. w_procs u n = Some p \<and> ps_pid p = pid \<and> ps_watched p \<and> w_jobs u n = None" by blast
qed

lemma owned_ok_move: "owned_ok w \<Longrightarrow> owned_ok (move n st w)"
  by (cases "w_procs w n") (simp add: move_def, rule owned_ok_cong, auto)

lemma owned_ok_new: "owned_ok w \<Longrightarrow> w_procs w n = None \<Longrightarrow> owned_ok (add_process n p w)"
  unfolding owned_ok_def by fastforce

lemma owned_ok_job: "owned_ok w \<Longrightarrow> w_jobs w n \<noteq> None \<or> (\<forall>pid. x_owned (w_exec w) pid \<noteq> Some n) \<Longrightarrow> owned_ok (add_job n j w)"
  unfolding owned_ok_def by fastforce

lemma owned_fresh: "owned_ok w \<Longrightarrow> w_procs w n = None \<Longrightarrow> x_owned (w_exec w) pid \<noteq> Some n"
  unfolding owned_ok_def by fastforce

lemma owned_ok_register:
  assumes "owned_ok w" and "w_procs w n = None" and "w_jobs w n = None" and "ps_watched p" and "ps_pid p = pid"
  shows "owned_ok (set_owned ((x_owned (w_exec w))(pid \<mapsto> n)) (add_process n p w))"
  unfolding owned_ok_def
proof (intro allI impI)
  fix q m assume m: "x_owned (w_exec (set_owned ((x_owned (w_exec w))(pid \<mapsto> n)) (add_process n p w))) q = Some m"
  show "\<exists>r. w_procs (set_owned ((x_owned (w_exec w))(pid \<mapsto> n)) (add_process n p w)) m = Some r \<and> ps_pid r = q
      \<and> ps_watched r \<and> w_jobs (set_owned ((x_owned (w_exec w))(pid \<mapsto> n)) (add_process n p w)) m = None"
  proof (cases "m = n")
    case True
    then show ?thesis using assms m owned_fresh [OF assms(1,2)] by (auto split: if_splits)
  next
    case False
    then have "x_owned (w_exec w) q = Some m" using m by (auto split: if_splits)
    then show ?thesis using assms(1) False by (auto simp: owned_ok_def)
  qed
qed

lemma wstep_owned: "wstep reuse g w u \<Longrightarrow> owned_ok w \<Longrightarrow> owned_ok u"
proof (induction rule: wstep.induct)
  case (do_start w l c r u)
  show ?case
  proof (rule processStart_cases [OF do_start(2)])
    fix pid n argv
    assume l: "l = Started pid n True"
      and u: "u = set_owned ((x_owned (w_exec w))(pid \<mapsto> n))
        (add_process n \<lparr>ps_pid = pid, ps_stage = Running, ps_argv = argv, ps_watched = True\<rparr> w)"
    have "w_procs w n = None" "w_jobs w n = None" using do_start(1) l by (simp_all add: launch_ok_def)
    then show ?thesis using owned_ok_register [OF do_start(3)] u by simp
  qed (use do_start owned_ok_new in \<open>auto simp: launch_ok_def\<close>)
next
  case (do_stop w c r u)
  show ?case by (rule processStop_cases [OF do_stop(1)]) (use do_stop owned_ok_move in auto)
next
  case (do_shell w l g' random c r u)
  show ?case
  proof (rule shellStart_cases [OF do_shell(2)])
    fix pid n argv
    assume l: "l = Started pid n True"
      and u: "u = set_jobs ((x_jobs (w_exec w))(newID random \<mapsto> n)) (add_job n (new_job pid (g_now g'))
        (add_process n \<lparr>ps_pid = pid, ps_stage = Running, ps_argv = argv, ps_watched = True\<rparr> w))"
    have "w_procs w n = None" using do_shell(1) l by (simp add: launch_ok_def)
    then show ?thesis
      using u owned_ok_job [OF owned_ok_new [OF do_shell(3)]] owned_fresh [OF do_shell(3)]
      by (simp add: owned_ok_def [of "set_jobs a b" for a b] owned_ok_def [of "add_job a b c" for a b c])
  qed (use do_shell owned_ok_new in \<open>auto simp: launch_ok_def\<close>)
next
  case (do_cancel w c r u)
  show ?case by (rule shellCancel_cases [OF do_cancel(1)]) (use do_cancel owned_ok_move owned_ok_job in auto)
next
  case (unregistered w n p)
  have "owned_ok (move n Finished w)" using unregistered(4) by (rule owned_ok_move)
  then show ?case by (auto simp: owned_ok_def)
next
  case (job_expires w n j now jid)
  then show ?case by (simp add: owned_ok_def)
qed (auto intro: owned_ok_move owned_ok_job)

lemma jobs_ok_change:
  assumes "jobs_ok w" and "w_procs u = (w_procs w)(n \<mapsto> p)" and "x_jobs (w_exec u) = x_jobs (w_exec w)"
    and "w_jobs u = w_jobs w \<and> (\<forall>j. w_jobs w n = Some j \<longrightarrow> job_ok p j) \<or> (\<exists>j. w_jobs u = (w_jobs w)(n \<mapsto> j) \<and> job_ok p j)"
  shows "jobs_ok u"
proof -
  have old: "\<exists>q. w_procs w m = Some q \<and> job_ok q j" if "w_jobs w m = Some j" for m j
    using that assms(1) by (auto simp: jobs_ok_def)
  have "\<exists>q. w_procs u m = Some q \<and> job_ok q j" if "w_jobs u m = Some j" for m j
    using old [of m j] assms(2,4) that by (auto split: if_splits)
  moreover have "w_jobs u m \<noteq> None" if "x_jobs (w_exec u) jid = Some m" for jid m
    using that assms(1,3,4) by (auto simp: jobs_ok_def)
  ultimately show ?thesis unfolding jobs_ok_def by blast
qed

lemma jobs_ok_cong:
  "jobs_ok w \<Longrightarrow> w_procs u = w_procs w \<Longrightarrow> w_jobs u = w_jobs w \<Longrightarrow> x_jobs (w_exec u) \<subseteq>\<^sub>m x_jobs (w_exec w) \<Longrightarrow> jobs_ok u"
  unfolding jobs_ok_def map_le_def by (metis domI)

lemma jobs_okD: "jobs_ok w \<Longrightarrow> w_jobs w n = Some j \<Longrightarrow> w_procs w n = Some p \<Longrightarrow> job_ok p j"
  unfolding jobs_ok_def by fastforce

lemma job_ok_ended: "job_ok p j \<Longrightarrow> ps_stage p = Running \<or> ps_stage p = Ended \<Longrightarrow> job_ok (p\<lparr>ps_stage := Ended\<rparr>) j"
  by (auto simp: job_ok_def live_def)

lemma wstep_jobs: "wstep reuse g w u \<Longrightarrow> jobs_ok w \<Longrightarrow> jobs_ok u"
proof (induction rule: wstep.induct)
  case (do_start w l c r u)
  show ?case
  proof (rule processStart_cases [OF do_start(2)])
    fix pid n argv
    let ?p = "\<lparr>ps_pid = pid, ps_stage = Ended, ps_argv = argv, ps_watched = False\<rparr>"
    assume "l = Started pid n False" "u = add_process n ?p w"
    then show ?thesis using do_start by (intro jobs_ok_change [of w u n ?p]) (auto simp: launch_ok_def)
  next
    fix pid n argv
    let ?p = "\<lparr>ps_pid = pid, ps_stage = Running, ps_argv = argv, ps_watched = True\<rparr>"
    assume "l = Started pid n True" "u = set_owned ((x_owned (w_exec w))(pid \<mapsto> n)) (add_process n ?p w)"
    then show ?thesis using do_start by (intro jobs_ok_change [of w u n ?p]) (auto simp: launch_ok_def)
  qed (use do_start in simp)
next
  case (do_stop w c r u)
  show ?case
  proof (rule processStop_cases [OF do_stop(1)])
    fix pid n p
    assume n: "w_procs w n = Some p" "ps_stage p = Running \<or> ps_stage p = Ended" "u = move n Ended w"
    show ?thesis
      by (rule jobs_ok_change [of w u n "p\<lparr>ps_stage := Ended\<rparr>"])
         (use n do_stop(2) jobs_okD [of w n _ p] job_ok_ended in auto)
  qed (use do_stop in simp)
next
  case (do_shell w l g' random c r u)
  show ?case
  proof (rule shellStart_cases [OF do_shell(2)])
    fix pid n argv
    let ?p = "\<lparr>ps_pid = pid, ps_stage = Ended, ps_argv = argv, ps_watched = False\<rparr>"
    assume "l = Started pid n False" "u = add_process n ?p w"
    then show ?thesis using do_shell by (intro jobs_ok_change [of w u n ?p]) (auto simp: launch_ok_def)
  next
    fix pid n argv
    let ?p = "\<lparr>ps_pid = pid, ps_stage = Running, ps_argv = argv, ps_watched = True\<rparr>"
    let ?v = "add_job n (new_job pid (g_now g')) (add_process n ?p w)"
    assume u: "u = set_jobs ((x_jobs (w_exec w))(newID random \<mapsto> n)) ?v"
    have "jobs_ok ?v"
      by (rule jobs_ok_change [OF do_shell(3), of _ n ?p])
         (auto simp: job_ok_def new_job_def live_def capped_ok_def empty_capped_def)
    then show ?thesis using u by (auto simp: jobs_ok_def)
  qed (use do_shell in simp)
next
  case (do_cancel w c r u)
  show ?case
  proof (rule shellCancel_cases [OF do_cancel(1)])
    fix jid n j p
    assume n: "w_jobs w n = Some j" "w_procs w n = Some p" "ps_stage p = Running \<or> ps_stage p = Ended"
      "u = add_job n (j\<lparr>j_cancelled := True\<rparr>) (move n Ended w)"
    have "job_ok (p\<lparr>ps_stage := Ended\<rparr>) (j\<lparr>j_cancelled := True\<rparr>)"
      using job_ok_ended [OF jobs_okD [OF do_cancel(2) n(1,2)] n(3)] by (simp add: job_ok_def)
    then show ?thesis using n by (intro jobs_ok_change [OF do_cancel(2), of u n]) auto
  qed (use do_cancel in simp)
next
  case (ends w n p)
  show ?case
    by (rule jobs_ok_change [OF ends(3), of _ n "p\<lparr>ps_stage := Ended\<rparr>"])
       (use ends jobs_okD [of w n _ p] job_ok_ended in auto)
next
  case (waited w n p)
  show ?case by (rule jobs_ok_change [OF waited(5), of _ n "p\<lparr>ps_stage := Waited\<rparr>"]) (use waited in auto)
next
  case (unregistered w n p)
  show ?case by (rule jobs_ok_change [OF unregistered(4), of _ n "p\<lparr>ps_stage := Finished\<rparr>"]) (use unregistered in auto)
next
  case (job_writes w n p j s)
  have "job_ok p (j\<lparr>j_out := snd (capped_Write s (j_out j))\<rparr>)"
    using jobs_okD [OF job_writes(4,3,1)] capped_Write_spec(2) by (auto simp: job_ok_def)
  then show ?case
    by (intro jobs_ok_change [OF job_writes(4), of _ n p]) (use job_writes(1) in auto)
next
  case (job_waited w n p j now err)
  have "job_ok (p\<lparr>ps_stage := Waited\<rparr>) (j\<lparr>j_err := err, j_finished := now\<rparr>)"
    using jobs_okD [OF job_waited(4,3,1)] job_waited(2) by (simp add: job_ok_def)
  then show ?case
    by (intro jobs_ok_change [OF job_waited(4), of _ n "p\<lparr>ps_stage := Waited\<rparr>"]) (use job_waited(1) in auto)
next
  case (job_done w n p j)
  have "job_ok (p\<lparr>ps_stage := Finished\<rparr>) (j\<lparr>j_done := True\<rparr>)"
    using jobs_okD [OF job_done(4,3,1)] by (simp add: job_ok_def)
  then show ?case
    by (intro jobs_ok_change [OF job_done(4), of _ n "p\<lparr>ps_stage := Finished\<rparr>"]) (use job_done(1) in auto)
next
  case (job_expires w n j now jid)
  show ?case by (rule jobs_ok_cong [OF job_expires(5)]) (auto simp: map_le_def)
qed

section \<open>Stopping processes\<close>

lemma registered_move:
  "registered w \<Longrightarrow> w_procs w n = Some p \<Longrightarrow> ps_stage p \<noteq> Finished \<Longrightarrow> registered (move n st w)"
  unfolding registered_def by (auto split: if_splits)

lemma registered_job:
  "registered w \<Longrightarrow> w_procs u = w_procs w \<or> (\<exists>p. w_procs u = (w_procs w)(n \<mapsto> p)) \<Longrightarrow> w_jobs u = (w_jobs w)(n \<mapsto> j) \<Longrightarrow>
   x_owned (w_exec u) = x_owned (w_exec w) \<Longrightarrow> registered u"
  unfolding registered_def by (auto split: if_splits)

lemma registered_unwatched:
  "registered w \<Longrightarrow> \<not> ps_watched p \<Longrightarrow> registered (add_process n p w)"
  unfolding registered_def by (auto split: if_splits)

lemma wstep_registered:
  "wstep False g w u \<Longrightarrow> registered w \<Longrightarrow> pids_ok False w \<Longrightarrow> registered u"
proof (induction rule: wstep.induct)
  case (do_start w l c r u)
  show ?case
  proof (rule processStart_cases [OF do_start(2)])
    fix pid n argv
    assume l: "l = Started pid n True"
      and u: "u = set_owned ((x_owned (w_exec w))(pid \<mapsto> n))
        (add_process n \<lparr>ps_pid = pid, ps_stage = Running, ps_argv = argv, ps_watched = True\<rparr> w)"
    have "ps_stage p = Finished" if "w_procs w m = Some p" "ps_pid p = pid" for m p
      using do_start(1) l that by (simp add: launch_ok_def)
    then show ?thesis using do_start(3) u unfolding registered_def by (auto split: if_splits)
  qed (use do_start registered_unwatched in auto)
next
  case (do_stop w c r u)
  show ?case by (rule processStop_cases [OF do_stop(1)]) (use do_stop registered_move in auto)
next
  case (do_shell w l g' random c r u)
  show ?case
  proof (rule shellStart_cases [OF do_shell(2)])
    fix pid n argv
    let ?p = "\<lparr>ps_pid = pid, ps_stage = Running, ps_argv = argv, ps_watched = True\<rparr>"
    assume "u = set_jobs ((x_jobs (w_exec w))(newID random \<mapsto> n)) (add_job n (new_job pid (g_now g')) (add_process n ?p w))"
    then show ?thesis by (intro registered_job [OF do_shell(3), of u n]) auto
  qed (use do_shell registered_unwatched in auto)
next
  case (do_cancel w c r u)
  show ?case
  proof (rule shellCancel_cases [OF do_cancel(1)])
    fix jid n j p
    assume "w_jobs w n = Some j" "w_procs w n = Some p" "u = add_job n (j\<lparr>j_cancelled := True\<rparr>) (move n Ended w)"
    then show ?thesis by (intro registered_job [OF do_cancel(2), of u n]) auto
  qed (use do_cancel in simp)
next
  case (unregistered w n p)
  have "m = n" if "w_procs w m = Some q" "ps_stage q \<noteq> Finished" "ps_pid q = ps_pid p" for m q
  proof -
    have "holds_pid False q" "holds_pid False p"
      using that(2) unregistered(2) by (cases "ps_stage q"; simp add: holds_pid_def live_def)+
    then show ?thesis using unregistered(1,5) that unfolding pids_ok_def by metis
  qed
  then show ?case using unregistered(1,4) unfolding registered_def by (auto split: if_splits)
next
  case (job_writes w n p j s)
  show ?case by (rule registered_job [OF job_writes(4), of _ n]) auto
next
  case (job_waited w n p j now err)
  show ?case by (rule registered_job [OF job_waited(4), of _ n]) (use job_waited(1) in auto)
next
  case (job_done w n p j)
  show ?case by (rule registered_job [OF job_done(4), of _ n]) (use job_done(1) in auto)
next
  case (job_expires w n j now jid)
  then show ?case by (simp add: registered_def)
qed (auto intro: registered_move)

lemma new_world_ok: "pids_ok reuse (new_world e)" "owned_ok (new_world e)" "jobs_ok (new_world e)" "registered (new_world e)"
  by (simp_all add: new_world_def pids_ok_def owned_ok_def jobs_ok_def registered_def)

lemma runs_ok:
  assumes "runs reuse g (new_world e) w"
  shows "pids_ok reuse w \<and> owned_ok w \<and> jobs_ok w \<and> (reuse \<or> registered w)"
  using assms
proof (induction "new_world e" w rule: runs.induct)
  case stay
  then show ?case using new_world_ok by blast
next
  case (step v u)
  then show ?case using wstep_pids wstep_owned wstep_jobs wstep_registered by (metis (full_types))
qed

lemma owned_okD:
  "owned_ok w \<Longrightarrow> x_owned (w_exec w) pid = Some n \<Longrightarrow> w_procs w n = Some p \<Longrightarrow>
   ps_pid p = pid \<and> ps_watched p \<and> w_jobs w n = None"
  unfolding owned_ok_def by fastforce

text \<open>C35 Stopping reaches the bridge's own process and no other.  In every interleaving of
  commands, ends of processes and goroutines, \<^verbatim>\<open>process.stop-owned\<close> either changes nothing and
  reports an error, or kills the one process that has this pid, which \<^verbatim>\<open>process.start\<close> of this
  bridge has started and which has not been waited for.  And if the system does not give a pid
  away before the goroutine of its last owner has finished, every such process can be stopped.\<close>

theorem stop_reaches_own:
  assumes "runs reuse g (new_world e) w" and "processStop w c = (r, u)"
    and "decode_strict pid_fields 0 (c_Params c) = Some pid"
  shows "((u = w \<and> snd r \<noteq> None)
      \<or> (\<exists>n p. w_procs w n = Some p \<and> ps_pid p = pid \<and> live p \<and> ps_watched p \<and> w_jobs w n = None
          \<and> u = move n Ended w \<and> snd r = None
          \<and> (\<forall>m q. w_procs w m = Some q \<longrightarrow> ps_pid q = pid \<longrightarrow> live q \<longrightarrow> m = n)))
    \<and> (\<not> reuse \<longrightarrow> (\<exists>n p. w_procs w n = Some p \<and> ps_pid p = pid \<and> live p \<and> ps_watched p \<and> w_jobs w n = None) \<longrightarrow> snd r = None)"
proof (intro conjI impI)
  have ok: "pids_ok reuse w" "owned_ok w" "reuse \<or> registered w" using runs_ok [OF assms(1)] by simp_all
  show "(u = w \<and> snd r \<noteq> None)
      \<or> (\<exists>n p. w_procs w n = Some p \<and> ps_pid p = pid \<and> live p \<and> ps_watched p \<and> w_jobs w n = None
          \<and> u = move n Ended w \<and> snd r = None
          \<and> (\<forall>m q. w_procs w m = Some q \<longrightarrow> ps_pid q = pid \<longrightarrow> live q \<longrightarrow> m = n))"
  proof (rule processStop_cases [OF assms(2)])
    fix pid' n p
    assume n: "decode_strict pid_fields 0 (c_Params c) = Some pid'" "x_owned (w_exec w) pid' = Some n" "w_procs w n = Some p"
      "ps_stage p = Running \<or> ps_stage p = Ended" "u = move n Ended w" "snd r = None"
    then have p: "ps_pid p = pid" "ps_watched p" "w_jobs w n = None" "live p"
      using owned_okD [OF ok(2) n(2,3)] n(1,4) assms(3) by (simp_all add: live_def)
    have "m = n" if "w_procs w m = Some q" "ps_pid q = pid" "live q" for m q
      using ok(1) that n(3) p(1,4) unfolding pids_ok_def holds_pid_def by metis
    then show ?thesis using n p by blast
  qed simp
  assume "\<not> reuse" "\<exists>n p. w_procs w n = Some p \<and> ps_pid p = pid \<and> live p \<and> ps_watched p \<and> w_jobs w n = None"
  then obtain n p where n: "w_procs w n = Some p" "ps_pid p = pid" "live p" "ps_watched p" "w_jobs w n = None" by blast
  then have "x_owned (w_exec w) pid = Some n" using ok(3) \<open>\<not> reuse\<close> by (auto simp: registered_def live_def)
  then show "snd r = None"
    using assms(2,3) n(1,3) by (auto simp: processStop_def Terminate_def marshalWithError_def live_def)
qed

text \<open>A program that is started, and the request to stop it.\<close>

definition start_request :: "string \<Rightarrow> command" where
  "start_request program =
     \<lparr>c_ID = ''c1'', c_Name = ''process.start'', c_Deadline = 0, c_Params = json_text (JObject [(''program'', JString program)])\<rparr>"

definition stop_request :: "int \<Rightarrow> command" where
  "stop_request pid =
     \<lparr>c_ID = ''c2'', c_Name = ''process.stop-owned'', c_Deadline = 0, c_Params = json_text (JObject [(''pid'', JNumber (Itoa pid))])\<rparr>"

definition started :: "int \<Rightarrow> nat \<Rightarrow> string \<Rightarrow> world \<Rightarrow> world" where
  "started pid n program w =
     set_owned ((x_owned (w_exec w))(pid \<mapsto> n))
       (add_process n \<lparr>ps_pid = pid, ps_stage = Running, ps_argv = [program], ps_watched = True\<rparr> w)"

lemma start_request_started:
  "valid_utf8 program \<Longrightarrow> program \<noteq> [] \<Longrightarrow>
   snd (processStart (Started pid n True) w (start_request program)) = started pid n program w"
proof -
  assume "valid_utf8 program" "program \<noteq> []"
  moreover from this have "decode_strict start_fields no_start_params (c_Params (start_request program))
      = Some \<lparr>sp_Program = program, sp_Args = []\<rparr>"
    unfolding start_request_def
    by (simp, subst decode_strict_text [of "[(''program'', JString program)]", simplified])
       (auto simp: start_fields_def find_field_def no_start_params_def ascii_valid)
  ultimately show ?thesis by (simp add: processStart_def started_def Let_def)
qed

lemma decode_stop_request: "in_int64 pid \<Longrightarrow> decode_strict pid_fields 0 (c_Params (stop_request pid)) = Some pid"
  unfolding stop_request_def
  by (simp, subst decode_strict_text [of "[(''pid'', JNumber (Itoa pid))]", simplified])
     (auto simp: pid_fields_def find_field_def ascii_valid Atoi_Itoa)

lemma runs_started:
  assumes "runs reuse g w v" and "launch_ok reuse v (Started pid n True)"
  shows "runs reuse g w (started pid n ''tool'' v)"
proof -
  have tool: "valid_utf8 ''tool''" "''tool'' \<noteq> []" by (simp_all add: ascii_valid)
  obtain r u where "processStart (Started pid n True) v (start_request ''tool'') = (r, u)" by fastforce
  then show ?thesis
    using runs.step [OF assms(1) do_start [OF assms(2)]] start_request_started [OF tool, of pid n v] by auto
qed

theorem stop_reaches_own_witness:
  "snd (fst (processStop (started 7 0 ''tool'' (new_world sample_executor)) (stop_request 7))) = None"
proof -
  let ?w = "started 7 0 ''tool'' (new_world sample_executor)"
  obtain r u where ru: "processStop ?w (stop_request 7) = (r, u)" by fastforce
  have "runs False sample_guest (new_world sample_executor) ?w"
    by (rule runs_started [OF runs.stay]) (simp add: launch_ok_def new_world_def)
  moreover have "decode_strict pid_fields 0 (c_Params (stop_request 7)) = Some 7"
    by (rule decode_stop_request) (simp add: in_int64_def)
  moreover have "\<exists>p. w_procs ?w 0 = Some p \<and> ps_pid p = 7 \<and> live p \<and> ps_watched p \<and> w_jobs ?w 0 = None"
    by (simp add: started_def new_world_def live_def)
  ultimately have "snd r = None" using stop_reaches_own [OF _ ru] by blast
  then show ?thesis using ru by simp
qed

text \<open>C37 A reused pid can take a process out of reach.  The goroutine of a process removes the pid
  from the owned ones after it has waited for the process, when the system may already have given
  the pid to a process that was started since: then a running process that the bridge has started
  itself is refused as not owned.\<close>

theorem stop_misses_reused_pid:
  "\<exists>w n p. runs True g (new_world e) w \<and> w_procs w n = Some p \<and> ps_stage p = Running \<and> ps_watched p
     \<and> ps_pid p = 7 \<and> processStop w (stop_request 7) = (failure ''process is not owned by bridge'', w)"
proof -
  let ?p = "\<lparr>ps_pid = 7, ps_stage = Running, ps_argv = [''tool''], ps_watched = True\<rparr>"
  obtain w1 where w1_def: "w1 = started 7 0 ''tool'' (new_world e)" by blast
  obtain w2 where w2_def: "w2 = move 0 Ended w1" by blast
  obtain w3 where w3_def: "w3 = move 0 Waited w2" by blast
  obtain w4 where w4_def: "w4 = started 7 1 ''tool'' w3" by blast
  obtain w5 where w5_def: "w5 = set_owned ((x_owned (w_exec w4))(7 := None)) (move 0 Finished w4)" by blast
  have p1: "w_procs w1 = [0 \<mapsto> ?p]" "w_jobs w1 = Map.empty" by (simp_all add: w1_def started_def new_world_def)
  then have p2: "w_procs w2 = [0 \<mapsto> ?p\<lparr>ps_stage := Ended\<rparr>]" "w_jobs w2 = Map.empty" by (simp_all add: w2_def)
  then have p3: "w_procs w3 = [0 \<mapsto> ?p\<lparr>ps_stage := Waited\<rparr>]" "w_jobs w3 = Map.empty" by (simp_all add: w3_def)
  then have p4: "w_procs w4 = [0 \<mapsto> ?p\<lparr>ps_stage := Waited\<rparr>, 1 \<mapsto> ?p]" "w_jobs w4 = Map.empty"
    by (simp_all add: w4_def started_def)
  have "runs True g (new_world e) w1"
    unfolding w1_def by (rule runs_started [OF runs.stay]) (simp add: launch_ok_def new_world_def)
  then have "runs True g (new_world e) w2"
    unfolding w2_def by (rule runs.step [OF _ ends [of w1 0 ?p]]) (use p1 in simp_all)
  then have "runs True g (new_world e) w3"
    unfolding w3_def by (rule runs.step [OF _ waited [of w2 0 "?p\<lparr>ps_stage := Ended\<rparr>"]]) (use p2 in simp_all)
  then have "runs True g (new_world e) w4"
    unfolding w4_def by (rule runs_started) (use p3 in \<open>simp add: launch_ok_def\<close>)
  then have "runs True g (new_world e) (set_owned ((x_owned (w_exec w4))(ps_pid (?p\<lparr>ps_stage := Waited\<rparr>) := None)) (move 0 Finished w4))"
    by (rule runs.step [OF _ unregistered [of w4 0 "?p\<lparr>ps_stage := Waited\<rparr>"]]) (use p4 in simp_all)
  then have "runs True g (new_world e) w5" by (simp add: w5_def)
  moreover have "w_procs w5 1 = Some ?p" "x_owned (w_exec w5) 7 = None" using p4 by (simp_all add: w5_def)
  moreover have "decode_strict pid_fields 0 (c_Params (stop_request 7)) = Some 7"
    by (rule decode_stop_request) (simp add: in_int64_def)
  ultimately show ?thesis by (intro exI [of _ w5] exI [of _ 1] exI [of _ ?p]) (simp add: processStop_def)
qed

section \<open>Following a job\<close>

text \<open>A job goes on: its output grows, and once it is done nothing of it changes.\<close>

definition job_goes_on :: "job \<Rightarrow> job \<Rightarrow> bool" where
  "job_goes_on j k \<longleftrightarrow>
     j_pid k = j_pid j \<and> j_started k = j_started j \<and> (\<exists>s. cb_b (j_out k) = cb_b (j_out j) @ s) \<and> (j_done j \<longrightarrow> k = j)"

lemma job_goes_on_refl [simp]: "job_goes_on j j"
  by (simp add: job_goes_on_def)

lemma job_goes_on_trans: "job_goes_on j k \<Longrightarrow> job_goes_on k l \<Longrightarrow> job_goes_on j l"
  by (auto simp: job_goes_on_def)

lemma capped_Write_extends: "capped_ok c \<Longrightarrow> \<exists>t. cb_b (snd (capped_Write s c)) = cb_b c @ t"
  using capped_Write_spec(3) [of c s] by (auto simp: capped_ok_def)

lemma wstep_job:
  assumes "wstep reuse g w u" and "jobs_ok w" and "w_jobs w n = Some j"
  shows "\<exists>k. w_jobs u n = Some k \<and> job_goes_on j k"
  using assms
proof (induction rule: wstep.induct)
  case (do_start w l c r u)
  show ?case by (rule processStart_cases [OF do_start(2)]) (use do_start in auto)
next
  case (do_stop w c r u)
  show ?case by (rule processStop_cases [OF do_stop(1)]) (use do_stop in auto)
next
  case (do_shell w l g' random c r u)
  show ?case by (rule shellStart_cases [OF do_shell(2)]) (use do_shell in \<open>auto simp: launch_ok_def\<close>)
next
  case (do_cancel w c r u)
  show ?case by (rule shellCancel_cases [OF do_cancel(1)]) (use do_cancel in \<open>auto simp: job_goes_on_def\<close>)
next
  case (job_writes w m p i s)
  have "job_ok p i" by (rule jobs_okD [OF job_writes(4,3,1)])
  then have "job_goes_on i (i\<lparr>j_out := snd (capped_Write s (j_out i))\<rparr>)"
    using capped_Write_extends [of "j_out i" s] job_writes(2) by (auto simp: job_goes_on_def job_ok_def)
  then show ?case using job_writes by auto
next
  case (job_waited w m p i now err)
  have "job_ok p i" by (rule jobs_okD [OF job_waited(4,3,1)])
  then have "job_goes_on i (i\<lparr>j_err := err, j_finished := now\<rparr>)" using job_waited(2) by (auto simp: job_goes_on_def job_ok_def)
  then show ?case using job_waited by auto
next
  case (job_done w m p i)
  have "job_ok p i" by (rule jobs_okD [OF job_done(4,3,1)])
  then have "job_goes_on i (i\<lparr>j_done := True\<rparr>)" using job_done(2) by (auto simp: job_goes_on_def job_ok_def)
  then show ?case using job_done by auto
qed auto

lemma runs_jobs: "runs reuse g w u \<Longrightarrow> jobs_ok w \<Longrightarrow> jobs_ok u"
  by (induction rule: runs.induct) (auto intro: wstep_jobs)

lemma runs_job:
  assumes "runs reuse g w u" and "jobs_ok w" and "w_jobs w n = Some j"
  shows "\<exists>k. w_jobs u n = Some k \<and> job_goes_on j k"
  using assms
proof (induction rule: runs.induct)
  case (step w v u)
  then obtain k where "w_jobs v n = Some k" "job_goes_on j k" by blast
  then show ?case using wstep_job [OF step(2) runs_jobs [OF step(1,4)]] job_goes_on_trans by blast
qed auto

text \<open>What a client reads from the replies: the new output, and where to go on.\<close>

definition poll_output :: "guest \<Rightarrow> string \<Rightarrow> nat \<Rightarrow> job \<Rightarrow> string" where
  "poll_output g jid off j = (case member ''output'' (status_json g jid off j) of Some (JString s) \<Rightarrow> s | _ \<Rightarrow> [])"

definition poll_next :: "guest \<Rightarrow> string \<Rightarrow> nat \<Rightarrow> job \<Rightarrow> nat" where
  "poll_next g jid off j =
     (case member ''nextOffset'' (status_json g jid off j) of
        Some (JNumber m) \<Rightarrow> (case Atoi m of Some i \<Rightarrow> nat i | None \<Rightarrow> 0)
      | _ \<Rightarrow> 0)"

fun polls :: "guest \<Rightarrow> string \<Rightarrow> nat \<Rightarrow> job list \<Rightarrow> string" where
  "polls g jid off [] = []"
| "polls g jid off (j # js) = poll_output g jid off j @ polls g jid (poll_next g jid off j) js"

definition plain_output :: "string \<Rightarrow> bool" where
  "plain_output s \<longleftrightarrow> ascii s \<and> nul \<notin> set s"

lemma plain_portable: "plain_output s \<Longrightarrow> normalizePortableOutput s = s"
proof (rule portable_id)
  assume s: "plain_output s"
  then show "valid_utf8 s" by (simp add: plain_output_def ascii_valid)
  have "filter (\<lambda>c. c = nul) s = []" using s by (auto simp: plain_output_def filter_empty_conv)
  then show "length (filter (\<lambda>c. c = nul) s) \<le> length s div 4" by simp
qed

lemma plain_drop: "plain_output s \<Longrightarrow> plain_output (drop n s)"
  by (auto simp: plain_output_def ascii_def list_all_iff dest: in_set_dropD)

lemma poll_simps:
  "off \<le> length (cb_b (j_out j)) \<Longrightarrow> poll_output g jid off j = normalizeOutput g (drop off (cb_b (j_out j)))"
  "length (cb_b (j_out j)) \<le> MaxOutput \<Longrightarrow> poll_next g jid off j = length (cb_b (j_out j))"
proof -
  assume "length (cb_b (j_out j)) \<le> MaxOutput"
  then have "in_int64 (int (length (cb_b (j_out j))))" by (simp add: MaxOutput_def in_int64_def)
  then show "poll_next g jid off j = length (cb_b (j_out j))"
    by (simp add: poll_next_def member_def status_json_def capped_snapshot_def Let_def Atoi_Itoa)
qed (simp add: poll_output_def member_def status_json_def capped_snapshot_def Let_def)

lemma polls_plain:
  assumes "g_goos g \<noteq> ''windows''" and "plain_output (cb_b (j_out (last (j # js))))"
    and "sorted_wrt job_goes_on (j # js)" and "\<forall>k\<in>set (j # js). length (cb_b (j_out k)) \<le> MaxOutput"
    and "off \<le> length (cb_b (j_out j))"
  shows "polls g jid off (j # js) = drop off (cb_b (j_out (last (j # js))))"
  using assms
proof (induction js arbitrary: j off)
  case Nil
  then show ?case using plain_portable [OF plain_drop] by (simp add: poll_simps normalizeOutput_def)
next
  case (Cons k js)
  let ?b = "\<lambda>i. cb_b (j_out i)"
  have ext: "\<exists>s. ?b (last (k # js)) = ?b j @ s"
  proof -
    have "job_goes_on j (last (k # js))" using Cons.prems(3) last_in_set [of "k # js"] by auto
    then show ?thesis by (auto simp: job_goes_on_def)
  qed
  then obtain s where s: "?b (last (k # js)) = ?b j @ s" by blast
  have "plain_output (?b j)" using Cons.prems(2) s by (auto simp: plain_output_def)
  then have "poll_output g jid off j = drop off (?b j)"
    using Cons.prems(1,5) plain_portable [OF plain_drop] by (simp add: poll_simps normalizeOutput_def)
  moreover have "poll_next g jid off j = length (?b j)" using Cons.prems(4) by (simp add: poll_simps)
  moreover have "length (?b j) \<le> length (?b k)" using Cons.prems(3) by (auto simp: job_goes_on_def)
  then have "polls g jid (length (?b j)) (k # js) = drop (length (?b j)) (?b (last (k # js)))"
    using Cons.prems by (intro Cons.IH) auto
  ultimately show ?case using s Cons.prems(5) by simp
qed

lemma runs_chain:
  assumes "sorted_wrt (runs reuse g) (w # ws)" and "jobs_ok w" and "w_jobs w n = Some j"
  shows "sorted_wrt job_goes_on (map (\<lambda>v. the (w_jobs v n)) (w # ws))
    \<and> (\<forall>v\<in>set (w # ws). \<exists>k. w_jobs v n = Some k \<and> length (cb_b (j_out k)) \<le> MaxOutput)"
  using assms
proof (induction ws arbitrary: w j)
  case Nil
  then obtain p where "job_ok p j" unfolding jobs_ok_def by blast
  then show ?case using Nil by (simp add: job_ok_def capped_ok_def)
next
  case (Cons v ws)
  obtain p where "job_ok p j" using Cons.prems(2,3) unfolding jobs_ok_def by blast
  then have j: "length (cb_b (j_out j)) \<le> MaxOutput" by (simp add: job_ok_def capped_ok_def)
  have next_ok: "jobs_ok v" "\<exists>k. w_jobs v n = Some k"
    using Cons.prems runs_jobs [of reuse g w v] runs_job [of reuse g w v n j] by auto
  then obtain k where k: "w_jobs v n = Some k" by blast
  note ih = Cons.IH [OF _ next_ok(1) k]
  have "job_goes_on j (the (w_jobs x n))" if "x \<in> set (v # ws)" for x
  proof -
    have "runs reuse g w x" using Cons.prems(1) that by auto
    then show ?thesis using runs_job [OF _ Cons.prems(2,3)] by force
  qed
  then show ?case using ih Cons.prems j by auto
qed


text \<open>A job that writes two letters.\<close>

definition sample_job_world :: world where
  "sample_job_world =
     set_jobs [newID ''r'' \<mapsto> 0] (add_job 0 (new_job 7 0)
       (add_process 0 \<lparr>ps_pid = 7, ps_stage = Running, ps_argv = [''/bin/sh'', ''-c'', ''ls''], ps_watched = True\<rparr>
         (new_world sample_executor)))"

definition sample_job_later :: world where
  "sample_job_later = add_job 0 ((new_job 7 0)\<lparr>j_out := snd (capped_Write ''ok'' empty_capped)\<rparr>) sample_job_world"

definition shell_request :: "string \<Rightarrow> command" where
  "shell_request cmd =
     \<lparr>c_ID = ''c1'', c_Name = ''shell.start'', c_Deadline = 0, c_Params = json_text (JObject [(''command'', JString cmd)])\<rparr>"

lemma sample_job_runs:
  "runs False sample_guest (new_world sample_executor) sample_job_world"
  "wstep False sample_guest sample_job_world sample_job_later"
proof -
  have "decode_strict shell_fields no_shell_params (c_Params (shell_request ''ls'')) = Some \<lparr>sh_Command = ''ls'', sh_TimeoutSeconds = 0\<rparr>"
    unfolding shell_request_def
    by (simp, subst decode_strict_text [of "[(''command'', JString ''ls'')]", simplified])
       (auto simp: shell_fields_def find_field_def no_shell_params_def ascii_valid)
  then have "snd (shellStart sample_guest (Started 7 0 True) ''r'' (new_world sample_executor) (shell_request ''ls'')) = sample_job_world"
    by (simp add: shellStart_def sample_job_world_def shell_argv_def sample_guest_def new_world_def Let_def)
  moreover have "launch_ok False (new_world sample_executor) (Started 7 0 True)" by (simp add: launch_ok_def new_world_def)
  ultimately have "wstep False sample_guest (new_world sample_executor) sample_job_world"
    by (metis do_shell prod.collapse)
  then show "runs False sample_guest (new_world sample_executor) sample_job_world" by (blast intro: runs.intros)
  let ?p = "\<lparr>ps_pid = 7, ps_stage = Running, ps_argv = [''/bin/sh'', ''-c'', ''ls''], ps_watched = True\<rparr>"
  have "w_procs sample_job_world 0 = Some ?p" "w_jobs sample_job_world 0 = Some (new_job 7 0)"
    by (simp_all add: sample_job_world_def)
  then have "wstep False sample_guest sample_job_world
      (add_job 0 ((new_job 7 0)\<lparr>j_out := snd (capped_Write ''ok'' (j_out (new_job 7 0)))\<rparr>) sample_job_world)"
    by (intro job_writes [of sample_job_world 0 ?p]) simp_all
  then show "wstep False sample_guest sample_job_world sample_job_later"
    by (simp add: sample_job_later_def new_job_def)
qed


end
