(* ===== verification/Executor.thy ===== *)
theory Executor imports Executor_Jobs Executor_Transfers begin

text \<open>
  The dispatch of \<^verbatim>\<open>internal/executor/executor.go\<close>: every command of the bridge by its name,
  over the tree of files and the world of processes, and what each can change.
\<close>

text \<open>What a command finds on the machine, the failures it meets and the outcome of a launch.\<close>

record host =
  h_crypto :: crypto
  h_low :: "rune \<Rightarrow> rune"
  h_guest :: guest
  h_env :: io_env
  h_launch :: launch
  h_random :: string

definition networkInventoryCommand :: "guest \<Rightarrow> string list" where
  "networkInventoryCommand g =
     (if g_goos g = ''windows'' then [''ipconfig.exe'', ''/all'']
      else if g_goos g = ''darwin'' then [''ifconfig'', ''-a'']
      else if g_has_ip g then [''ip'', ''address''] else [''ifconfig'', ''-a''])"

definition disk_script :: string where
  "disk_script =
     ''Get-CimInstance Win32_LogicalDisk | Select-Object DeviceID,VolumeName,DriveType,FileSystem,Size,FreeSpace ''
     @ ''| ConvertTo-Json -Compress''"

definition disk_argv :: "guest \<Rightarrow> string list" where
  "disk_argv g =
     (if g_goos g = ''windows'' then [''powershell.exe'', ''-NoProfile'', ''-NonInteractive'', ''-Command'', disk_script]
      else [''df'', ''-P''])"

definition system_info :: "guest \<Rightarrow> reply" where
  "system_info g =
     marshal (JObject [(''arch'', JString (g_arch g)), (''goVersion'', JString (g_version g)),
       (''hostname'', JString (g_hostname g)), (''os'', JString (g_goos g))])"

definition Execute :: "host \<Rightarrow> node \<Rightarrow> world \<Rightarrow> command \<Rightarrow> reply \<times> node \<times> world" where
  "Execute h t w c =
     (let g = h_guest h; e = w_exec w; name = c_Name c;
          look = (\<lambda>r. (r, t, w));
          files = (\<lambda>x. (fst x, snd x, w));
          procs = (\<lambda>x. (fst x, t, snd x))
      in if name = ''system.info'' then look (system_info g)
         else if name = ''system.network'' then look (readOnlyCommand g e c (networkInventoryCommand g))
         else if name = ''disk.list'' then look (readOnlyCommand g e c (disk_argv g))
         else if name = ''service.list'' then look (serviceList (h_low h) g e c)
         else if name = ''process.list'' then look (processList (h_low h) g e c)
         else if name = ''process.start'' then procs (processStart (h_launch h) w c)
         else if name = ''process.stop-owned'' then procs (processStop w c)
         else if name = ''shell.run'' then look (shell g e c)
         else if name = ''shell.run-admin'' then look (shellAdmin g e c)
         else if name = ''powershell.run'' then look (powerShell g e c)
         else if name = ''shell.start'' then procs (shellStart g (h_launch h) (h_random h) w c)
         else if name = ''shell.status'' then look (shellStatus g w c)
         else if name = ''shell.cancel'' then procs (shellCancel w c)
         else if name = ''files.list'' then look (filesList g (h_env h) t e c)
         else if name = ''files.read'' \<or> name = ''files.download'' then look (filesRead g (h_env h) t e c)
         else if name = ''files.read-chunk'' then look (filesReadChunk (h_crypto h) g (h_env h) t e c)
         else if name = ''files.write'' \<or> name = ''files.upload'' then files (filesWrite g (h_env h) t e c)
         else if name = ''files.write-chunk'' then files (filesWriteChunk (h_crypto h) g (h_env h) t e c)
         else if name = ''session.disconnect'' then look (marshal (JObject [(''disconnect'', JBool True)]))
         else look (failure ''unauthorized or unknown command''))"

definition executor_commands :: "string list" where
  "executor_commands =
     [''system.info'', ''system.network'', ''disk.list'', ''service.list'', ''process.list'', ''process.start'',
      ''process.stop-owned'', ''shell.run'', ''shell.run-admin'', ''powershell.run'', ''shell.start'', ''shell.status'',
      ''shell.cancel'', ''files.list'', ''files.read'', ''files.download'', ''files.read-chunk'', ''files.write'',
      ''files.upload'', ''files.write-chunk'', ''session.disconnect'']"

lemma Execute_unknown:
  "c_Name c \<notin> set executor_commands \<Longrightarrow> Execute h t w c = (failure ''unauthorized or unknown command'', t, w)"
  by (simp add: Execute_def executor_commands_def Let_def)

definition file_writers :: "string list" where
  "file_writers = [''files.write'', ''files.upload'', ''files.write-chunk'']"

definition process_changers :: "string list" where
  "process_changers = [''process.start'', ''process.stop-owned'', ''shell.start'', ''shell.cancel'']"

lemma Execute_frame:
  "c_Name c \<notin> set file_writers \<Longrightarrow> fst (snd (Execute h t w c)) = t"
  "c_Name c \<notin> set process_changers \<Longrightarrow> snd (snd (Execute h t w c)) = w"
  by (simp_all add: Execute_def file_writers_def process_changers_def Let_def)

section \<open>Closing\<close>

text \<open>
  \<^verbatim>\<open>Close\<close> removes the working directory with all that is in it.  \<open>rest\<close> is what a removal
  that fails leaves of it, \<open>None\<close> when it succeeds; the caller ignores the error.
\<close>

definition Close :: "node option \<Rightarrow> node \<Rightarrow> executor \<Rightarrow> node" where
  "Close rest t e =
     (case entry_pos t (x_workDir e) of
        None \<Rightarrow> t
      | Some p \<Rightarrow> if p = [] \<or> lookup t p = None then t else put_node p rest t)"

text \<open>Nothing but the working directory is touched, and it is gone when the removal succeeds.\<close>

lemma Close_frame:
  assumes "tree_ok t" and "x_workDir e = abs_path p" and "list_all good_part p" and "p \<noteq> []"
    and "is_folder (lookup t p)"
  shows "lookup (Close rest t e) p = rest"
    and "\<not> below p q \<Longrightarrow> \<not> below q p \<Longrightarrow> lookup (Close rest t e) q = lookup t q"
proof -
  obtain ps c where p: "p = ps @ [c]" using assms(4) by (cases p rule: rev_cases) auto
  have parent: "is_folder (lookup t ps)" using is_folder_butlast [OF assms(5)] by (simp add: p)
  have "lookup t (ps @ [c]) \<noteq> None" using assms(5) by (auto simp: p is_folder_iff)
  then have close: "Close rest t e = put_node (ps @ [c]) rest t"
    using entry_pos_abs [OF assms(3) [unfolded p] parent] assms(2) by (auto simp: Close_def p)
  show "lookup (Close rest t e) p = rest"
    unfolding close p by (rule lookup_put_same [OF assms(1) parent])
  show "\<not> below p q \<Longrightarrow> \<not> below q p \<Longrightarrow> lookup (Close rest t e) q = lookup t q"
    unfolding close p by (rule lookup_put_other [OF assms(1)])
qed

end
