(* ===== verification/Guest_Client.thy ===== *)
theory Guest_Client imports Executor Operator begin

text \<open>
  \<^verbatim>\<open>cmd/bridge-client/main.go\<close>: the program on the guest's machine.  It pairs with the broker,
  then polls for commands; a command is executed after the broker has confirmed its
  acknowledgement, and its result is posted.  The network is a parameter; the files and
  processes are those of the executor.
\<close>

section \<open>Profiles\<close>

definition client_capabilities :: "string \<Rightarrow> string \<Rightarrow> string list option" where
  "client_capabilities goos p =
     (if p = ''information'' then
        Some [''system.info'', ''system.network'', ''disk.list'', ''service.list'', ''process.list'', ''files.list'',
          ''files.read'', ''files.download'', ''session.disconnect'']
      else if p = ''developer'' then
        Some ([''system.info'', ''system.network'', ''disk.list'', ''service.list'', ''process.list'', ''process.start'',
          ''process.stop-owned'', ''shell.run'', ''shell.start'', ''shell.status'', ''shell.cancel'', ''files.list'',
          ''files.read'', ''files.read-chunk'', ''files.write'', ''files.write-chunk'', ''files.upload'',
          ''files.download'', ''session.disconnect'']
          @ (if goos = ''windows'' then [''shell.run-admin'', ''powershell.run''] else []))
      else if p = ''custom'' then Some [''system.info'', ''session.disconnect'']
      else None)"

section \<open>What the user sees of a command\<close>

definition ellipsis :: string where "ellipsis = [CHR 0xE2, CHR 0x80, CHR 0xA6]"

definition printable_rune :: "rune \<Rightarrow> rune option" where
  "printable_rune r = (if r = 10 \<or> r = 13 \<or> r = 9 then Some 32 else if r < 0x20 then None else Some r)"

definition printable :: "string \<Rightarrow> nat \<Rightarrow> string" where
  "printable v limit =
     (let v = strings_Map printable_rune (ToValidUTF8 v replacement); rs = runes v
      in if limit < length rs then concat (map (encode_rune \<circ> fst) (take limit rs)) @ ellipsis else v)"

record summary_params =
  sp_Command :: string
  sp_Script :: string
  sp_Path :: string
  sp_JobID :: string
  sp_PID :: int

definition summary_fields :: "summary_params field list" where
  "summary_fields =
     [(''command'', set_string (\<lambda>v p. p\<lparr>sp_Command := v\<rparr>)), (''script'', set_string (\<lambda>v p. p\<lparr>sp_Script := v\<rparr>)),
      (''path'', set_string (\<lambda>v p. p\<lparr>sp_Path := v\<rparr>)), (''jobId'', set_string (\<lambda>v p. p\<lparr>sp_JobID := v\<rparr>)),
      (''pid'', set_int (\<lambda>v p. p\<lparr>sp_PID := v\<rparr>))]"

definition commandSummary :: "command \<Rightarrow> string" where
  "commandSummary c =
     (let summary = ''id='' @ printable (c_ID c) 96 @ '' capability='' @ printable (c_Name c) 64
      in case unmarshal summary_fields \<lparr>sp_Command = [], sp_Script = [], sp_Path = [], sp_JobID = [], sp_PID = 0\<rparr> (c_Params c) of
           None \<Rightarrow> summary
         | Some p \<Rightarrow>
             if sp_Path p \<noteq> [] then summary @ '' path='' @ printable (sp_Path p) 260
             else if sp_JobID p \<noteq> [] then summary @ '' job='' @ printable (sp_JobID p) 96
             else if sp_PID p \<noteq> 0 then summary @ '' pid='' @ Itoa (sp_PID p)
             else if sp_Command p \<noteq> [] then summary @ '' command='' @ printable (sp_Command p) 512
             else if sp_Script p \<noteq> [] then summary @ '' script='' @ printable (sp_Script p) 512
             else summary)"

section \<open>Calls to the broker\<close>

datatype call_failure = Transport string | Server_status nat | Bad_answer

text \<open>
  \<^verbatim>\<open>call\<close>: a 204 answer leaves the output as it is, another one outside 200 to 299 is an
  error with its status, and the body is decoded by \<open>dec\<close>.
\<close>

definition call :: "'s network \<Rightarrow> string \<Rightarrow> string \<Rightarrow> string \<Rightarrow> string option \<Rightarrow> ('a \<Rightarrow> string \<Rightarrow> 'a option) \<Rightarrow> 'a \<Rightarrow> 's
    \<Rightarrow> (call_failure + 'a) \<times> 's" where
  "call net meth url token payload dec out s =
     (case net \<lparr>hr_Method = meth, hr_URL = url, hr_Authorization = (if token = [] then [] else ''Bearer '' @ token),
                hr_Body = payload\<rparr> s of
        (Failed e, s) \<Rightarrow> (Inl (Transport e), s)
      | (Answer code status body, s) \<Rightarrow>
          (if code = 204 then (Inr out, s)
           else if code div 100 \<noteq> 2 then (Inl (Server_status code), s)
           else (case dec out body of None \<Rightarrow> (Inl Bad_answer, s) | Some v \<Rightarrow> (Inr v, s))))"

text \<open>The bodies of the session's calls, and a call without an output.\<close>

definition no_output :: "unit \<Rightarrow> string \<Rightarrow> unit option" where
  "no_output u body = Some ()"

definition empty_body :: string where
  "empty_body = json_text (JObject []) @ [newline]"

definition ack_body :: "string \<Rightarrow> string" where
  "ack_body cid = json_text (JObject [(''commandId'', JString cid)]) @ [newline]"

section \<open>Polling\<close>

datatype poll_end = Session_expired | Poll_rejected nat | Polled command

definition authoritative :: "call_failure \<Rightarrow> nat option" where
  "authoritative e = (case e of Server_status code \<Rightarrow> if code \<in> {401, 403, 404, 410} then Some code else None | _ \<Rightarrow> None)"

definition poll_call :: "'s network \<Rightarrow> string \<Rightarrow> string \<Rightarrow> 's \<Rightarrow> (call_failure + command) \<times> 's" where
  "poll_call net broker token s =
     call net ''POST'' (broker @ ''/v1/session/poll'') token (Some empty_body) (decode_stream False command_setters) no_command s"

definition next_backoff :: "duration \<Rightarrow> duration \<Rightarrow> duration" where
  "next_backoff maxBackoff backoff = (if maxBackoff < backoff * 2 then maxBackoff else backoff * 2)"

text \<open>
  \<^verbatim>\<open>pollResilient\<close> over the times at which its loop comes round: the pauses it makes and how
  it ends, \<open>None\<close> when the times run out before.
\<close>

fun pollResilient :: "'s network \<Rightarrow> string \<Rightarrow> string \<Rightarrow> time \<Rightarrow> duration \<Rightarrow> duration \<Rightarrow> time list \<Rightarrow> 's
    \<Rightarrow> (duration list \<times> poll_end option) \<times> 's" where
  "pollResilient net broker token expiresAt maxBackoff backoff [] s = (([], None), s)"
| "pollResilient net broker token expiresAt maxBackoff backoff (now # nows) s =
     (if \<not> IsZero expiresAt \<and> \<not> now < expiresAt then (([], Some Session_expired), s)
      else
        (case poll_call net broker token s of
           (Inr cmd, s) \<Rightarrow> (([], Some (Polled cmd)), s)
         | (Inl e, s) \<Rightarrow>
             (case authoritative e of
                Some code \<Rightarrow> (([], Some (Poll_rejected code)), s)
              | None \<Rightarrow>
                  (case pollResilient net broker token expiresAt maxBackoff (next_backoff maxBackoff backoff) nows s of
                     ((pauses, r), s) \<Rightarrow> ((backoff # pauses, r), s)))))"

section \<open>The session\<close>

text \<open>
  What happens in a session, in order.  The summary of a command is printed before it is
  executed.
\<close>

datatype event = Idle | Received command | Acknowledged string | Not_acknowledged string
  | Announced string | Executed command reply | Reported result | Session_revoked

datatype session_end = Session_lost poll_end | Disconnected

record 's guest_state =
  gs_tree :: node
  gs_world :: world
  gs_net :: 's

record round =
  rd_polls :: "time list"
  rd_host :: host
  rd_start :: time
  rd_finish :: time

definition result_of :: "command \<Rightarrow> time \<Rightarrow> time \<Rightarrow> reply \<Rightarrow> result" where
  "result_of c start finish rp =
     \<lparr>res_ID = c_ID c, res_Name = c_Name c, res_StartedAt = start, res_FinishedAt = finish, res_Output = fst rp,
      res_Error = (case snd rp of None \<Rightarrow> [] | Some e \<Rightarrow> e)\<rparr>"

definition run_command :: "'s network \<Rightarrow> string \<Rightarrow> string \<Rightarrow> round \<Rightarrow> command \<Rightarrow> 's guest_state \<Rightarrow> event list \<times> 's guest_state" where
  "run_command net broker token rd c g =
     (case Execute (rd_host rd) (gs_tree g) (gs_world g) c of
        (rp, t, w) \<Rightarrow>
          let q = result_of c (rd_start rd) (rd_finish rd) rp;
              (r, s) = call net ''POST'' (broker @ ''/v1/session/result'') token (Some (result_text q)) no_output () (gs_net g)
          in ([Announced (commandSummary c), Executed c rp, Reported q], \<lparr>gs_tree = t, gs_world = w, gs_net = s\<rparr>))"

text \<open>One turn of the loop in \<^verbatim>\<open>main\<close>; \<open>Some None\<close> means that it goes on.\<close>

definition turn :: "'s network \<Rightarrow> string \<Rightarrow> pair_reply \<Rightarrow> round \<Rightarrow> 's guest_state
    \<Rightarrow> (event list \<times> session_end option option) \<times> 's guest_state" where
  "turn net broker rep rd g =
     (case pollResilient net broker (r_SessionToken rep) (r_ExpiresAt rep) (10 * second) second (rd_polls rd) (gs_net g) of
        ((pauses, None), s) \<Rightarrow> (([], None), g\<lparr>gs_net := s\<rparr>)
      | ((pauses, Some (Polled c)), s) \<Rightarrow>
          (if c_Name c = [] then (([Idle], Some None), g\<lparr>gs_net := s\<rparr>)
           else
             (case call net ''POST'' (broker @ ''/v1/session/ack'') (r_SessionToken rep) (Some (ack_body (c_ID c)))
                     no_output () s of
                (Inl e, s) \<Rightarrow> (([Received c, Not_acknowledged (c_ID c)], Some None), g\<lparr>gs_net := s\<rparr>)
              | (Inr u, s) \<Rightarrow>
                  (case run_command net broker (r_SessionToken rep) rd c (g\<lparr>gs_net := s\<rparr>) of
                     (es, g) \<Rightarrow>
                       (([Received c, Acknowledged (c_ID c)] @ es,
                         Some (if c_Name c = ''session.disconnect'' then Some Disconnected else None)), g))))
      | ((pauses, Some e), s) \<Rightarrow> (([], Some (Some (Session_lost e))), g\<lparr>gs_net := s\<rparr>))"

text \<open>The loop over the rounds; \<open>None\<close> is a session that still runs when they end.\<close>

fun session_loop :: "'s network \<Rightarrow> string \<Rightarrow> pair_reply \<Rightarrow> round list \<Rightarrow> 's guest_state
    \<Rightarrow> (event list \<times> session_end option) \<times> 's guest_state" where
  "session_loop net broker rep [] g = (([], None), g)"
| "session_loop net broker rep (rd # rds) g =
     (case turn net broker rep rd g of
        ((es, None), g) \<Rightarrow> ((es, None), g)
      | ((es, Some (Some e)), g) \<Rightarrow> ((es, Some e), g)
      | ((es, Some None), g) \<Rightarrow>
          (case session_loop net broker rep rds g of ((es', e), g) \<Rightarrow> ((es @ es', e), g)))"

text \<open>After the loop: only a session that was not lost is revoked.\<close>

definition finish_session :: "'s network \<Rightarrow> string \<Rightarrow> pair_reply \<Rightarrow> session_end \<Rightarrow> 's guest_state \<Rightarrow> event list \<times> 's guest_state" where
  "finish_session net broker rep e g =
     (case e of
        Session_lost x \<Rightarrow> ([], g)
      | Disconnected \<Rightarrow>
          (case call net ''POST'' (broker @ ''/v1/session/revoke'') (r_SessionToken rep) (Some empty_body) no_output () (gs_net g) of
             (r, s) \<Rightarrow> ([Session_revoked], g\<lparr>gs_net := s\<rparr>)))"

text \<open>An interrupt at any time: the session is revoked and the program exits.\<close>

definition interrupt :: "'s network \<Rightarrow> string \<Rightarrow> pair_reply \<Rightarrow> 's \<Rightarrow> 's" where
  "interrupt net broker rep s =
     snd (call net ''POST'' (broker @ ''/v1/session/revoke'') (r_SessionToken rep) (Some empty_body) no_output () s)"

section \<open>Pairing\<close>

text \<open>The flags and what the program finds on the machine.\<close>

record client_flags =
  cl_broker :: string
  cl_usb :: string
  cl_profile :: string
  cl_roots :: "string list"

definition default_client_flags :: client_flags where
  "default_client_flags =
     \<lparr>cl_broker = ''http://127.0.0.1:17443'', cl_usb = ''portable-bridge-example'', cl_profile = ''information'', cl_roots = []\<rparr>"

definition client_flag_set :: "(string \<times> client_flags flag) list" where
  "client_flag_set =
     [(''broker'', string_flag (\<lambda>v f. f\<lparr>cl_broker := v\<rparr>)), (''usb-id'', string_flag (\<lambda>v f. f\<lparr>cl_usb := v\<rparr>)),
      (''profile'', string_flag (\<lambda>v f. f\<lparr>cl_profile := v\<rparr>)),
      (''allow-dir'', string_flag (\<lambda>v f. f\<lparr>cl_roots := cl_roots f @ [v]\<rparr>))]"

record identity =
  id_public :: string
  id_private :: string
  id_nonce :: string

definition build_request :: "crypto \<Rightarrow> guest \<Rightarrow> identity \<Rightarrow> string \<Rightarrow> client_flags \<Rightarrow> string list \<Rightarrow> pair_request" where
  "build_request cr g who user f requested =
     (let q = \<lparr>q_Protocol = Version, q_USBID = cl_usb f, q_Hostname = g_hostname g, q_OS = g_goos g, q_Arch = g_arch g,
               q_User = user, q_PublicKey = RawURLEncode (id_public who), q_Nonce = RawURLEncode (id_nonce who),
               q_Signature = [], q_Requested = requested, q_DurationSeconds = 1800\<rparr>
      in q\<lparr>q_Signature := Sign cr (id_private who) (CanonicalPairRequest q)\<rparr>)"

text \<open>
  The wait for the operator's decision, at most \<open>n\<close> status calls; \<open>None\<close> is still pending.
  The token of the first reply is used throughout.
\<close>

fun await_decision :: "'s network \<Rightarrow> string \<Rightarrow> string \<Rightarrow> nat \<Rightarrow> pair_reply \<Rightarrow> 's
    \<Rightarrow> (call_failure + pair_reply) option \<times> 's" where
  "await_decision net broker token n rep s =
     (if r_Status rep \<noteq> ''pending'' then (Some (Inr rep), s)
      else case n of
        0 \<Rightarrow> (None, s)
      | Suc n \<Rightarrow>
          (case call net ''GET'' (broker @ ''/v1/pair/status?id='' @ r_RequestID rep) token None
                  (decode_stream False pair_reply_setters) rep s of
             (Inl e, s) \<Rightarrow> (Some (Inl e), s)
           | (Inr rep, s) \<Rightarrow> await_decision net broker token n rep s))"

datatype startup = Refused string | Nil_user | Call_failed call_failure | Waiting | Connected pair_reply executor

text \<open>
  \<^verbatim>\<open>main\<close> up to the session: \<open>None\<close> from \<open>new_executor\<close> and for the identity are errors.  The
  error of \<^verbatim>\<open>user.Current\<close> is ignored, and the nil user then dereferenced.
\<close>

definition connect :: "crypto \<Rightarrow> 's network \<Rightarrow> guest \<Rightarrow> identity option \<Rightarrow> string option \<Rightarrow> node \<Rightarrow> nat \<Rightarrow> client_flags \<Rightarrow> 's \<Rightarrow> startup \<times> 's" where
  "connect cr net g ids user t n f s =
     (case client_capabilities (g_goos g) (cl_profile f) of
        None \<Rightarrow> (Refused ''invalid capability profile'', s)
      | Some requested \<Rightarrow>
          (case new_executor g t (cl_roots f) of
             None \<Rightarrow> (Refused ''executor'', s)
           | Some e \<Rightarrow>
               (case (ids, user) of
                  (None, _) \<Rightarrow> (Refused ''identity'', s)
                | (_, None) \<Rightarrow> (Nil_user, s)
                | (Some who, Some u) \<Rightarrow>
                    (case call net ''POST'' (cl_broker f @ ''/v1/pair/request'') []
                            (Some (pair_request_text (build_request cr g who u f requested)))
                            (decode_stream False pair_reply_setters) no_reply s of
                       (Inl x, s) \<Rightarrow> (Call_failed x, s)
                     | (Inr rep, s) \<Rightarrow>
                         (case await_decision net (cl_broker f) (r_PairingToken rep) n rep s of
                            (None, s) \<Rightarrow> (Waiting, s)
                          | (Some (Inl x), s) \<Rightarrow> (Call_failed x, s)
                          | (Some (Inr rep), s) \<Rightarrow>
                              (if r_Status rep \<noteq> ''approved'' then (Refused ''pairing not approved'', s)
                               else (Connected rep e, s)))))))"

section \<open>Only acknowledged commands are executed\<close>

text \<open>
  The events of a session as the code is meant to produce them: a turn without a command, a
  command whose acknowledgement failed, or a command that was received, acknowledged,
  announced to the user, executed and reported, in this order and for the same command.
\<close>

inductive session_events :: "event list \<Rightarrow> bool" where
  Start: "session_events []"
| Empty_turn: "session_events es \<Longrightarrow> session_events (es @ [Idle])"
| Refused_turn: "session_events es \<Longrightarrow> session_events (es @ [Received c, Not_acknowledged (c_ID c)])"
| Command_turn: "session_events es \<Longrightarrow> c_Name c \<noteq> [] \<Longrightarrow>
    session_events (es @ [Received c, Acknowledged (c_ID c), Announced (commandSummary c), Executed c rp,
      Reported (result_of c start finish rp)])"

text \<open>The commands of an event list that were executed, and their effect on the machine.\<close>

fun executed :: "event list \<Rightarrow> command list" where
  "executed [] = []"
| "executed (Executed c rp # es) = c # executed es"
| "executed (x # es) = executed es"

fun acknowledged :: "event list \<Rightarrow> string list" where
  "acknowledged [] = []"
| "acknowledged (Acknowledged cid # es) = cid # acknowledged es"
| "acknowledged (x # es) = acknowledged es"

fun apply_commands :: "(host \<times> command) list \<Rightarrow> node \<times> world \<Rightarrow> node \<times> world" where
  "apply_commands [] m = m"
| "apply_commands ((h, c) # cs) m = apply_commands cs (snd (Execute h (fst m) (snd m) c))"

lemma executed_append [simp]: "executed (xs @ ys) = executed xs @ executed ys"
  by (induction xs rule: executed.induct) auto

lemma acknowledged_append [simp]: "acknowledged (xs @ ys) = acknowledged xs @ acknowledged ys"
  by (induction xs rule: acknowledged.induct) auto

lemma apply_commands_append [simp]: "apply_commands (xs @ ys) m = apply_commands ys (apply_commands xs m)"
  by (induction xs m rule: apply_commands.induct) auto

lemma session_events_append: "session_events ys \<Longrightarrow> session_events xs \<Longrightarrow> session_events (xs @ ys)"
  by (induction ys rule: session_events.induct) (simp_all add: session_events.intros flip: append_assoc)

lemma executed_acknowledged: "session_events es \<Longrightarrow> map c_ID (executed es) = acknowledged es"
  by (induction es rule: session_events.induct) auto

lemma run_command_events:
  assumes "run_command net broker token rd c g = (es, g')"
  shows "es = [Announced (commandSummary c), Executed c (fst (Execute (rd_host rd) (gs_tree g) (gs_world g) c)),
      Reported (result_of c (rd_start rd) (rd_finish rd) (fst (Execute (rd_host rd) (gs_tree g) (gs_world g) c)))]"
    and "(gs_tree g', gs_world g') = snd (Execute (rd_host rd) (gs_tree g) (gs_world g) c)"
  using assms by (auto simp: run_command_def Let_def split: prod.splits)

text \<open>One turn: a turn's events, and the machine after the commands it executed.\<close>

lemma turn_events:
  assumes "turn net broker rep rd g = ((es, e), g')"
  shows "session_events es" "\<exists>hs. length hs = length (executed es)
    \<and> (gs_tree g', gs_world g') = apply_commands (zip hs (executed es)) (gs_tree g, gs_world g)"
proof -
  have start: "session_events [Idle]" "session_events [Received c, Not_acknowledged (c_ID c)]"
    "c_Name c \<noteq> [] \<Longrightarrow> session_events [Received c, Acknowledged (c_ID c), Announced (commandSummary c), Executed c rp,
      Reported (result_of c x y rp)]" for c rp x y
    using session_events.intros(2-4) [OF Start] by simp_all
  obtain pauses r s where poll: "pollResilient net broker (r_SessionToken rep) (r_ExpiresAt rep) (10 * second) second
      (rd_polls rd) (gs_net g) = ((pauses, r), s)" by (metis prod.exhaust)
  consider (quiet) "executed es = []" "session_events es" "gs_tree g' = gs_tree g" "gs_world g' = gs_world g"
    | (command) c g1 es1 where "c_Name c \<noteq> []" "run_command net broker (r_SessionToken rep) rd c g1 = (es1, g')"
      "gs_tree g1 = gs_tree g" "gs_world g1 = gs_world g" "es = Received c # Acknowledged (c_ID c) # es1"
  proof (cases "\<exists>c. r = Some (Polled c) \<and> c_Name c \<noteq> []")
    case False
    then have "(es = [] \<or> es = [Idle]) \<and> gs_tree g' = gs_tree g \<and> gs_world g' = gs_world g"
      using assms poll by (cases r; cases "the r") (auto simp: turn_def)
    then show ?thesis using quiet start(1) Start by auto
  next
    case True
    then obtain c where c: "r = Some (Polled c)" "c_Name c \<noteq> []" by blast
    obtain a s' where ack: "call net ''POST'' (broker @ ''/v1/session/ack'') (r_SessionToken rep) (Some (ack_body (c_ID c)))
        no_output () s = (a, s')" by (metis surj_pair)
    show ?thesis
    proof (cases a)
      case (Inl x)
      then show ?thesis using assms poll c ack quiet start(2) by (auto simp: turn_def)
    next
      case (Inr u)
      obtain es1 g1 where run: "run_command net broker (r_SessionToken rep) rd c (g\<lparr>gs_net := s'\<rparr>) = (es1, g1)"
        by (metis surj_pair)
      then have "es = Received c # Acknowledged (c_ID c) # es1" "g' = g1"
        using assms poll c ack Inr by (auto simp: turn_def)
      then show ?thesis using command [OF c(2)] run by simp
    qed
  qed
  then have "session_events es \<and> (\<exists>hs. length hs = length (executed es)
      \<and> (gs_tree g', gs_world g') = apply_commands (zip hs (executed es)) (gs_tree g, gs_world g))"
  proof cases
    case quiet
    then show ?thesis by simp
  next
    case (command c g1 es1)
    note events = run_command_events [OF command(2)]
    have "executed es = [c]" using command(5) events(1) by simp
    moreover have "(gs_tree g', gs_world g') = apply_commands (zip [rd_host rd] [c]) (gs_tree g, gs_world g)"
      using events(2) command(3,4) by simp
    moreover have "session_events es" using start(3) [OF command(1)] command(5) events(1) by simp
    ultimately show ?thesis by (intro conjI exI [of _ "[rd_host rd]"]) simp_all
  qed
  then show "session_events es" "\<exists>hs. length hs = length (executed es)
    \<and> (gs_tree g', gs_world g') = apply_commands (zip hs (executed es)) (gs_tree g, gs_world g)" by blast+
qed

lemma session_loop_events:
  "session_loop net broker rep rds g = ((es, e), g') \<Longrightarrow>
   session_events es \<and> (\<exists>hs. length hs = length (executed es)
    \<and> (gs_tree g', gs_world g') = apply_commands (zip hs (executed es)) (gs_tree g, gs_world g))"
proof (induction rds arbitrary: g es e g')
  case Nil
  then show ?case using Start by simp
next
  case (Cons rd rds)
  obtain es1 r g1 where turn: "turn net broker rep rd g = ((es1, r), g1)" by (metis prod.exhaust)
  obtain es2 e2 g2 where rest: "session_loop net broker rep rds g1 = ((es2, e2), g2)" by (metis prod.exhaust)
  note first = turn_events [OF turn]
  consider (stop) "es = es1" "g' = g1" | (go) "es = es1 @ es2" "g' = g2"
    using Cons.prems turn rest by (auto split: option.splits)
  then show ?case
  proof cases
    case stop
    then show ?thesis using first by simp
  next
    case go
    obtain hs1 where hs1: "length hs1 = length (executed es1)"
      "(gs_tree g1, gs_world g1) = apply_commands (zip hs1 (executed es1)) (gs_tree g, gs_world g)"
      using first(2) by blast
    obtain hs2 where hs2: "session_events es2" "length hs2 = length (executed es2)"
      "(gs_tree g2, gs_world g2) = apply_commands (zip hs2 (executed es2)) (gs_tree g1, gs_world g1)"
      using Cons.IH [OF rest] by blast
    have "session_events es" using first(1) hs2(1) go(1) by (simp add: session_events_append)
    moreover have "(gs_tree g', gs_world g') = apply_commands (zip (hs1 @ hs2) (executed es)) (gs_tree g, gs_world g)"
      using hs1 hs2(3) go by simp
    moreover have "length (hs1 @ hs2) = length (executed es)" using hs1(1) hs2(2) go(1) by simp
    ultimately show ?thesis by blast
  qed
qed


lemma apply_read_only:
  "\<forall>c\<in>set cs. c_Name c \<notin> set file_writers \<and> c_Name c \<notin> set process_changers \<Longrightarrow>
   apply_commands (zip hs cs) m = m"
proof (induction cs arbitrary: hs m)
  case (Cons c cs)
  then show ?case
    by (cases hs) (use Execute_frame [of c] in \<open>auto simp: prod_eq_iff\<close>)
qed simp

lemma information_read_only:
  "client_capabilities goos ''information'' = Some caps \<Longrightarrow> n \<in> set caps \<Longrightarrow>
   n \<notin> set file_writers \<and> n \<notin> set process_changers"
  by (auto simp: client_capabilities_def file_writers_def process_changers_def)


text \<open>A session in which the broker sends one command and confirms everything.\<close>

definition farewell :: command where
  "farewell = \<lparr>c_ID = ''c1'', c_Name = ''session.disconnect'', c_Deadline = second, c_Params = []\<rparr>"

definition sample_net :: "unit network" where
  "sample_net q u = (Answer 200 ''200 OK'' (command_text farewell @ [newline]), u)"

definition sample_reply :: pair_reply where
  "sample_reply = no_reply\<lparr>r_Status := ''approved'', r_SessionToken := ''token'', r_ExpiresAt := 1000 * second\<rparr>"

definition sample_round :: "host \<Rightarrow> round" where
  "sample_round h = \<lparr>rd_polls = [second], rd_host = h, rd_start = second, rd_finish = second\<rparr>"

lemma sample_poll: "poll_call sample_net b tok u = (Inr farewell, ())"
proof -
  have "plain_command farewell" by (simp add: plain_command_def farewell_def ascii_valid year_ok_def)
  then show ?thesis by (simp add: poll_call_def call_def sample_net_def decode_command_text)
qed

lemma sample_ack: "call sample_net m url tok b no_output () u = (Inr (), ())"
  by (simp add: call_def sample_net_def no_output_def)

lemma sample_session:
  "session_loop sample_net b sample_reply [sample_round h] \<lparr>gs_tree = t, gs_world = w, gs_net = ()\<rparr>
   = (([Received farewell, Acknowledged ''c1'', Announced (commandSummary farewell),
        Executed farewell (fst (Execute h t w farewell)),
        Reported (result_of farewell second second (fst (Execute h t w farewell)))], Some Disconnected),
      \<lparr>gs_tree = t, gs_world = w, gs_net = ()\<rparr>)"
proof -
  have frame: "snd (Execute h t w farewell) = (t, w)"
    using Execute_frame [of farewell h t w] by (simp add: farewell_def file_writers_def process_changers_def prod_eq_iff)
  have poll: "pollResilient sample_net b (r_SessionToken sample_reply) (r_ExpiresAt sample_reply) 10000000000 second
      (rd_polls (sample_round h)) () = (([], Some (Polled farewell)), ())"
    by (simp add: sample_round_def sample_reply_def sample_poll IsZero_def)
  obtain rp where rp: "Execute h t w farewell = (rp, t, w)" using frame by (metis prod.collapse)
  have name: "c_Name farewell = ''session.disconnect''" "c_ID farewell = ''c1''" by (simp_all add: farewell_def)
  show ?thesis
    by (simp add: turn_def poll sample_ack run_command_def Let_def name) (simp add: sample_round_def rp)
qed



section \<open>Polling survives outages and ends\<close>

text \<open>The clock of the loop: between two rounds at least the pause of the first passes.\<close>

fun paced :: "duration \<Rightarrow> duration \<Rightarrow> time list \<Rightarrow> bool" where
  "paced maxBackoff backoff (t # t' # ts) =
     (t + backoff \<le> t' \<and> paced maxBackoff (next_backoff maxBackoff backoff) (t' # ts))"
| "paced maxBackoff backoff ts = True"

lemma next_backoff_bounds:
  "0 < b \<Longrightarrow> b \<le> m \<Longrightarrow> b \<le> next_backoff m b \<and> next_backoff m b \<le> m"
  by (auto simp: next_backoff_def)

lemma pollResilient_pauses:
  "pollResilient net broker token expiresAt m b nows s = ((pauses, r), s') \<Longrightarrow> 0 < b \<Longrightarrow> b \<le> m \<Longrightarrow>
   \<forall>p\<in>set pauses. b \<le> p \<and> p \<le> m"
proof (induction nows arbitrary: b s pauses r s')
  case (Cons now nows)
  note bounds = next_backoff_bounds [OF Cons.prems(2,3)]
  obtain ps r1 s1 a where rest: "poll_call net broker token s = (a, s1)" by (metis surj_pair)
  obtain ps r1 s2 where loop: "pollResilient net broker token expiresAt m (next_backoff m b) nows s1 = ((ps, r1), s2)"
    by (metis prod.exhaust)
  have "\<forall>p\<in>set ps. next_backoff m b \<le> p \<and> p \<le> m"
    using Cons.IH [OF loop] bounds Cons.prems(2) by linarith
  then have "\<forall>p\<in>set ps. b \<le> p \<and> p \<le> m" using bounds by force
  then show ?case
    using Cons.prems rest loop by (auto split: if_splits sum.splits option.splits)
qed simp

lemma pollResilient_end:
  "pollResilient net broker token expiresAt m b nows s = ((pauses, r), s') \<Longrightarrow>
   (case r of
      Some Session_expired \<Rightarrow> expiresAt \<noteq> 0 \<and> (\<exists>t\<in>set nows. expiresAt \<le> t)
    | Some (Poll_rejected code) \<Rightarrow> code \<in> {401, 403, 404, 410}
    | _ \<Rightarrow> True)"
proof (induction nows arbitrary: b s pauses r s')
  case (Cons now nows)
  obtain a s1 where call: "poll_call net broker token s = (a, s1)" by (metis surj_pair)
  obtain ps r1 s2 where loop: "pollResilient net broker token expiresAt m (next_backoff m b) nows s1 = ((ps, r1), s2)"
    by (metis prod.exhaust)
  show ?case
    using Cons.IH [OF loop] Cons.prems call loop
    by (auto simp: IsZero_def authoritative_def split: if_splits sum.splits option.splits poll_end.splits call_failure.splits)
qed simp

lemma pollResilient_ends:
  "pollResilient net broker token expiresAt m b nows s = ((pauses, r), s') \<Longrightarrow> 0 < b \<Longrightarrow> b \<le> m \<Longrightarrow>
   expiresAt \<noteq> 0 \<Longrightarrow> paced m b nows \<Longrightarrow> nows \<noteq> [] \<Longrightarrow> expiresAt \<le> hd nows + b * int (length nows - 1) \<Longrightarrow> r \<noteq> None"
proof (induction nows arbitrary: b s pauses r s')
  case (Cons now nows)
  note bounds = next_backoff_bounds [OF Cons.prems(2,3)]
  obtain a s1 where call: "poll_call net broker token s = (a, s1)" by (metis surj_pair)
  obtain ps r1 s2 where loop: "pollResilient net broker token expiresAt m (next_backoff m b) nows s1 = ((ps, r1), s2)"
    by (metis prod.exhaust)
  have "r1 \<noteq> None" if "now < expiresAt"
  proof (cases nows)
    case Nil
    then show ?thesis using Cons.prems(7) that by simp
  next
    case (Cons t ts)
    have "now + b \<le> t" "paced m (next_backoff m b) nows" using Cons.prems(5) Cons by simp_all
    moreover have "b * int (length ts) \<le> next_backoff m b * int (length ts)"
      using bounds by (intro mult_right_mono) simp_all
    ultimately show ?thesis
      using Cons.IH [OF loop] Cons.prems(2,4,7) bounds Cons by (simp add: algebra_simps)
  qed
  then show ?case
    using Cons.prems call loop by (auto simp: IsZero_def split: if_splits sum.splits option.splits)
qed simp

text \<open>C25 An outage does not end a session, and the wait for a command always ends: the pauses
  between attempts lie between the first one and the maximum; a session is given up only
  for an authoritative refusal of the broker (401, 403, 404, 410) or once it has expired; and when the
  clock advances by the pauses, a session with an expiry is decided after at most as many
  attempts as first pauses fit into the rest of its life.\<close>

theorem polling_survives_and_ends:
  assumes "pollResilient net broker token expiresAt maxBackoff backoff nows s = ((pauses, r), s')"
    and "0 < backoff" and "backoff \<le> maxBackoff"
  shows "(\<forall>p\<in>set pauses. backoff \<le> p \<and> p \<le> maxBackoff)
    \<and> (\<forall>code. r = Some (Poll_rejected code) \<longrightarrow> code \<in> {401, 403, 404, 410})
    \<and> (r = Some Session_expired \<longrightarrow> expiresAt \<noteq> 0 \<and> (\<exists>t\<in>set nows. expiresAt \<le> t))
    \<and> (expiresAt \<noteq> 0 \<and> nows \<noteq> [] \<and> paced maxBackoff backoff nows
        \<and> expiresAt \<le> hd nows + backoff * int (length nows - 1) \<longrightarrow> r \<noteq> None)"
  using pollResilient_pauses [OF assms] pollResilient_end [OF assms(1)] pollResilient_ends [OF assms] by auto

definition dead_net :: "unit network" where
  "dead_net q u = (Failed ''connection refused'', u)"

theorem polling_survives_and_ends_witness:
  "pollResilient dead_net ''http://127.0.0.1:17443'' ''token'' (4 * second) (10 * second) second
      [second, 2 * second, 4 * second, 8 * second] () = (([second, 2 * second], Some Session_expired), ())
   \<and> list_all (\<lambda>p. second \<le> p \<and> p \<le> 10 * second) [second, 2 * second]"
proof -
  have run: "pollResilient dead_net ''http://127.0.0.1:17443'' ''token'' (4 * second) (10 * second) second
      [second, 2 * second, 4 * second, 8 * second] () = (([second, 2 * second], Some Session_expired), ())"
    by (simp add: poll_call_def call_def dead_net_def IsZero_def authoritative_def next_backoff_def)
  show ?thesis using run polling_survives_and_ends [OF run] by simp
qed

section \<open>The announcement is one line\<close>

text \<open>The runes a printed value can have: no control characters below a space.\<close>

definition line_rune :: "rune \<Rightarrow> bool" where
  "line_rune r \<longleftrightarrow> 0x20 \<le> r"

lemma mapped_pieces:
  assumes "list_all good_piece ps"
  shows "\<exists>qs. concat (map (\<lambda>p. case printable_rune (fst p) of None \<Rightarrow> [] | Some r \<Rightarrow> encode_rune r) ps) = concat (map snd qs)
    \<and> list_all good_piece qs \<and> list_all (\<lambda>p. line_rune (fst p)) qs \<and> length qs \<le> length ps"
  using assms
proof (induction ps)
  case Nil
  show ?case by (intro exI [of _ "[]"]) simp
next
  case (Cons p ps)
  have "list_all good_piece ps" using Cons.prems by simp
  from Cons.IH [OF this] obtain qs where
    qs: "concat (map (\<lambda>p. case printable_rune (fst p) of None \<Rightarrow> [] | Some r \<Rightarrow> encode_rune r) ps) = concat (map snd qs)"
      "list_all good_piece qs" "list_all (\<lambda>p. line_rune (fst p)) qs" "length qs \<le> length ps" by blast
  show ?case
  proof (cases "printable_rune (fst p)")
    case None
    then show ?thesis using qs by (intro exI [of _ qs]) simp
  next
    case (Some r)
    have "valid_rune r" using Some Cons.prems good_piece_valid_rune [of p]
      by (auto simp: printable_rune_def valid_rune_def byte_in_def split: if_splits)
    moreover have "line_rune r" using Some by (auto simp: printable_rune_def line_rune_def split: if_splits)
    ultimately show ?thesis
      using Some qs good_encode [of r] by (intro exI [of _ "(r, encode_rune r) # qs"]) simp
  qed
qed

lemma good_ellipsis: "good_piece (0x2026, ellipsis)"
  by (simp add: good_piece_def ellipsis_def decode_width_def decode_rune_def peek_def rune_width_def byte_in_def
      second_lo_def second_hi_def Let_def)

lemma printable_runes:
  "list_all good_piece (runes (printable v limit)) \<and> list_all (\<lambda>p. line_rune (fst p)) (runes (printable v limit))
   \<and> length (runes (printable v limit)) \<le> limit + 1"
proof -
  have "list_all good_piece (repaired False (runes v))"
    by (rule repaired_good) (use runes_pieces in blast)
  from mapped_pieces [OF this] obtain qs where
    qs: "strings_Map printable_rune (ToValidUTF8 v replacement) = concat (map snd qs)" "list_all good_piece qs"
      "list_all (\<lambda>p. line_rune (fst p)) qs" by (auto simp: strings_Map_def runes_ToValid)
  have rs: "runes (concat (map snd qs)) = qs" by (rule runes_concat [OF qs(2)])
  have cut: "concat (map (encode_rune \<circ> fst) (take limit qs)) = concat (map snd (take limit qs))"
  proof -
    have "encode_rune (fst x) = snd x" if "x \<in> set (take limit qs)" for x
      using qs(2) in_set_takeD [OF that] by (simp add: list_all_iff good_piece_encode)
    then show ?thesis by (simp cong: map_cong)
  qed
  have good: "list_all good_piece (take limit qs @ [(0x2026, ellipsis)])"
    using qs(2) good_ellipsis by (auto simp: list_all_iff dest: in_set_takeD)
  have "runes (concat (map snd (take limit qs)) @ ellipsis) = take limit qs @ [(0x2026, ellipsis)]"
    using runes_concat [OF good] by simp
  moreover have "list_all (\<lambda>p. line_rune (fst p)) (take limit qs)" using qs(3) by (auto simp: list_all_iff dest: in_set_takeD)
  ultimately show ?thesis
    using qs rs cut good by (auto simp: printable_def Let_def line_rune_def)
qed

lemma runes_no_newline: "list_all (\<lambda>p. line_rune (fst p)) (runes s) \<Longrightarrow> list_all good_piece (runes s) \<Longrightarrow> newline \<notin> set s"
proof
  assume runes: "list_all (\<lambda>p. line_rune (fst p)) (runes s)" "list_all good_piece (runes s)" and "newline \<in> set s"
  then have "newline \<in> set (concat (map snd (runes s)))" by (simp add: runes_bytes)
  then obtain p where p: "p \<in> set (runes s)" "newline \<in> set (snd p)" by auto
  then have good: "good_piece p" "line_rune (fst p)" using runes by (auto simp: list_all_iff)
  show False
  proof (cases "length (snd p) = 1")
    case True
    then have "snd p = [newline]" using p(2) by (auto simp: length_Suc_conv)
    then have "fst p = 10" using good(1) by (simp add: good_piece_def decode_rune_ascii)
    then show False using good(2) by (simp add: line_rune_def)
  next
    case False
    then show False using good_piece_bytes [OF good(1)] p(2) by (auto simp: list_all_iff)
  qed
qed

lemma printable_one_line: "newline \<notin> set (printable v limit)"
  using printable_runes [of v limit] runes_no_newline by blast

text \<open>Whatever the broker sends, a command is announced to the user on one line and in
  bounded length: the summary holds no newline, each printed value is valid UTF-8 without control characters
  below the space and has at most one rune more than its limit.\<close>

theorem announcement_is_one_line:
  "newline \<notin> set (commandSummary c)
   \<and> list_all (\<lambda>p. 0x20 \<le> fst p) (runes (printable v limit)) \<and> valid_utf8 (printable v limit)
   \<and> length (runes (printable v limit)) \<le> limit + 1"
proof -
  have "newline \<notin> set (commandSummary c)"
    using printable_one_line Itoa_no_newline by (simp add: commandSummary_def Let_def split: option.split)
  moreover have "list_all (\<lambda>p. 0x20 \<le> fst p) (runes (printable v limit))"
    using printable_runes [of v limit] by (simp add: line_rune_def list_all_iff)
  ultimately show ?thesis using printable_runes [of v limit] by (simp add: valid_utf8_iff)
qed

end
