(* ===== verification/Portable_Drive.thy ===== *)
theory Portable_Drive imports Launcher Release_Tool Guest_Client begin

text \<open>
  The drive as a whole: the release tool signs it, the launcher checks and stages it, and the
  client reads the arguments the launcher hands it.
\<close>

section \<open>The launcher's arguments, as the client parses them\<close>

text \<open>A word that is a flag: one dash and a name without an equals sign.\<close>

definition flag_word :: "string \<Rightarrow> bool" where
  "flag_word n \<longleftrightarrow> n \<noteq> [] \<and> hd n \<noteq> CHR ''-'' \<and> CHR ''='' \<notin> set n"

lemma IndexByte_absent: "c \<notin> set s \<Longrightarrow> IndexByte s c = None"
  by (induction s) auto

lemma flag_name_word: "flag_word n \<Longrightarrow> flag_name n = (n, None)"
  by (simp add: flag_word_def flag_name_def Cut_def IndexByte_absent)

lemma parse_string_flag:
  assumes "map_of fs n = Some (string_flag f)" and "flag_word n"
  shows "parse_flags fs ((CHR ''-'' # n) # v # args) r = parse_flags fs args (f v r)"
  using assms flag_name_word [OF assms(2)]
  by (cases n) (auto simp: flag_word_def string_flag_def set_flag_def Let_def)

definition client_flags_of :: "public_config \<Rightarrow> string \<Rightarrow> string list \<Rightarrow> client_flags" where
  "client_flags_of cfg profile dirs =
     \<lparr>cl_broker = pc_BrokerURL cfg, cl_usb = pc_USBID cfg, cl_profile = profile, cl_roots = dirs\<rparr>"

lemma parse_allow_dirs:
  "parse_flags client_flag_set (concat (map (\<lambda>v. [''-allow-dir'', v]) dirs)) f = Inr (f\<lparr>cl_roots := cl_roots f @ dirs\<rparr>, [])"
proof (induction dirs arbitrary: f)
  case (Cons v dirs)
  have "parse_flags client_flag_set (''-allow-dir'' # v # args) f
      = parse_flags client_flag_set args (f\<lparr>cl_roots := cl_roots f @ [v]\<rparr>)" for args
    by (rule parse_string_flag) (simp_all add: client_flag_set_def flag_word_def)
  then show ?case using Cons.IH by simp
qed simp

lemma parse_client_args:
  "parse_flags client_flag_set (client_args cfg profile @ concat (map (\<lambda>v. [''-allow-dir'', v]) dirs)) default_client_flags
   = Inr (client_flags_of cfg profile dirs, [])"
proof -
  have broker: "parse_flags client_flag_set (''-broker'' # v # args) f = parse_flags client_flag_set args (f\<lparr>cl_broker := v\<rparr>)"
    and usb: "parse_flags client_flag_set (''-usb-id'' # v # args) f = parse_flags client_flag_set args (f\<lparr>cl_usb := v\<rparr>)"
    and profile: "parse_flags client_flag_set (''-profile'' # v # args) f = parse_flags client_flag_set args (f\<lparr>cl_profile := v\<rparr>)"
    for v args f
    by (rule parse_string_flag; simp add: client_flag_set_def flag_word_def)+
  show ?thesis
    by (simp add: client_args_def broker usb profile parse_allow_dirs client_flags_of_def default_client_flags_def
        del: parse_flags.simps)
qed

section \<open>What the user agreed to is what the client is given\<close>

text \<open>What the user typed: the first line and the second, trimmed.\<close>

definition typed_choice :: "machine \<Rightarrow> string" where
  "typed_choice mc = TrimSpace (fst (read_line (ln_input mc)))"

definition typed_answer :: "machine \<Rightarrow> string" where
  "typed_answer mc = TrimSpace (fst (read_line (snd (read_line (ln_input mc)))))"

definition agreed_dirs :: "machine \<Rightarrow> string list" where
  "agreed_dirs mc =
     (if typed_choice mc = ''2''
      then if ln_goos mc = ''windows'' then filter (\<lambda>v. ln_stat mc v = Some True) volumes else [''/'']
      else if typed_answer mc = [] then [] else [typed_answer mc])"

lemma consent_args:
  assumes "consent mc cfg = Inr args"
  shows "args = client_args cfg (if typed_choice mc = ''2'' then ''developer'' else ''information'')
                @ concat (map (\<lambda>v. [''-allow-dir'', v]) (agreed_dirs mc))"
    and "typed_choice mc = ''2'' \<Longrightarrow> typed_answer mc = ''DEVELOPER''"
    and "typed_choice mc \<noteq> ''2'' \<Longrightarrow> \<forall>d\<in>set (agreed_dirs mc). ln_stat mc d = Some True"
  using assms
  by (auto simp: consent_def typed_choice_def typed_answer_def agreed_dirs_def Let_def split: prod.splits if_splits)

text \<open>The capabilities that change the machine.\<close>

definition writing_capabilities :: "string set" where
  "writing_capabilities =
     {''process.start'', ''process.stop-owned'', ''shell.run'', ''shell.start'', ''shell.status'', ''shell.cancel'',
      ''shell.run-admin'', ''powershell.run'', ''files.write'', ''files.write-chunk'', ''files.upload''}"

text \<open>C10 What the user agreed to is what the client is given.  If the launcher starts the client, the
  client reads from its arguments exactly the broker and the drive of the signed
  configuration, the profile the user chose and the directories the user allowed.  Without
  the word DEVELOPER typed after the choice 2 the profile is the read-only one, so the client asks
  for none of the capabilities that write files or run programs, with at most the one
  existing directory the user typed.\<close>

theorem user_choice_reaches_client:
  assumes "launcher_run cr mc = Client l"
  shows "\<exists>root pub cfg f requested.
      DecodePublicKey (ln_key mc) = Inr pub \<and> loadPublicConfig cr (ln_files mc) root pub = Inr cfg
      \<and> parse_flags client_flag_set (sc_args l) default_client_flags = Inr (f, [])
      \<and> cl_broker f = pc_BrokerURL cfg \<and> cl_usb f = pc_USBID cfg \<and> cl_roots f = agreed_dirs mc
      \<and> client_capabilities (ln_goos mc) (cl_profile f) = Some requested
      \<and> (if typed_choice mc = ''2'' \<and> typed_answer mc = ''DEVELOPER'' then cl_profile f = ''developer''
         else cl_profile f = ''information'' \<and> length (cl_roots f) \<le> 1
              \<and> (\<forall>d\<in>set (cl_roots f). ln_stat mc d = Some True)
              \<and> set requested \<inter> writing_capabilities = {})"
proof -
  obtain pub self root where run: "DecodePublicKey (ln_key mc) = Inr pub" "verified_run cr mc pub root = Client l"
    by (rule launcher_run_client [OF assms])
  obtain cfg m vb payload where v: "loadPublicConfig cr (ln_files mc) root pub = Inr cfg"
    "run_payload mc cfg m payload = Client l"
    by (rule verified_run_client [OF run(2)])
  obtain stage where "consent mc cfg = Inr (sc_args l)" by (rule run_payload_client [OF v(2)])
  note args = consent_args [OF this]
  have parse: "parse_flags client_flag_set (sc_args l) default_client_flags =
      Inr (client_flags_of cfg (if typed_choice mc = ''2'' then ''developer'' else ''information'') (agreed_dirs mc), [])"
    unfolding args(1) by (rule parse_client_args)
  have dirs: "typed_choice mc \<noteq> ''2'' \<Longrightarrow> length (agreed_dirs mc) \<le> 1 \<and> (\<forall>d\<in>set (agreed_dirs mc). ln_stat mc d = Some True)"
    using args(3) by (auto simp: agreed_dirs_def split: if_splits)
  define developer where "developer \<longleftrightarrow> typed_choice mc = ''2'' \<and> typed_answer mc = ''DEVELOPER''"
  have choice: "(typed_choice mc = ''2'') = developer" using args(2) by (auto simp: developer_def)
  define p where "p = (if developer then ''developer'' else ''information'')"
  obtain requested where requested: "client_capabilities (ln_goos mc) p = Some requested"
    "\<not> developer \<Longrightarrow> set requested \<inter> writing_capabilities = {}"
    by (cases developer) (simp_all add: p_def client_capabilities_def writing_capabilities_def)
  show ?thesis
    by (rule exI [of _ root], rule exI [of _ pub], rule exI [of _ cfg],
        rule exI [of _ "client_flags_of cfg p (agreed_dirs mc)"], rule exI [of _ requested])
       (use run(1) v(1) parse [unfolded choice, folded p_def] dirs [unfolded choice] requested in
         \<open>simp add: client_flags_of_def p_def flip: developer_def\<close>)
qed

section \<open>A drive that starts\<close>

definition sample_config :: json where
  "sample_config = JObject [(''usbId'', JString ''u1''), (''brokerUrl'', JString ''https://b'')]"

definition sample_drive :: "string \<rightharpoonup> string" where
  "sample_drive =
     [''/u/config/bridge-public.json'' \<mapsto> json_text sample_config,
      ''/u/config/bridge-public.json.sig'' \<mapsto> release_Sign padded_crypto [] (json_text sample_config),
      ''/u/payload/linux-amd64/manifest.json'' \<mapsto> manifest_text sample_manifest,
      ''/u/payload/linux-amd64/manifest.json.sig'' \<mapsto> release_Sign padded_crypto [] (manifest_text sample_manifest),
      ''/u/payload/linux-amd64/p'' \<mapsto> ''x'', ''/u/payload/linux-amd64/p.sig'' \<mapsto> release_Sign padded_crypto [] ''x'',
      ''/u/VERSION.txt'' \<mapsto> ''1'']"

definition sample_machine :: machine where
  "sample_machine =
     \<lparr>ln_goos = ''linux'', ln_goarch = ''amd64'', ln_key = RawStdEncode (replicate 32 (CHR ''k'')), ln_version = ''1'',
      ln_self = Some ''/u/launchers/bridge'', ln_getenv = (\<lambda>k. []), ln_tty = True, ln_lookpath = Map.empty,
      ln_files = sample_drive,
      ln_stat = (\<lambda>f. if f = ''/home'' then Some True else map_option (\<lambda>d. False) (sample_drive f)),
      ln_input = [newline] @ ''/home'' @ [newline], ln_stage = Some ''/tmp/s'', ln_writable = (\<lambda>f. True),
      ln_run = (\<lambda>f args. None)\<rparr>"

definition sample_client :: started_client where
  "sample_client =
     \<lparr>sc_path = ''/tmp/s/p'', sc_payload = ''x'',
      sc_args = [''-broker'', ''https://b'', ''-usb-id'', ''u1'', ''-profile'', ''information'', ''-allow-dir'', ''/home''],
      sc_dir = ''/tmp/s'', sc_result = None\<rparr>"

lemma drive_paths:
  "config_file ''/u'' = ''/u/config/bridge-public.json''" "Join ''/u'' ''VERSION.txt'' = ''/u/VERSION.txt''"
  "config_file ''/u/launchers'' = ''/u/launchers/config/bridge-public.json''"
  "payload_dir ''/u'' ''linux-amd64'' = ''/u/payload/linux-amd64''"
  "Join ''/u/payload/linux-amd64'' ''manifest.json'' = ''/u/payload/linux-amd64/manifest.json''"
  "Join ''/u/payload/linux-amd64'' ''manifest.json.sig'' = ''/u/payload/linux-amd64/manifest.json.sig''"
  "Join ''/u/payload/linux-amd64'' ''p'' = ''/u/payload/linux-amd64/p''"
  "Join ''/u/payload/linux-amd64'' ''p.sig'' = ''/u/payload/linux-amd64/p.sig''"
  "Join ''/tmp/s'' ''p'' = ''/tmp/s/p''" "Dir ''/u/launchers/bridge'' = ''/u/launchers''" "Dir ''/u/launchers'' = ''/u''"
  "Clean ''/u/launchers'' = ''/u/launchers''"
  by code_simp+

lemma sample_root: "findPortableRoot sample_machine ''/u/launchers'' ''linux-amd64'' = Some ''/u''"
  by (simp add: findPortableRoot_def drive_paths is_root_def numeral_eq_Suc sample_machine_def sample_drive_def)

lemma sample_config_loads:
  "loadPublicConfig padded_crypto sample_drive ''/u'' pub = Inr \<lparr>pc_USBID = ''u1'', pc_BrokerURL = ''https://b''\<rparr>"
proof -
  have "unmarshal public_config_fields \<lparr>pc_USBID = [], pc_BrokerURL = []\<rparr> (json_text sample_config)
      = Some \<lparr>pc_USBID = ''u1'', pc_BrokerURL = ''https://b''\<rparr>"
    unfolding sample_config_def by (subst unmarshal_text) (simp_all add: ascii_valid public_config_fields_def find_field_def)
  then show ?thesis
    by (simp add: loadPublicConfig_def drive_paths sample_drive_def release_Verify_Sign padded_scheme safe_url_def)
qed

lemma sample_payload_loads:
  "LoadAndVerify padded_crypto sample_drive ''/u/payload/linux-amd64'' pub ''linux'' ''amd64'' = Inr (sample_manifest, ''x'')"
proof -
  have round: "unmarshal manifest_fields no_manifest (manifest_text sample_manifest) = Some sample_manifest"
    by (rule unmarshal_manifest_text) (simp_all add: sample_manifest_def ascii_valid release_Hash_def in_int64_def)
  have name: "m_Filename sample_manifest = ''p''" by (simp add: sample_manifest_def)
  have "LoadAndVerify padded_crypto sample_drive ''/u/payload/linux-amd64'' pub (m_OS sample_manifest)
      (m_Architecture sample_manifest) = Inr (sample_manifest, ''x'')"
    by (rule LoadAndVerify_signed [where priv = "[]"])
       (use round in \<open>simp_all add: name sample_drive_def drive_paths padded_scheme\<close>,
        simp_all add: sample_manifest_def Base_def strip_slashes_def)
  then show ?thesis by (simp add: sample_manifest_def)
qed

lemma sample_consent:
  "consent sample_machine \<lparr>pc_USBID = ''u1'', pc_BrokerURL = ''https://b''\<rparr> = Inr (sc_args sample_client)"
  by (simp add: consent_def sample_machine_def read_line_def TrimSpace_def runes_ascii IsSpace_def byte_in_def client_args_def
      sample_client_def Let_def)

lemma sample_launch: "launcher_run padded_crypto sample_machine = Client sample_client"
proof -
  have ver: "VersionAtLeast ''1'' ''1''"
    by (simp add: VersionAtLeast_def numericVersion_def TrimSpace_def runes_ascii IsSpace_def byte_in_def TrimPrefix_def
        Atoi_def is_digit_def digits_value_def digit_value_def in_int64_def Let_def)
  have trim: "TrimSpace ''1'' = ''1''" by (simp add: TrimSpace_def runes_ascii IsSpace_def byte_in_def)
  note machine = sample_machine_def
  have key: "DecodePublicKey (ln_key sample_machine) = Inr (replicate 32 (CHR ''k''))"
    by (simp add: machine DecodePublicKey_def raw_std.dec_enc)
  have run: "run_payload sample_machine \<lparr>pc_USBID = ''u1'', pc_BrokerURL = ''https://b''\<rparr> sample_manifest ''x'' = Client sample_client"
    using sample_consent
    by (simp add: run_payload_def) (simp add: machine sample_manifest_def drive_paths sample_client_def)
  have "verified_run padded_crypto sample_machine (replicate 32 (CHR ''k'')) ''/u'' = Client sample_client"
    using run sample_config_loads sample_payload_loads ver trim
    by (simp add: verified_run_def drive_paths) (simp add: machine drive_paths sample_manifest_def sample_drive_def)
  moreover have "RawStdDecode [] = Some []" by code_simp
  with raw_std.dec_enc [of "replicate 32 (CHR ''k'')"] have "ln_key sample_machine \<noteq> []" by (auto simp: machine)
  ultimately show ?thesis
    using key sample_root
    by (simp add: launcher_run_def)
       (simp add: machine supportedTarget_def ensureInteractiveConsole_def drive_paths)
qed

theorem launcher_starts_only_signed_witness:
  "launcher_run padded_crypto sample_machine = Client sample_client
   \<and> (\<exists>root k. k < 4 \<and> root = ancestor k (Clean (Dir ''/u/launchers/bridge'')) \<and> is_root sample_machine ''linux-amd64'' root)"
  using launcher_starts_only_signed [OF sample_launch, of UNIV] sample_launch
  by (simp add: sample_machine_def) blast

theorem user_choice_reaches_client_witness:
  "\<exists>f. parse_flags client_flag_set (sc_args sample_client) default_client_flags = Inr (f, []) \<and> cl_profile f = ''information''"
  using user_choice_reaches_client [OF sample_launch]
  by (auto simp: typed_choice_def typed_answer_def sample_machine_def read_line_def TrimSpace_def runes_ascii IsSpace_def
      byte_in_def)

end
