(* ===== verification/Json_Valid.thy ===== *)
theory Json_Valid imports Wire begin

text \<open>
  Every text that \<^verbatim>\<open>encoding/json\<close> decodes is valid UTF-8, whatever the bytes it reads: bytes that are
  no UTF-8 and escapes of half a surrogate pair are replaced on the way.
\<close>

text \<open>The bodies of string literals that the lexer accepts.\<close>

fun escaped :: "string \<Rightarrow> bool" where
  "escaped [] = True"
| "escaped [c] = (c \<noteq> quote \<and> c \<noteq> backslash)"
| "escaped (c # e # s) =
     (if c = quote then False
      else if c = backslash then
        (e \<in> set [quote, backslash, CHR ''/'', CHR ''b'', CHR ''f'', CHR ''n'', CHR ''r'', CHR ''t'']
          \<or> (e = CHR ''u'' \<and> 4 \<le> length s \<and> list_all is_hex (take 4 s))) \<and> escaped s
      else escaped (e # s))"

lemma escaped_Cons: "c \<noteq> quote \<Longrightarrow> c \<noteq> backslash \<Longrightarrow> escaped (c # s) = escaped s"
  by (cases s) auto

lemma quote_no_hex: "\<not> is_hex quote"
  by (simp add: is_hex_def byte_in_def)

lemma hex_before_quote:
  assumes "length (take 4 (b @ quote # r)) = 4" and "list_all is_hex (take 4 (b @ quote # r))"
  shows "4 \<le> length b \<and> list_all is_hex (take 4 b)"
proof -
  have "4 \<le> length b"
  proof (rule ccontr)
    assume "\<not> 4 \<le> length b"
    then have "quote \<in> set (take 4 (b @ quote # r))" by (cases "4 - length b") auto
    then show False using assms(2) quote_no_hex by (auto simp: list_all_iff)
  qed
  then show ?thesis using assms(2) by simp
qed

lemma lex_str_escaped: "lex_str s = Some (b, r) \<Longrightarrow> s = b @ quote # r \<and> escaped b"
proof (induction s arbitrary: b r rule: lex_str.induct)
  case (3 c e s)
  consider (close) "c = quote" | (escape) "c = backslash" | (plain) "c \<noteq> quote" "c \<noteq> backslash" by blast
  then show ?case
  proof cases
    case close
    then show ?thesis using 3(3) by simp
  next
    case escape
    then obtain b' where b': "lex_str s = Some (b', r)" "b = c # e # b'"
      using 3(3) by (auto simp: apfst_pair split: if_splits)
    have ok: "e \<in> set [quote, backslash, CHR ''/'', CHR ''b'', CHR ''f'', CHR ''n'', CHR ''r'', CHR ''t'']
        \<or> (e = CHR ''u'' \<and> length (take 4 s) = 4 \<and> list_all is_hex (take 4 s))"
      using 3(3) escape by (simp only: lex_str.simps if_True if_False split: if_splits) simp_all
    have s: "s = b' @ quote # r \<and> escaped b'"
      using 3(1) [OF _ escape ok b'(1)] escape by simp
    have "escaped (c # e # b')"
    proof (cases "e = CHR ''u''")
      case True
      then have "4 \<le> length b' \<and> list_all is_hex (take 4 b')"
        using ok by (intro hex_before_quote [of b' r]) (simp_all only: conjunct1 [OF s, symmetric], simp_all)
      then show ?thesis using True s escape by simp
    next
      case False
      then show ?thesis using ok s escape by simp
    qed
    then show ?thesis using conjunct1 [OF s] by (simp only: b'(2)) simp
  next
    case plain
    then obtain b' where b': "lex_str (e # s) = Some (b', r)" "b = c # b'" "\<not> (of_char c :: nat) < 0x20"
      using 3(3) by (auto simp: apfst_pair split: if_splits)
    then have "e # s = b' @ quote # r" "escaped b'" using 3(2) [OF plain(1,2) b'(3,1)] by simp_all
    then show ?thesis using b'(2) plain by (simp add: escaped_Cons)
  qed
qed (auto split: if_splits)

lemma escaped_drop:
  "escaped s \<Longrightarrow> list_all (\<lambda>c. c \<noteq> quote \<and> c \<noteq> backslash) (take n s) \<Longrightarrow> escaped (drop n s)"
proof (induction n arbitrary: s)
  case (Suc n)
  then show ?case by (cases s) (auto simp: escaped_Cons)
qed simp

lemma escaped_rune:
  assumes "escaped s" and "s = c # s'" and "c \<noteq> backslash"
  shows "escaped (drop (snd (decode_rune s)) s)"
proof (rule escaped_drop [OF assms(1)])
  have c: "c \<noteq> quote" using assms by (cases s') auto
  let ?p = "(fst (decode_rune s), take (snd (decode_rune s)) s)"
  have "?p \<in> set (runes s)" using assms(2) by (subst runes.simps) simp
  then consider "good_piece ?p" | "length (snd ?p) = 1" using runes_pieces [of ?p s] by (auto simp: invalid_piece_def)
  then have tail: "\<forall>x\<in>set (tl (snd ?p)). 0x80 \<le> (of_char x :: nat)"
  proof cases
    case 1
    then show ?thesis using good_piece_tail by blast
  next
    case 2
    then have "length (tl (snd ?p)) = 0" by (simp only: length_tl)
    then have "tl (snd ?p) = []" by (simp only: length_0_conv)
    then show ?thesis by (metis empty_iff list.set(1))
  qed
  have "take (snd (decode_rune s)) s = c # tl (snd ?p)"
    using assms(2) decode_rune_width_pos [of s] by (cases "snd (decode_rune s)") auto
  moreover have "x \<noteq> quote \<and> x \<noteq> backslash" if "0x80 \<le> (of_char x :: nat)" for x
    using that by auto
  then have "list_all (\<lambda>c. c \<noteq> quote \<and> c \<noteq> backslash) (c # tl (snd ?p))"
    using tail c assms(3) unfolding list_all_iff by simp
  ultimately show "list_all (\<lambda>c. c \<noteq> quote \<and> c \<noteq> backslash) (take (snd (decode_rune s)) s)" by (simp only:)
qed

lemma escaped_hex: "escaped s \<Longrightarrow> 4 \<le> length s \<Longrightarrow> list_all is_hex (take 4 s) \<Longrightarrow> escaped (drop 4 s)"
  by (rule escaped_drop) (auto simp: list_all_iff dest: is_hex_plain)

lemma simple_escape_rune:
  assumes "e \<in> set [quote, backslash, CHR ''/'', CHR ''b'', CHR ''f'', CHR ''n'', CHR ''r'', CHR ''t'']"
  shows "encode_rune (of_char (simple_escape e)) = [simple_escape e]"
proof -
  have "list_all (\<lambda>e. (of_char (simple_escape e) :: nat) < 0x80)
      [quote, backslash, CHR ''/'', CHR ''b'', CHR ''f'', CHR ''n'', CHR ''r'', CHR ''t'']"
    by (simp add: simple_escape_def)
  then have "(of_char (simple_escape e) :: nat) < 0x80" using assms unfolding list_all_iff by blast
  then show ?thesis by (simp add: encode_value1)
qed

lemma unquote_runes: "escaped s \<Longrightarrow> \<exists>rs. unquote s = concat (map encode_rune rs)"
proof (induction s rule: measure_induct_rule [of length])
  case (less s)
  have next_runes: "\<exists>rs. encode_rune r @ unquote t = concat (map encode_rune rs)" if t: "length t < length s" "escaped t" for r t
  proof -
    obtain rs where "unquote t = concat (map encode_rune rs)" using less.IH [OF t] by blast
    then show ?thesis by (intro exI [of _ "r # rs"]) simp
  qed
  show ?case
  proof (cases s)
    case Nil
    then show ?thesis by (intro exI [of _ "[]"]) (simp add: unquote.simps)
  next
    case (Cons c s')
    show ?thesis
    proof (cases "c = backslash")
      case False
      have "0 < snd (decode_rune s)" using Cons decode_rune_width_pos by blast
      then have "length (drop (snd (decode_rune s)) s) < length s" using Cons by simp
      then show ?thesis
        using next_runes [OF _ escaped_rune [OF less.prems Cons False]] unquote_rune [of s] Cons False by simp
    next
      case True
      then obtain e t where t: "s = backslash # e # t" using less.prems Cons by (cases s') auto
      have esc: "escaped t" using less.prems t by simp
      show ?thesis
      proof (cases "e = CHR ''u''")
        case False
        then have "e \<in> set [quote, backslash, CHR ''/'', CHR ''b'', CHR ''f'', CHR ''n'', CHR ''r'', CHR ''t'']"
          using less.prems t by auto
        from simple_escape_rune [OF this] have "unquote s = encode_rune (of_char (simple_escape e)) @ unquote t"
          using False by (subst unquote.simps) (simp add: t)
        then show ?thesis using next_runes [OF _ esc] t by simp
      next
        case u: True
        have hex: "4 \<le> length t" "list_all is_hex (take 4 t)" using less.prems t u by auto
        let ?t = "drop 4 t"
        have rest: "escaped ?t" by (rule escaped_hex [OF esc hex])
        have pair: "escaped (drop 6 ?t)" if "take 2 ?t = [backslash, CHR ''u'']"
        proof -
          have "?t = take 2 ?t @ drop 2 ?t" by (rule append_take_drop_id [symmetric])
          also have "take 2 ?t = [backslash, CHR ''u'']" by (rule that)
          finally obtain t' where t': "?t = backslash # CHR ''u'' # t'" by simp
          have "escaped (backslash # CHR ''u'' # t')" using rest by (simp only: t')
          then have "4 \<le> length t'" "list_all is_hex (take 4 t')" "escaped t'" by simp_all
          then show ?thesis using escaped_hex [of t'] t' by simp
        qed
        have error: "replacement = encode_rune rune_error" using good_piece_encode [OF good_replacement] by simp
        have "unquote s = (let r = hex4 t in if surrogate r then
              (let r' = (if take 2 ?t = [backslash, CHR ''u''] then pair_rune r (hex4 (drop 2 ?t)) else rune_error)
               in if r' \<noteq> rune_error then encode_rune r' @ unquote (drop 6 ?t) else replacement @ unquote ?t)
            else encode_rune r @ unquote ?t)"
          by (subst unquote.simps) (simp add: t u Let_def)
        moreover have "length ?t < length s" "length (drop 6 ?t) < length s" using t by simp_all
        moreover have "\<exists>rs. replacement @ unquote ?t = concat (map encode_rune rs)"
          unfolding error using next_runes [OF _ rest] t by simp
        ultimately show ?thesis
          using next_runes [OF _ rest] next_runes [OF _ pair] by (simp add: Let_def split: if_split)
      qed
    qed
  qed
qed

lemma unquote_valid: "lex_str s = Some (b, r) \<Longrightarrow> valid_utf8 (unquote b)"
  using lex_str_escaped unquote_runes valid_encode_runes by metis

section \<open>Texts in a value\<close>

fun good_token :: "token \<Rightarrow> bool" where
  "good_token (Str x) = valid_utf8 x"
| "good_token (Lit v) = (\<forall>x. v \<noteq> JString x)"
| "good_token t = True"

lemma lex_good: "list_all good_token (lex s)"
proof (induction s rule: measure_induct_rule [of length])
  case (less s)
  show ?case
  proof (cases s)
    case (Cons c r)
    have shorter: "list_all good_token (lex r)" "list_all good_token (lex (drop n r))" for n
      using less.IH Cons by simp_all
    have str: "valid_utf8 (unquote b)" "list_all good_token (lex u)" if "lex_str r = Some (b, u)" for b u
      using less.IH [of u] lex_str_shorter [OF that] Cons unquote_valid [OF that] by simp_all
    have num: "list_all good_token (lex u)" if "lex_num (c # r) = Some (n, u)" for n u
      using less.IH [of u] lex_num_shorter [OF that] Cons by simp
    show ?thesis
      unfolding Cons lex.simps(2) using shorter str num by (auto split: option.splits)
  qed simp
qed

lemma next_mode_text:
  assumes "next_mode m fs t = Some (After (JString x), fs')" and "good_token t"
  shows "valid_utf8 x"
  using assms
  by (auto simp: next_mode_def start_value_def split: mode.splits token.splits if_splits list.splits frame.splits)

lemma read_value_text:
  "read_value m fs ts = Some (v, ts') \<Longrightarrow> list_all good_token ts \<Longrightarrow> m \<noteq> After v \<Longrightarrow> v = JString x \<Longrightarrow> valid_utf8 x"
proof (induction ts arbitrary: m fs)
  case Nil
  then show ?case by (cases m; cases fs) auto
next
  case (Cons t ts)
  have "\<not> (\<exists>v'. m = After v' \<and> fs = [])" using Cons.prems(1,3) by auto
  then have "read_value m fs (t # ts) = (case next_mode m fs t of None \<Rightarrow> None | Some (m, fs) \<Rightarrow> read_value m fs ts)"
    by (intro read_value_step) blast
  then obtain m' fs' where n: "next_mode m fs t = Some (m', fs')" "read_value m' fs' ts = Some (v, ts')"
    using Cons.prems(1) by (auto split: option.splits)
  show ?case
  proof (cases "m' = After v")
    case True
    then show ?thesis using next_mode_text n(1) Cons.prems(2,4) by simp
  next
    case False
    then show ?thesis using Cons.IH [OF n(2)] Cons.prems by simp
  qed
qed

lemma parse_text_valid: "parse_json s = Some (JString x) \<Longrightarrow> valid_utf8 x"
  using read_value_text [of Value "[]" "lex s" "JString x" "[]" x] lex_good [of s]
  by (auto simp: parse_json_def split: option.splits list.splits)

section \<open>The id of a command\<close>

lemma text_field_valid:
  assumes "text_field f s r = Some r'"
  shows "r' = r \<or> (\<exists>v. valid_utf8 v \<and> r' = f v r)"
proof -
  obtain v where v: "parse_json s = Some v" "set_string f v r = Some r'"
    using assms by (auto simp: text_field_def by_value_def split: bind_splits)
  then show ?thesis using parse_text_valid by (cases v) auto
qed

lemma find_named_in: "find_named fs k = Some f \<Longrightarrow> f \<in> snd ` set fs"
  by (force simp: find_named_def find_Some_iff split: option.splits dest: map_of_SomeD nth_mem)

lemma set_texts_command:
  "set_texts strict command_setters ms c = Some c' \<Longrightarrow> valid_utf8 (c_ID c) \<Longrightarrow> valid_utf8 (c_ID c')"
proof (induction ms arbitrary: c)
  case (Cons m ms)
  obtain k s where m: "m = (k, s)" by (cases m)
  show ?case
  proof (cases "find_named command_setters k")
    case None
    then show ?thesis using Cons m by (auto split: if_splits)
  next
    case (Some f)
    then obtain c1 where c1: "f s c = Some c1" "set_texts strict command_setters ms c1 = Some c'"
      using Cons.prems(1) m by (auto split: option.splits)
    have "valid_utf8 (c_ID c1)"
      using find_named_in [OF Some] c1(1) Cons.prems(2)
      by (auto simp: command_setters_def time_field_def by_text_def dest: text_field_valid split: if_splits)
    then show ?thesis using Cons.IH [OF c1(2)] by simp
  qed
qed simp

lemma decoded_command_valid:
  assumes "decode_stream strict command_setters c s = Some c'" and "valid_utf8 (c_ID c)"
  shows "valid_utf8 (c_ID c')"
  using assms set_texts_command
  by (auto simp: decode_stream_def set_object_def split: if_splits option.splits json.splits)

end
