(* ===== verification/Guest_System.thy ===== *)
theory Guest_System imports Broker_Http Guest_Client Json_Valid "HOL-Library.Sublist" begin

text \<open>
  Guest and broker together: the session of \<^verbatim>\<open>cmd/bridge-client/main.go\<close> against the broker of
  \<^verbatim>\<open>cmd/pairing-broker/main.go\<close>, with any other requests, crashes and restarts in between and a
  network that may lose requests and answers.  At the end: the model of the broker with its routes,
  Broker_Http, is such a system.
\<close>

section \<open>Exchanges with a running broker\<close>

text \<open>
  What a request of a guest can do to the system and what it can be answered.  Before and after
  the broker handles it, and also when it is lost, the system may take any steps.  An
  acknowledgement is the locked section of \<^verbatim>\<open>ack\<close> on the session that was looked up, or a refusal
  before it; of the other requests nothing is assumed but that they act through steps.
\<close>

inductive answered :: "crypto \<Rightarrow> string \<Rightarrow> system \<Rightarrow> http_request \<Rightarrow> http_reply \<Rightarrow> system \<Rightarrow> bool" for cr base where
  Lost: "(step cr)\<^sup>*\<^sup>* y z \<Longrightarrow> answered cr base y q (Failed m) z"
| Acked: "hr_URL q = base @ ''/v1/session/ack'' \<Longrightarrow> hr_Body q = Some text \<Longrightarrow>
    limitedJSON (read_body ack_setters [] text) = Some cid \<Longrightarrow> (step cr)\<^sup>*\<^sup>* y y' \<Longrightarrow>
    ack_locked now logged fault r cid (sys_server y') = (resp, t) \<Longrightarrow>
    (step cr)\<^sup>*\<^sup>* (y'\<lparr>sys_server := t, sys_log := sys_log y' @ promised r (fact.Started cid) resp (sys_server y')\<rparr>) z \<Longrightarrow>
    answered cr base y q (answer_of (Some resp)) z"
| Refused: "hr_URL q = base @ ''/v1/session/ack'' \<Longrightarrow> resp_code resp \<in> {400, 401} \<Longrightarrow> (step cr)\<^sup>*\<^sup>* y z \<Longrightarrow>
    answered cr base y q (answer_of (Some resp)) z"
| Other: "hr_URL q \<noteq> base @ ''/v1/session/ack'' \<Longrightarrow> (step cr)\<^sup>*\<^sup>* y z \<Longrightarrow> answered cr base y q reply z"

text \<open>The handler as \<open>serve\<close> runs it, without other requests in between, is such an exchange.\<close>

lemma serve_ack_answered:
  assumes "serve cr e meth (hr_Authorization q) (Session_ack (read_body ack_setters [] text)) (sys_server y) = (r, t)"
    and "hr_URL q = base @ ''/v1/session/ack''" and "hr_Body q = Some text"
  shows "\<exists>fs. answered cr base y q (answer_of r) (y\<lparr>sys_server := t, sys_log := sys_log y @ fs\<rparr>)"
proof -
  let ?b = "read_body ack_setters [] text" and ?s = "sys_server y"
  obtain resp where ack: "ack cr (he_locked e) (hr_Authorization q) ?b ?s = (resp, t)" and r: "r = Some resp"
    using assms(1) by (cases "ack cr (he_locked e) (hr_Authorization q) ?b ?s") auto
  consider (refused) "resp_code resp \<in> {400, 401}" "t = ?s"
    | (locked) i cid where "limitedJSON ?b = Some cid"
        "ack_locked (le_now (he_locked e)) (le_logged (he_locked e)) (le_fault (he_locked e)) i cid ?s = (resp, t)"
    using ack by (auto simp: ack_def split: option.splits if_splits)
  then show ?thesis
  proof cases
    case refused
    then show ?thesis
      unfolding r by (intro exI [of _ "[]"]) (simp add: Refused [OF assms(2)])
  next
    case (locked i cid)
    then show ?thesis
      unfolding r using Acked [OF assms(2,3) locked(1) rtranclp.rtrancl_refl locked(2) rtranclp.rtrancl_refl] by blast
  qed
qed

section \<open>What the broker has recorded\<close>

text \<open>Between \<open>y\<close> and \<open>z\<close> the start of the commands \<open>cids\<close> was recorded, one by one and in order.\<close>

definition recorded :: "system \<Rightarrow> string list \<Rightarrow> system \<Rightarrow> bool" where
  "recorded y cids z \<longleftrightarrow>
     (\<exists>rids new. length rids = length cids \<and> sys_log z = sys_log y @ new \<and> subseq (zip rids (map fact.Started cids)) new)"

lemma recorded_trans:
  assumes "recorded y cids z" and "recorded z cids' w"
  shows "recorded y (cids @ cids') w"
proof -
  obtain rids new rids' new' where "length rids = length cids" "sys_log z = sys_log y @ new"
    "subseq (zip rids (map fact.Started cids)) new" "length rids' = length cids'" "sys_log w = sys_log z @ new'"
    "subseq (zip rids' (map fact.Started cids')) new'"
    using assms by (auto simp: recorded_def)
  then have "length (rids @ rids') = length (cids @ cids')" "sys_log w = sys_log y @ (new @ new')"
    "subseq (zip (rids @ rids') (map fact.Started (cids @ cids'))) (new @ new')"
    by (simp_all add: list_emb_append_mono)
  then show ?thesis unfolding recorded_def by blast
qed

lemma recorded_refl: "recorded y [] y"
  by (simp add: recorded_def)

lemma step_recorded: "step cr y z \<Longrightarrow> recorded y [] z"
  by (cases rule: step.cases) (auto simp: recorded_def)

lemma steps_recorded:
  "(step cr)\<^sup>*\<^sup>* y z \<Longrightarrow> reachable cr y \<Longrightarrow> reachable cr z \<and> recorded y [] z"
proof (induction rule: rtranclp_induct)
  case base
  then show ?case by (simp add: recorded_refl)
next
  case (step z w)
  then show ?case
    using reachable.Step [of cr z w] recorded_trans [of y "[]" z "[]" w] step_recorded [of cr z w] by simp
qed

lemma reachable_ack:
  assumes "ack_locked now logged fault r cid (sys_server y) = (resp, t)" and "reachable cr y"
  shows "reachable cr (y\<lparr>sys_server := t, sys_log := sys_log y @ promised r (fact.Started cid) resp (sys_server y)\<rparr>)"
  using reachable.Step [OF assms(2) step.Request [OF request.Ack [OF assms(1)]]] .

lemma ack_locked_code:
  assumes "ack_locked now logged fault r cid s = (resp, t)"
  shows "resp_code resp \<in> {200, 409, 500}" and "resp_code resp = 200 \<Longrightarrow> \<exists>rid. promised r (fact.Started cid) resp s = [(rid, fact.Started cid)]"
  using assms by (auto simp: ack_locked_def promised_def split: option.splits if_splits prod.splits)

definition accepted :: "http_reply \<Rightarrow> bool" where
  "accepted reply \<longleftrightarrow> (case reply of Failed m \<Rightarrow> False | Answer code st body \<Rightarrow> code div 100 = 2)"

lemma answered_recorded:
  assumes "answered cr base y q reply z" and "reachable cr y"
  shows "reachable cr z \<and> recorded y [] z"
    and "hr_URL q = base @ ''/v1/session/ack'' \<Longrightarrow> accepted reply \<Longrightarrow>
      \<exists>text cid. hr_Body q = Some text \<and> limitedJSON (read_body ack_setters [] text) = Some cid \<and> recorded y [cid] z"
proof -
  have "(reachable cr z \<and> recorded y [] z) \<and> (hr_URL q = base @ ''/v1/session/ack'' \<longrightarrow> accepted reply \<longrightarrow>
      (\<exists>text cid. hr_Body q = Some text \<and> limitedJSON (read_body ack_setters [] text) = Some cid \<and> recorded y [cid] z))"
    using assms(1)
  proof cases
    case (Acked b cid y' now logged fault r resp t)
    let ?y = "y'\<lparr>sys_server := t, sys_log := sys_log y' @ promised r (fact.Started cid) resp (sys_server y')\<rparr>"
    have start: "reachable cr y'" "recorded y [] y'" using steps_recorded [OF Acked(5) assms(2)] by simp_all
    have rest: "reachable cr z" "recorded ?y [] z"
      using steps_recorded [OF Acked(7) reachable_ack [OF Acked(6) start(1)]] by simp_all
    have "recorded y' [] ?y" by (simp add: recorded_def)
    then have "recorded y [] z" using recorded_trans [OF recorded_trans [OF start(2)] rest(2)] by simp
    moreover have "recorded y [cid] z" if "accepted reply"
    proof -
      have "resp_code resp = 200"
        using that ack_locked_code(1) [OF Acked(6)] unfolding Acked(1) by (auto simp: accepted_def answer_of_def)
      then obtain rid where "promised r (fact.Started cid) resp (sys_server y') = [(rid, fact.Started cid)]"
        using ack_locked_code(2) [OF Acked(6)] by blast
      then have "recorded y' [cid] ?y"
        unfolding recorded_def by (intro exI [of _ "[rid]"] exI [of _ "[(rid, fact.Started cid)]"]) simp
      then show ?thesis using recorded_trans [OF recorded_trans [OF start(2)] rest(2)] by simp
    qed
    ultimately show ?thesis using rest(1) Acked(3,4) by blast
  next
    case (Refused resp)
    then show ?thesis using steps_recorded [OF Refused(4) assms(2)] by (auto simp: accepted_def answer_of_def)
  qed (use steps_recorded assms(2) in \<open>auto simp: accepted_def\<close>)
  then show "reachable cr z \<and> recorded y [] z"
    and "hr_URL q = base @ ''/v1/session/ack'' \<Longrightarrow> accepted reply \<Longrightarrow>
      \<exists>text cid. hr_Body q = Some text \<and> limitedJSON (read_body ack_setters [] text) = Some cid \<and> recorded y [cid] z"
    by blast+
qed

section \<open>A session\<close>

text \<open>A network behind which the system runs: \<open>view\<close> is the system's state in the state of the network.\<close>

definition serves :: "crypto \<Rightarrow> string \<Rightarrow> ('s \<Rightarrow> system) \<Rightarrow> 's network \<Rightarrow> bool" where
  "serves cr base view net \<longleftrightarrow>
     (\<forall>q s. reachable cr (view s) \<longrightarrow> answered cr base (view s) q (fst (net q s)) (view (snd (net q s))))"

lemma serves_net:
  assumes "serves cr base view net" and "net q s = (reply, s')" and "reachable cr (view s)"
  shows "answered cr base (view s) q reply (view s')"
  using assms unfolding serves_def by (metis fst_conv snd_conv)

lemma call_net:
  assumes "call net meth url token payload dec out s = (r, s')"
  shows "\<exists>reply. net \<lparr>hr_Method = meth, hr_URL = url, hr_Authorization = (if token = [] then [] else ''Bearer '' @ token),
      hr_Body = payload\<rparr> s = (reply, s') \<and> (\<forall>v. r = Inr v \<longrightarrow> accepted reply)"
proof -
  let ?q = "\<lparr>hr_Method = meth, hr_URL = url, hr_Authorization = (if token = [] then [] else ''Bearer '' @ token), hr_Body = payload\<rparr>"
  obtain reply s1 where net: "net ?q s = (reply, s1)" by force
  have "s1 = s' \<and> (\<forall>v. r = Inr v \<longrightarrow> accepted reply)"
  proof (cases reply)
    case (Failed m)
    then show ?thesis using assms unfolding call_def net by auto
  next
    case (Answer code st body)
    then show ?thesis using assms unfolding call_def net
      by (cases "code = 204"; cases "code div 100 = 2"; cases "dec out body") (auto simp: accepted_def)
  qed
  then show ?thesis using net by blast
qed

lemma call_recorded:
  assumes "serves cr base view net" and "call net meth url token payload dec out s = (r, s')" and "reachable cr (view s)"
  shows "reachable cr (view s') \<and> recorded (view s) [] (view s')"
proof -
  obtain q reply where "net q s = (reply, s')" using call_net [OF assms(2)] by blast
  then show ?thesis using answered_recorded(1) [OF serves_net [OF assms(1) _ assms(3)] assms(3)] by blast
qed

lemma value_end_newline: "value_end [newline]"
  by (simp add: value_end_def json_space_def)

lemma read_ack_body:
  assumes "valid_utf8 cid" and "limitedJSON (read_body ack_setters [] (ack_body cid)) = Some cid'"
  shows "cid' = cid"
proof -
  let ?ms = "[(''commandId'', JString cid)]"
  have ok: "members_ok ?ms" "json_depth (JObject ?ms) \<le> 10000" using assms(1) by (auto simp: ascii_valid)
  have "decode_stream True ack_setters [] (ack_body cid) = Some cid"
    unfolding ack_body_def decode_stream_text [OF ok value_end_newline] using assms(1)
    by (simp add: ack_setters_def find_named_def text_field_json)
  then show ?thesis using assms(2) by (simp add: limitedJSON_def limited_read_body split: if_splits)
qed

lemma ack_recorded:
  assumes "serves cr base view net" and "reachable cr (view s)" and "valid_utf8 cid"
    and "call net ''POST'' (base @ ''/v1/session/ack'') token (Some (ack_body cid)) no_output () s = (Inr u, s')"
  shows "reachable cr (view s') \<and> recorded (view s) [cid] (view s')"
proof -
  obtain q reply where q: "hr_URL q = base @ ''/v1/session/ack''" "hr_Body q = Some (ack_body cid)"
    "net q s = (reply, s')" "accepted reply"
    using call_net [OF assms(4)] by (metis http_request.select_convs(2,4))
  note exchange = answered_recorded [OF serves_net [OF assms(1) q(3) assms(2)] assms(2)]
  obtain b cid' where "hr_Body q = Some b" "limitedJSON (read_body ack_setters [] b) = Some cid'"
    "recorded (view s) [cid'] (view s')"
    using exchange(2) [OF q(1,4)] by blast
  then show ?thesis using exchange(1) read_ack_body [OF assms(3)] q(2) by auto
qed

lemma poll_recorded:
  assumes "serves cr base view net"
  shows "pollResilient net base token expires maxb b nows s = (x, s') \<Longrightarrow> reachable cr (view s) \<Longrightarrow>
    reachable cr (view s') \<and> recorded (view s) [] (view s')"
proof (induction nows arbitrary: b x s s')
  case Nil
  then show ?case by (auto simp: recorded_refl)
next
  case (Cons now nows)
  obtain r s1 where poll: "poll_call net base token s = (r, s1)" by force
  have first: "reachable cr (view s1)" "recorded (view s) [] (view s1)"
    using call_recorded [OF assms poll [unfolded poll_call_def] Cons.prems(2)] by simp_all
  consider "s' = s" | "s' = s1" | y where "pollResilient net base token expires maxb (next_backoff maxb b) nows s1 = (y, s')"
    using Cons.prems(1) poll by (auto split: if_splits sum.splits option.splits prod.splits)
  then show ?case
  proof cases
    case 3
    then show ?thesis using Cons.IH [OF 3 first(1)] recorded_trans [OF first(2)] by fastforce
  qed (use first Cons.prems(2) recorded_refl in auto)
qed

text \<open>The id of a command that was polled is a text the broker reads as it is.\<close>

lemma poll_call_valid:
  assumes "poll_call net base token s = (Inr c, s')"
  shows "valid_utf8 (c_ID c)"
proof -
  have none: "valid_utf8 (c_ID no_command)" by (simp add: no_command_def ascii_valid)
  have "c = no_command \<or> (\<exists>body. decode_stream False command_setters no_command body = Some c)"
    using assms by (auto simp: poll_call_def call_def split: prod.splits http_reply.splits if_splits option.splits)
  then show ?thesis using none decoded_command_valid by blast
qed

lemma polled_valid:
  "pollResilient net base token expires maxb b nows s = ((pauses, Some (Polled c)), s') \<Longrightarrow> valid_utf8 (c_ID c)"
proof (induction nows arbitrary: b pauses s)
  case (Cons now nows)
  then show ?case
    using poll_call_valid by (auto split: if_splits sum.splits option.splits prod.splits)
qed simp

lemma turn_recorded:
  assumes "serves cr base view net" and "turn net base rep rd g = ((es, e), g')"
    and "reachable cr (view (gs_net g))"
  shows "reachable cr (view (gs_net g')) \<and> recorded (view (gs_net g)) (map c_ID (executed es)) (view (gs_net g'))"
proof -
  obtain pauses r s where poll: "pollResilient net base (r_SessionToken rep) (r_ExpiresAt rep) (10 * second) second
      (rd_polls rd) (gs_net g) = ((pauses, r), s)" by (metis prod.exhaust)
  note polled = poll_recorded [OF assms(1) poll assms(3)]
  show ?thesis
  proof (cases "\<exists>c. r = Some (Polled c) \<and> c_Name c \<noteq> []")
    case False
    then have "executed es = [] \<and> gs_net g' = s"
      using assms(2) poll by (cases r; cases "the r") (auto simp: turn_def)
    then show ?thesis using polled by simp
  next
    case True
    then obtain c where c: "r = Some (Polled c)" "c_Name c \<noteq> []" by blast
    obtain a s' where ack: "call net ''POST'' (base @ ''/v1/session/ack'') (r_SessionToken rep) (Some (ack_body (c_ID c)))
        no_output () s = (a, s')" by (metis surj_pair)
    have acked: "reachable cr (view s') \<and> recorded (view s) [] (view s')" using call_recorded [OF assms(1) ack] polled by blast
    show ?thesis
    proof (cases a)
      case (Inl x)
      then have "executed es = [] \<and> gs_net g' = s'" using assms(2) poll c ack by (auto simp: turn_def)
      then show ?thesis using polled acked recorded_trans [of _ "[]" "view s" "[]"] by simp
    next
      case (Inr u)
      obtain es1 g1 where run: "run_command net base (r_SessionToken rep) rd c (g\<lparr>gs_net := s'\<rparr>) = (es1, g1)"
        by (metis surj_pair)
      then have es: "es = Received c # Acknowledged (c_ID c) # es1" "g' = g1"
        using assms(2) poll c ack Inr by (auto simp: turn_def)
      have exec: "executed es = [c]" using es(1) run_command_events(1) [OF run] by simp
      have start: "recorded (view s) [c_ID c] (view s')"
        using ack_recorded [OF assms(1) conjunct1 [OF polled] polled_valid [OF poll [unfolded c(1)]] ack [unfolded Inr]] by simp
      obtain x s2 where result: "call net ''POST'' (base @ ''/v1/session/result'') (r_SessionToken rep) (Some x) no_output () s'
          = (s2, gs_net g1)"
        using run by (auto simp: run_command_def Let_def split: prod.splits)
      have "reachable cr (view (gs_net g')) \<and> recorded (view s') [] (view (gs_net g'))"
        using call_recorded [OF assms(1) result] acked es(2) by simp
      then show ?thesis
        using polled start recorded_trans [of _ "[]" "view s" "[c_ID c]" "view s'"]
          recorded_trans [of "view (gs_net g)" "[c_ID c]" "view s'" "[]" "view (gs_net g')"] unfolding exec by simp
    qed
  qed
qed

lemma session_recorded:
  assumes "serves cr base view net"
  shows "session_loop net base rep rds g = ((es, e), g') \<Longrightarrow> reachable cr (view (gs_net g)) \<Longrightarrow>
    reachable cr (view (gs_net g')) \<and> recorded (view (gs_net g)) (map c_ID (executed es)) (view (gs_net g'))"
proof (induction rds arbitrary: g es e g')
  case Nil
  then show ?case by (simp add: recorded_refl)
next
  case (Cons rd rds)
  obtain es1 r g1 where turn: "turn net base rep rd g = ((es1, r), g1)" by (metis prod.exhaust)
  obtain es2 e2 g2 where rest: "session_loop net base rep rds g1 = ((es2, e2), g2)" by (metis prod.exhaust)
  consider (stop) "es = es1" "g' = g1" | (go) "es = es1 @ es2" "g' = g2"
    using Cons.prems(1) turn rest by (auto split: option.splits)
  then show ?case
  proof cases
    case stop
    then show ?thesis using turn_recorded [OF assms turn Cons.prems(2)] by simp
  next
    case go
    then show ?thesis
      using turn_recorded [OF assms turn Cons.prems(2)] Cons.IH [OF rest] recorded_trans go by fastforce
  qed
qed

lemma subseq_set: "subseq xs ys \<Longrightarrow> set xs \<subseteq> set ys"
  by (induction rule: list_emb.induct) auto

lemma subseq_unique: "subseq xs ys \<Longrightarrow> distinct ys \<Longrightarrow> distinct xs"
  by (induction rule: list_emb.induct) (use subseq_set in auto)

text \<open>What was recorded in between is new, and each of it once.\<close>

lemma recorded_once:
  assumes "recorded y cids z" and "log_once (sys_log z)"
  shows "\<exists>rids. length rids = length cids \<and> distinct (zip rids (map fact.Started cids))
    \<and> set (zip rids (map fact.Started cids)) \<subseteq> set (sys_log z) - set (sys_log y)"
proof -
  obtain rids new where new: "length rids = length cids" "sys_log z = sys_log y @ new"
    "subseq (zip rids (map fact.Started cids)) new" using assms(1) by (auto simp: recorded_def)
  let ?zs = "zip rids (map fact.Started cids)" and ?f = "filter (\<lambda>p. snd p \<noteq> Revoked)"
  have "\<forall>p\<in>set ?zs. snd p \<noteq> Revoked" using set_zip_rightD by fastforce
  then have "?f ?zs = ?zs" by (simp add: filter_id_conv)
  then have sub: "subseq ?zs (?f new)" using subseq_filter [OF new(3), of "\<lambda>p. snd p \<noteq> Revoked"] by simp
  have dist: "distinct (?f (sys_log y) @ ?f new)" using assms(2) new(2) by (simp add: log_once_def)
  then have "distinct ?zs" using subseq_unique [OF sub] by simp
  moreover have "set ?zs \<subseteq> set (sys_log z) - set (sys_log y)"
    using subseq_set [OF sub] dist new(2) by auto
  ultimately show ?thesis using new(1) by blast
qed

text \<open>C2 At most once from end to end: a guest talks to the broker over a network that may lose any
  request or answer, while other programs use the broker, sessions time out and the broker
  crashes and restarts.  Every command the guest executes in the session has its own start in the
  broker's record, under the id of a session, none of which was there before the session: no
  command of a session runs twice, neither now nor after an earlier run.\<close>

theorem guest_runs_each_command_once:
  assumes "serves cr base view net" and "reachable cr (view (gs_net g))"
    and "session_loop net base rep rds g = ((es, e), g')"
  shows "reachable cr (view (gs_net g'))
    \<and> (\<exists>rids. length rids = length (executed es)
         \<and> distinct (zip rids (map (\<lambda>c. fact.Started (c_ID c)) (executed es)))
         \<and> set (zip rids (map (\<lambda>c. fact.Started (c_ID c)) (executed es)))
             \<subseteq> set (sys_log (view (gs_net g'))) - set (sys_log (view (gs_net g))))"
proof -
  note rec = session_recorded [OF assms(1,3,2)]
  then have "log_once (sys_log (view (gs_net g')))" using reachable_system_ok [OF conjunct1 [OF rec]] by (simp add: system_ok_def)
  from recorded_once [OF conjunct2 [OF rec] this] rec show ?thesis by (simp add: comp_def)
qed

text \<open>The network of the example: the broker has delivered its first command and waits for the acknowledgement.\<close>

definition first_command :: command where
  "first_command = \<lparr>c_ID = ''initial-system-info'', c_Name = ''system.info'', c_Deadline = hour, c_Params = []\<rparr>"

definition once_view :: "bool \<Rightarrow> system" where
  "once_view done1 = (if done1 then acked_system else paired_system\<lparr>sys_server := polled_server\<rparr>)"

definition once_net :: "bool network" where
  "once_net q b =
     (if hr_URL q = ''/v1/session/ack'' then
        (if \<not> b \<and> hr_Body q = Some (ack_body ''initial-system-info'')
         then (answer_of (Some (fst (ack_locked hour hour None 0 ''initial-system-info'' polled_server))), True)
         else (Failed ''lost'', b))
      else (Answer 200 ''200 OK'' (command_text first_command @ [newline]), b))"

lemma ascii_first: "valid_utf8 ''initial-system-info''" by (rule ascii_valid) simp

lemma read_ack_first:
  "limitedJSON (read_body ack_setters [] (ack_body ''initial-system-info'')) = Some ''initial-system-info''"
proof -
  let ?ms = "[(''commandId'', JString ''initial-system-info'')]"
  have ok: "members_ok ?ms" "json_depth (JObject ?ms) \<le> 10000" by (simp_all add: ascii_valid)
  have "decode_stream True ack_setters [] (ack_body ''initial-system-info'') = Some ''initial-system-info''"
    unfolding ack_body_def decode_stream_text [OF ok value_end_newline]
    by (simp add: ack_setters_def find_named_def text_field_json ascii_first)
  moreover have "list_all plain_char ''commandId''" "list_all plain_char ''initial-system-info''"
    by (simp_all add: plain_char_def html_char_def)
  then have "length (ack_body ''initial-system-info'') \<le> 64 * 1024"
    by (simp add: ack_body_def json_string_plain)
  ultimately show ?thesis by (simp add: limitedJSON_def limited_read_body)
qed

lemma once_serves: "serves lax_crypto [] once_view once_net"
proof -
  have "answered lax_crypto [] (once_view b) q (fst (once_net q b)) (once_view (snd (once_net q b)))" for q b
  proof (cases "hr_URL q = ''/v1/session/ack''")
    case False
    then show ?thesis by (intro Other) (simp_all add: once_net_def)
  next
    case True
    show ?thesis
    proof (cases "\<not> b \<and> hr_Body q = Some (ack_body ''initial-system-info'')")
      case False
      then show ?thesis using Lost [OF rtranclp.rtrancl_refl] True by (auto simp: once_net_def)
    next
      case once: True
      let ?y = "paired_system\<lparr>sys_server := polled_server\<rparr>"
      let ?ack = "ack_locked hour hour None 0 ''initial-system-info'' polled_server"
      have "promised 0 (fact.Started ''initial-system-info'') (fst ?ack) polled_server
          = [(new_id lax_crypto sample_pair_env, fact.Started ''initial-system-info'')]"
        using polled_heap by (auto simp: promised_def ack_accepted)
      then have end_state: "?y\<lparr>sys_server := snd ?ack, sys_log := sys_log ?y
            @ promised 0 (fact.Started ''initial-system-info'') (fst ?ack) (sys_server ?y)\<rparr> = acked_system"
        by (simp add: acked_system_def acked_server_def paired_system_def fresh_system_def)
      have lock: "ack_locked hour hour None 0 ''initial-system-info'' (sys_server ?y) = (fst ?ack, snd ?ack)" by simp
      have "answered lax_crypto [] ?y q (answer_of (Some (fst ?ack))) acked_system"
        using Acked [of q "[]" "ack_body ''initial-system-info''", OF _ _ read_ack_first rtranclp.rtrancl_refl lock]
          True once end_state by simp
      then show ?thesis using True once by (simp add: once_net_def once_view_def)
    qed
  qed
  then show ?thesis by (simp add: serves_def)
qed

lemma once_session:
  "\<exists>es e g. session_loop once_net [] sample_reply [sample_round h] \<lparr>gs_tree = t, gs_world = w, gs_net = False\<rparr> = ((es, e), g)
     \<and> executed es = [first_command] \<and> gs_net g = True"
proof -
  have "plain_command first_command" by (simp add: plain_command_def first_command_def ascii_valid year_ok_def)
  then have poll_call: "poll_call once_net [] tok b = (Inr first_command, b)" for tok b
    by (simp add: poll_call_def call_def once_net_def decode_command_text)
  have poll: "pollResilient once_net [] (r_SessionToken sample_reply) (r_ExpiresAt sample_reply) 10000000000 second
      (rd_polls (sample_round h)) False = (([], Some (Polled first_command)), False)"
    by (simp add: sample_round_def sample_reply_def poll_call IsZero_def)
  obtain body where "answer_of (Some (fst (ack_locked hour hour None 0 ''initial-system-info'' polled_server)))
      = Answer 200 (status_line 200) body"
    using ack_accepted by (simp add: answer_of_def)
  then have ack: "call once_net meth ''/v1/session/ack'' tok (Some (ack_body ''initial-system-info'')) no_output () False
      = (Inr (), True)" for meth tok
    by (simp add: call_def once_net_def no_output_def)
  have result: "snd (call once_net meth ''/v1/session/result'' tok body no_output () True) = True" for meth tok body
    by (simp add: call_def once_net_def no_output_def)
  have name: "c_Name first_command = ''system.info''" "c_ID first_command = ''initial-system-info''"
    by (simp_all add: first_command_def)
  obtain es g where turn: "turn once_net [] sample_reply (sample_round h) \<lparr>gs_tree = t, gs_world = w, gs_net = False\<rparr>
      = ((Received first_command # Acknowledged ''initial-system-info'' # es, Some None), g)"
    "run_command once_net [] (r_SessionToken sample_reply) (sample_round h) first_command
      \<lparr>gs_tree = t, gs_world = w, gs_net = True\<rparr> = (es, g)"
    by (cases "run_command once_net [] (r_SessionToken sample_reply) (sample_round h) first_command
      \<lparr>gs_tree = t, gs_world = w, gs_net = True\<rparr>") (simp add: turn_def poll ack name)
  have "executed es = [first_command]" using run_command_events(1) [OF turn(2)] by simp
  moreover have "gs_net g = True"
    using turn(2) result by (auto simp: run_command_def Let_def case_prod_unfold)
  ultimately show ?thesis using turn(1) by simp
qed

theorem guest_runs_each_command_once_witness:
  "\<forall>h t w. case session_loop once_net [] sample_reply [sample_round h] \<lparr>gs_tree = t, gs_world = w, gs_net = False\<rparr> of
     ((es, e), g) \<Rightarrow> map c_ID (executed es) = [''initial-system-info'']
       \<and> (\<exists>rid. (rid, fact.Started ''initial-system-info'') \<in> set (sys_log (once_view (gs_net g))))"
proof (intro allI)
  fix h t w
  let ?g = "\<lparr>gs_tree = t, gs_world = w, gs_net = False\<rparr>"
  obtain es e g where run: "session_loop once_net [] sample_reply [sample_round h] ?g = ((es, e), g)"
    and es: "executed es = [first_command]" using once_session by blast
  have start: "reachable lax_crypto (once_view (gs_net ?g))" using polled_reachable by (simp add: once_view_def)
  from guest_runs_each_command_once [OF once_serves start run]
  obtain rids where "length rids = 1" "set (zip rids [fact.Started ''initial-system-info'']) \<subseteq> set (sys_log (once_view (gs_net g)))"
    by (auto simp: es first_command_def)
  then have "\<exists>rid. (rid, fact.Started ''initial-system-info'') \<in> set (sys_log (once_view (gs_net g)))"
    by (cases rids) auto
  then show "case session_loop once_net [] sample_reply [sample_round h] ?g of
     ((es, e), g) \<Rightarrow> map c_ID (executed es) = [''initial-system-info'']
       \<and> (\<exists>rid. (rid, fact.Started ''initial-system-info'') \<in> set (sys_log (once_view (gs_net g))))"
    unfolding run by (simp add: es first_command_def)
qed

section \<open>The model of the broker is such a network\<close>

text \<open>
  Requests that are handled one after the other, as \<open>broker_network\<close> does it, are steps of the system.
  New ids must be new, and the orders in which a poll visits the commands must be orders of them.
\<close>

definition orders_ok :: "crypto \<Rightarrow> http_env \<Rightarrow> string \<Rightarrow> route \<Rightarrow> server \<Rightarrow> bool" where
  "orders_ok cr e auth a s \<longleftrightarrow>
     (\<forall>r x. a = Session_poll \<and> session cr (he_now e) (he_ids e) auth s = Some r \<and> sv_heap s r = Some x \<longrightarrow>
        list_all (\<lambda>p. range_order (pr_order p) (p_Commands x)) (he_rounds e))"

lemma dom_same: "m k = Some v \<Longrightarrow> dom (\<lambda>a. if a = k then Some w else m a) = dom m"
  by (auto split: if_splits)

lemma release_expired_dom: "dom (p_Commands (release_expired now ks x)) = dom (p_Commands x)"
  by (induction now ks x rule: release_expired.induct) (simp_all add: dom_same split: option.splits)

lemma poll_iter_dom:
  assumes "poll_iter deadline p r s = (out, t)" and "sv_heap s r = Some x"
  shows "\<exists>x'. sv_heap t r = Some x' \<and> dom (p_Commands x') = dom (p_Commands x)"
proof -
  let ?x = "release_expired (pr_now p) (pr_order p) x"
  have d: "dom (p_Commands ?x) = dom (p_Commands x)" by (rule release_expired_dom)
  have l: "dom (p_Commands (lease_entry now st ?x)) = dom (p_Commands x)"
    if "p_Queue ?x = i # q" "p_Commands ?x i = Some st'" for i q st st' now
  proof -
    have "i \<in> dom (p_Commands ?x)" by (rule domI) (rule that(2))
    then show ?thesis using that(1) d by (simp add: lease_entry_def insert_absorb)
  qed
  have saved: "sv_heap u = sv_heap v" if "save_state f v = (m, u)" for f m u v
    using save_state_frame(2) [of f v] that by simp
  show ?thesis
    using assms d l by (auto simp: poll_iter_def Let_def saved split: list.splits option.splits if_splits prod.splits)
qed

lemma request_steps: "request cr (sys_server y) fs t \<Longrightarrow> \<exists>z. (step cr)\<^sup>*\<^sup>* y z \<and> sys_server z = t"
  by (rule exI [of _ "y\<lparr>sys_server := t, sys_log := sys_log y @ fs\<rparr>"]) (auto intro: step.Request)

lemma no_steps: "\<exists>z. (step cr)\<^sup>*\<^sup>* y z \<and> sys_server z = sys_server y"
  by blast

lemma poll_loop_steps:
  "poll_loop deadline ps r (sys_server y) = (resp, t) \<Longrightarrow>
   (\<And>x. sv_heap (sys_server y) r = Some x \<Longrightarrow> list_all (\<lambda>p. range_order (pr_order p) (p_Commands x)) ps) \<Longrightarrow>
   \<exists>z. (step cr)\<^sup>*\<^sup>* y z \<and> sys_server z = t"
proof (induction ps arbitrary: y)
  case Nil
  then show ?case by auto
next
  case (Cons p ps)
  obtain out s1 where iter: "poll_iter deadline p r (sys_server y) = (out, s1)" by force
  have "request cr (sys_server y) [] s1"
    by (rule request.Poll [OF iter]) (use Cons.prems(2) in simp)
  then obtain z where z: "(step cr)\<^sup>*\<^sup>* y z" "sys_server z = s1" using request_steps by blast
  have rest: "\<exists>w. (step cr)\<^sup>*\<^sup>* y w \<and> sys_server w = t" if go: "poll_loop deadline ps r s1 = (resp, t)"
  proof -
    have "list_all (\<lambda>p. range_order (pr_order p) (p_Commands x1)) ps" if x1: "sv_heap s1 r = Some x1" for x1
    proof (cases "sv_heap (sys_server y) r")
      case None
      then show ?thesis using iter x1 by (simp add: poll_iter_def)
    next
      case (Some x)
      then have "dom (p_Commands x1) = dom (p_Commands x)" using poll_iter_dom [OF iter Some] x1 by auto
      then show ?thesis using Cons.prems(2) [OF Some] by (simp add: range_order_def)
    qed
    then obtain w where "(step cr)\<^sup>*\<^sup>* z w" "sys_server w = t" using Cons.IH [of z] go unfolding z(2) by blast
    then show ?thesis using z(1) rtranclp_trans by metis
  qed
  show ?case
    using Cons.prems(1) iter z rest by (cases out) (auto split: if_splits)
qed

lemma apfst_Some: "apfst Some p = (r, t) \<Longrightarrow> \<exists>resp. r = Some resp \<and> p = (resp, t)"
  by (cases p) auto

lemma session_steps:
  "ack cr env auth b1 (sys_server y) = (resp, t) \<Longrightarrow> \<exists>z. (step cr)\<^sup>*\<^sup>* y z \<and> sys_server z = t"
  "result_handler cr env auth b2 (sys_server y) = (resp, t) \<Longrightarrow> \<exists>z. (step cr)\<^sup>*\<^sup>* y z \<and> sys_server z = t"
  "revoke cr env auth (sys_server y) = (resp, t) \<Longrightarrow> \<exists>z. (step cr)\<^sup>*\<^sup>* y z \<and> sys_server z = t"
  using no_steps [of cr y] request_steps [OF request.Ack] request_steps [OF request.Result] request_steps [OF request.Revoke]
  by (auto simp: ack_def result_handler_def revoke_def split: option.splits if_splits)

lemma admin_steps:
  "enqueue cr eenv auth b1 (sys_server y) = (resp, t) \<Longrightarrow> \<exists>z. (step cr)\<^sup>*\<^sup>* y z \<and> sys_server z = t"
  "adminRevoke now fault auth b2 (sys_server y) = (resp, t) \<Longrightarrow> \<exists>z. (step cr)\<^sup>*\<^sup>* y z \<and> sys_server z = t"
proof -
  show "enqueue cr eenv auth b1 (sys_server y) = (resp, t) \<Longrightarrow> \<exists>z. (step cr)\<^sup>*\<^sup>* y z \<and> sys_server z = t"
    using no_steps [of cr y] request_steps [OF request.Enqueue] by (auto simp: enqueue_def split: sum.splits)
  assume run: "adminRevoke now fault auth b2 (sys_server y) = (resp, t)"
  show "\<exists>z. (step cr)\<^sup>*\<^sup>* y z \<and> sys_server z = t"
  proof (cases "\<exists>rid r x. limitedJSON b2 = Some rid \<and> find_ref (sys_server y) rid = Some (r, x)")
    case True
    then show ?thesis using request_steps [OF request.AdminRevoke [OF run]] by blast
  next
    case False
    then have "t = sys_server y" using run by (auto simp: adminRevoke_def split: if_splits option.splits)
    then show ?thesis using no_steps by blast
  qed
qed

lemma serve_steps:
  assumes "serve cr e meth auth a (sys_server y) = (r, t)" and "new_id cr (he_pair e) \<notin> sys_ids y"
    and "orders_ok cr e auth a (sys_server y)"
  shows "\<exists>z. (step cr)\<^sup>*\<^sup>* y z \<and> sys_server z = t"
proof (cases a)
  case (Pair_request b)
  from apfst_Some [OF assms(1) [unfolded Pair_request serve.simps]]
  obtain resp where "pair cr (he_pair e) meth (he_remote e) b (sys_server y) = (resp, t)" by blast
  from step.Pair [OF this assms(2)] show ?thesis by (intro exI conjI) (rule r_into_rtranclp, assumption, simp)
next
  case (Pair_status rid)
  from apfst_Some [OF assms(1) [unfolded Pair_status serve.simps]] show ?thesis using request_steps [OF request.Status] by blast
next
  case (Admin_approve b)
  from apfst_Some [OF assms(1) [unfolded Admin_approve serve.simps]] show ?thesis using request_steps [OF request.Approve] by blast
next
  case (Admin_reject b)
  from apfst_Some [OF assms(1) [unfolded Admin_reject serve.simps]] show ?thesis using request_steps [OF request.Reject] by blast
next
  case (Admin_command b)
  from apfst_Some [OF assms(1) [unfolded Admin_command serve.simps]] show ?thesis using admin_steps(1) by blast
next
  case (Admin_revoke b)
  from apfst_Some [OF assms(1) [unfolded Admin_revoke serve.simps]] show ?thesis using admin_steps(2) by blast
next
  case (Admin_results rid consume view bytes)
  from apfst_Some [OF assms(1) [unfolded Admin_results serve.simps]] show ?thesis using request_steps [OF request.Results] by blast
next
  case Session_poll
  show ?thesis
  proof (cases "session cr (he_now e) (he_ids e) auth (sys_server y)")
    case None
    then show ?thesis using assms(1) Session_poll no_steps [of cr y] by (simp add: poll_def)
  next
    case (Some i)
    then have "poll_loop (he_start e + 25 * second) (he_rounds e) i (sys_server y) = (r, t)"
      using assms(1) Session_poll by (simp add: poll_def)
    then show ?thesis
      by (rule poll_loop_steps) (use assms(3) Session_poll Some in \<open>auto simp: orders_ok_def\<close>)
  qed
next
  case (Session_ack b)
  from apfst_Some [OF assms(1) [unfolded Session_ack serve.simps]] show ?thesis using session_steps(1) by blast
next
  case (Session_result b)
  from apfst_Some [OF assms(1) [unfolded Session_result serve.simps]] show ?thesis using session_steps(2) by blast
next
  case Session_revoke
  from apfst_Some [OF assms(1) [unfolded Session_revoke serve.simps]] show ?thesis using session_steps(3) by blast
qed (use assms(1) no_steps in auto)

text \<open>Hence every exchange with the broker is one that \<open>answered\<close> allows.\<close>

lemma ack_route: "route_of ''/v1/session/ack'' body = Session_ack (read_body ack_setters [] body)"
  by (simp add: route_of_def split_target_def Cut_def)

lemma broker_network_answered:
  assumes "broker_network cr base q (env, sys_server y) = (reply, (env', t))"
    and "new_id cr (he_pair (env 0)) \<notin> sys_ids y"
    and "\<And>a. orders_ok cr (env 0) (hr_Authorization q) a (sys_server y)"
  shows "\<exists>z. answered cr base y q reply z \<and> sys_server z = t"
proof (cases "HasPrefix (hr_URL q) base")
  case False
  then have "reply = Failed ''unknown host''" "t = sys_server y" using assms(1) by (auto simp: broker_network_def)
  then show ?thesis using Lost [OF rtranclp.rtrancl_refl] by blast
next
  case True
  let ?body = "case hr_Body q of Some b \<Rightarrow> b | None \<Rightarrow> []"
  let ?route = "route_of (drop (length base) (hr_URL q)) ?body"
  obtain r where serve: "serve cr (env 0) (hr_Method q) (hr_Authorization q) ?route (sys_server y) = (r, t)"
    and reply: "reply = answer_of r"
    using assms(1) True by (auto simp: broker_network_def split: prod.splits)
  show ?thesis
  proof (cases "hr_URL q = base @ ''/v1/session/ack''")
    case False
    then show ?thesis using serve_steps [OF serve assms(2,3)] Other by blast
  next
    case ack: True
    then have serve': "serve cr (env 0) (hr_Method q) (hr_Authorization q) (Session_ack (read_body ack_setters [] ?body))
        (sys_server y) = (r, t)" using serve by (simp add: ack_route)
    show ?thesis
    proof (cases "hr_Body q")
      case (Some b)
      then have "serve cr (env 0) (hr_Method q) (hr_Authorization q) (Session_ack (read_body ack_setters [] b)) (sys_server y)
          = (r, t)" using serve' by simp
      from serve_ack_answered [OF this ack Some] obtain fs
        where "answered cr base y q (answer_of r) (y\<lparr>sys_server := t, sys_log := sys_log y @ fs\<rparr>)" by blast
      then show ?thesis unfolding reply by (intro exI conjI) (assumption, simp)
    next
      case None
      have "decode_stream True ack_setters [] [] = None" by code_simp
      then have "limitedJSON (read_body ack_setters [] []) = None" by (simp add: limitedJSON_def limited_read_body)
      then obtain resp where "r = Some resp" "resp_code resp \<in> {400, 401}" "t = sys_server y"
        using serve' None by (auto simp: ack_def split: option.splits)
      then show ?thesis unfolding reply using Refused [OF ack _ rtranclp.rtrancl_refl] by blast
    qed
  qed
qed

end
