(* ===== verification/Guest_Pairing.thy ===== *)
theory Guest_Pairing imports Broker_Http Guest_Client begin

text \<open>
  Pairing from end to end: the request that \<^verbatim>\<open>cmd/bridge-client/main.go\<close> builds, signs and sends
  passes every check of \<^verbatim>\<open>pair\<close> in \<^verbatim>\<open>cmd/pairing-broker/main.go\<close>.  The lemmas bound the size of
  the JSON text of a request with valid labels.
\<close>

section \<open>Sizes\<close>

lemma json_byte_length: "length (json_byte c) \<le> 6"
  by (simp add: json_byte_def hex_escape_def hex_byte_def)

lemma json_piece_length: "snd p \<noteq> [] \<Longrightarrow> length (json_piece p) \<le> 6 * length (snd p)"
proof -
  assume "snd p \<noteq> []"
  then have "1 \<le> length (snd p)" by (simp add: Suc_le_eq)
  then show ?thesis using json_byte_length [of "hd (snd p)"] by (simp add: json_piece_def)
qed

lemma runes_piece_length: "p \<in> set (runes s) \<Longrightarrow> snd p \<noteq> [] \<and> length (snd p) \<le> 4"
proof (induction s rule: runes.induct)
  case (1 s)
  show ?case
  proof (cases "s = []")
    case False
    have "snd (decode_rune s) \<le> 4"
      using decode_width_le4 [of s] decode_rune_width [OF False] by simp
    then show ?thesis
      using 1 False decode_rune_width_pos [OF False] by (subst (asm) (2) runes.simps) (auto simp: Let_def)
  qed (use 1 in simp)
qed

lemma json_string_length: "length (json_string s) \<le> 6 * length s + 2"
proof -
  have "length (concat (map json_piece ps)) \<le> 6 * length (concat (map snd ps))" if "\<forall>p\<in>set ps. snd p \<noteq> []" for ps
    using that
  proof (induction ps)
    case (Cons p ps)
    then show ?case using json_piece_length [of p] by simp
  qed simp
  from this [of "runes s"] show ?thesis using runes_piece_length by (simp add: json_string_def runes_bytes)
qed

lemma label_length:
  assumes "validGuestLabel v n"
  shows "length v \<le> 4 * n"
proof -
  have "length (concat (map snd ps)) \<le> 4 * length ps" if "\<forall>p\<in>set ps. length (snd p) \<le> 4" for ps :: "(rune \<times> string) list"
    using that by (induction ps) auto
  from this [of "runes v"] have "length v \<le> 4 * length (runes v)" using runes_piece_length by (simp add: runes_bytes)
  moreover have "length (runes v) \<le> n"
  proof -
    have labels: "length (repaired False (runes v)) \<le> n" "list_all (\<lambda>p. label_rune (fst p)) (runes v)"
      using assms by (auto simp: validGuestLabel_def label_loop_iff runes_ToValid repaired_labels split: if_splits)
    then show ?thesis using label_runes_valid repaired_valid by (simp add: valid_utf8_def)
  qed
  ultimately show ?thesis by linarith
qed

lemma label_valid: "validGuestLabel v n \<Longrightarrow> valid_utf8 v"
  by (auto simp: validGuestLabel_def label_loop_iff runes_ToValid repaired_labels intro: label_runes_valid split: if_splits)

lemma json_items_length: "length (json_items xs) \<le> sum_list (map (\<lambda>v. Suc (length (json_text v))) xs)"
proof (induction xs)
  case (Cons x xs)
  then show ?case by (cases xs) simp_all
qed simp

section \<open>Encoded texts\<close>

lemma ascii_nth: "ascii s \<Longrightarrow> n < length s \<Longrightarrow> (of_char (s ! n) :: nat) < 0x80"
  by (simp add: ascii_def list_all_length)

lemma ascii_url: "ascii (RawURLEncode s)"
proof -
  have digits: "ascii url_alphabet" "length url_alphabet = 64" by (simp_all add: url_alphabet_def)
  show ?thesis
    using ascii_nth [OF digits(1)] base64_digits_small
    by (simp add: RawURLEncode_def base64_encode_def ascii_def list_all_iff digits(2))
qed

lemma url_length: "length (RawURLEncode s) = (4 * length s + 2) div 3"
  by (simp add: RawURLEncode_def base64_encode_def length_base64_digits)

lemma ascii_take: "ascii s \<Longrightarrow> ascii (take n s)"
  by (auto simp: ascii_def list_all_iff dest: in_set_takeD)

section \<open>The request of a guest\<close>

lemma profile_systems:
  "client_capabilities goos p = client_capabilities (if goos = ''windows'' then ''windows'' else ''linux'') p"
  by (simp add: client_capabilities_def)

definition sendable :: "string list \<Rightarrow> bool" where
  "sendable caps \<longleftrightarrow> validCapabilities caps \<and> length caps \<le> 21 \<and> list_all (\<lambda>c. length c \<le> 20) caps"

lemma profile_capabilities:
  assumes "client_capabilities goos p = Some caps"
  shows "sendable caps" and "list_all ascii caps"
proof -
  have all: "list_all (\<lambda>os. list_all (\<lambda>p. sendable (the (client_capabilities os p))) [''information'', ''developer'', ''custom''])
      [''linux'', ''windows'']" by code_simp
  have "p \<in> {''information'', ''developer'', ''custom''}"
    using assms by (auto simp: client_capabilities_def split: if_splits)
  then have "sendable (the (client_capabilities (if goos = ''windows'' then ''windows'' else ''linux'') p))"
    using all by auto
  then show "sendable caps" using assms profile_systems [of goos p] by simp
  show "list_all ascii caps" using assms by (auto simp: client_capabilities_def split: if_splits)
qed

text \<open>What a guest says of itself, as the broker will accept it.\<close>

definition good_labels :: "guest \<Rightarrow> string \<Rightarrow> client_flags \<Rightarrow> bool" where
  "good_labels g user f \<longleftrightarrow>
     validGuestLabel (cl_usb f) 128 \<and> validGuestLabel (g_hostname g) 255 \<and> validGuestLabel user 256
     \<and> validGuestLabel (g_goos g) 32 \<and> validGuestLabel (g_arch g) 32"

text \<open>Keys, nonces and signatures of the sizes that the client uses.\<close>

definition good_identity :: "crypto \<Rightarrow> identity \<Rightarrow> bool" where
  "good_identity cr who \<longleftrightarrow>
     scheme_ok cr (id_private who) (id_public who) \<and> length (id_nonce who) = 24
     \<and> (\<forall>msg. length (ed25519_sign cr (id_private who) msg) = 64)"

lemma request_length:
  "length (pair_request_text q) \<le> 600 + length (Itoa (q_Protocol q)) + length (Itoa (q_DurationSeconds q))
     + length (json_items (map JString (q_Requested q)))
     + 6 * (length (q_USBID q) + length (q_Hostname q) + length (q_OS q) + length (q_Arch q) + length (q_User q)
            + length (q_PublicKey q) + length (q_Nonce q) + length (q_Signature q))"
  using json_string_length [of "''protocol''"]
    json_string_length [of "''USBID''"]
    json_string_length [of "''Hostname''"]
    json_string_length [of "''OS''"]
    json_string_length [of "''Arch''"]
    json_string_length [of "''User''"]
    json_string_length [of "''PublicKey''"]
    json_string_length [of "''Nonce''"]
    json_string_length [of "''Signature''"]
    json_string_length [of "''requested''"]
    json_string_length [of "''durationSeconds''"]
    json_string_length [of "q_USBID q"]
    json_string_length [of "q_Hostname q"]
    json_string_length [of "q_OS q"]
    json_string_length [of "q_Arch q"]
    json_string_length [of "q_User q"]
    json_string_length [of "q_PublicKey q"]
    json_string_length [of "q_Nonce q"]
    json_string_length [of "q_Signature q"]
  by (simp add: pair_request_text_def pair_request_members_def)

lemma built_request:
  assumes "good_labels g user f" and "good_identity cr who" and "client_capabilities (g_goos g) (cl_profile f) = Some caps"
    and "q = build_request cr g who user f caps"
  shows "q_Protocol q = Version" and "validPairRequest q"
    and "Verify cr (q_PublicKey q) (q_Signature q) (CanonicalPairRequest q)" and "plain_request q"
    and "length (pair_request_text q) \<le> 64 * 1024"
proof -
  let ?raw = "\<lparr>q_Protocol = Version, q_USBID = cl_usb f, q_Hostname = g_hostname g, q_OS = g_goos g, q_Arch = g_arch g,
      q_User = user, q_PublicKey = RawURLEncode (id_public who), q_Nonce = RawURLEncode (id_nonce who),
      q_Signature = [], q_Requested = caps, q_DurationSeconds = 1800\<rparr>"
  have q: "q = ?raw\<lparr>q_Signature := Sign cr (id_private who) (CanonicalPairRequest ?raw)\<rparr>"
    by (simp add: assms(4) build_request_def)
  have canon: "CanonicalPairRequest q = CanonicalPairRequest ?raw" by (simp add: q CanonicalPairRequest_def canonical_lines_def)
  have sizes: "length (q_PublicKey q) = 43" "length (q_Nonce q) = 32" "length (q_Signature q) = 86"
    using assms(2) by (simp_all add: q good_identity_def scheme_ok_def url_length Sign_def)
  have caps: "sendable caps" "list_all ascii caps" using profile_capabilities [OF assms(3)] by simp_all
  show "q_Protocol q = Version" by (simp add: q)
  show "validPairRequest q"
    using assms(1) sizes caps(1) by (simp add: validPairRequest_def q good_labels_def sendable_def)
  show "Verify cr (q_PublicKey q) (q_Signature q) (CanonicalPairRequest q)"
    using assms(2) Verify_Sign unfolding canon by (simp add: q good_identity_def)
  have "list_all valid_utf8 caps" using caps(2) by (simp add: list_all_iff ascii_valid)
  then show "plain_request q"
    using assms(1) label_valid
    by (auto simp: plain_request_def q good_labels_def Sign_def ascii_valid ascii_url Version_def in_int64_def)
  have labels: "length (q_USBID q) \<le> 512" "length (q_Hostname q) \<le> 1020" "length (q_User q) \<le> 1024"
      "length (q_OS q) \<le> 128" "length (q_Arch q) \<le> 128"
    using assms(1) label_length [of _ 128] label_length [of _ 255] label_length [of _ 256] label_length [of _ 32]
    by (fastforce simp: q good_labels_def)+
  have "length (json_items (map JString caps)) \<le> 21 * 123"
  proof -
    have "sum_list (map (\<lambda>c. Suc (length (json_string c))) caps) \<le> sum_list (map (\<lambda>c. 123) caps)"
    proof (rule sum_list_mono)
      fix c assume "c \<in> set caps"
      then have "length c \<le> 20" using caps(1) by (simp add: sendable_def list_all_iff)
      then show "Suc (length (json_string c)) \<le> 123" using json_string_length [of c] by simp
    qed
    also have "\<dots> \<le> 21 * 123" using caps(1) by (simp add: sum_list_triv sendable_def)
    finally show ?thesis using json_items_length [of "map JString caps"] by (simp add: comp_def)
  qed
  moreover have "length (Itoa (q_Protocol q)) \<le> 10" "length (Itoa (q_DurationSeconds q)) \<le> 10"
    unfolding q by (simp, code_simp)+
  moreover have "q_Requested q = caps" by (simp add: q)
  ultimately show "length (pair_request_text q) \<le> 64 * 1024"
    using request_length [of q] labels sizes by simp
qed

lemma save_state_fine: "\<exists>t. save_state None s = (None, t) \<and> entries t = entries s"
proof -
  have "fst (save (sv_store s) None (entries s) (sv_disk s)) = None" by (cases "sv_store s = None \<or> sv_store s = Some []") (auto simp: save_result save_no_store)
  then show ?thesis by (auto simp: save_state_def case_prod_unfold)
qed


definition long_crypto :: crypto where
  "long_crypto = toy_crypto\<lparr>ed25519_sign := (\<lambda>k m. replicate 64 (CHR ''s'')), ed25519_verify := (\<lambda>k m s. True)\<rparr>"

definition sample_identity :: identity where
  "sample_identity = \<lparr>id_public = replicate 32 (CHR ''k''), id_private = ''secret'', id_nonce = replicate 24 (CHR ''n'')\<rparr>"

definition sample_built :: pair_request where
  "sample_built = build_request long_crypto sample_guest sample_identity ''guest'' default_client_flags
     [''system.info'', ''system.network'', ''disk.list'', ''service.list'', ''process.list'', ''files.list'',
      ''files.read'', ''files.download'', ''session.disconnect'']"


end
