(* ===== verification/Windows_Process.thy ===== *)
theory Windows_Process imports Encoding "HOL-Library.Word" begin

text \<open>
  \<^verbatim>\<open>internal/executor/runtime_windows.go\<close>: job objects, which contain the processes of the bridge, and
  pseudo consoles.  The functions of \<^verbatim>\<open>kernel32.dll\<close> are a parameter, a record of state
  transformers over a state of the operating system; \<open>kernel_ok\<close> collects what their documentation
  says of handles and jobs.  Handles and \<^verbatim>\<open>uintptr\<close> are 64-bit words.
\<close>

unbundle bit_operations_syntax

section \<open>The calls of the system\<close>

type_synonym win_handle = "64 word"
type_synonym errno = "32 word"

record io_counters =
  readOperationCount :: "64 word"
  writeOperationCount :: "64 word"
  otherOperationCount :: "64 word"
  readTransferCount :: "64 word"
  writeTransferCount :: "64 word"
  otherTransferCount :: "64 word"

record basic_limits =
  perProcessUserTimeLimit :: "64 word"
  perJobUserTimeLimit :: "64 word"
  limitFlags :: "32 word"
  minimumWorkingSetSize :: "64 word"
  maximumWorkingSetSize :: "64 word"
  activeProcessLimit :: "32 word"
  affinity :: "64 word"
  priorityClass :: "32 word"
  schedulingClass :: "32 word"

record extended_limits =
  basicLimitInformation :: basic_limits
  ioInfo :: io_counters
  processMemoryLimit :: "64 word"
  jobMemoryLimit :: "64 word"
  peakProcessMemoryUsed :: "64 word"
  peakJobMemoryUsed :: "64 word"

definition no_limits :: extended_limits where
  "no_limits =
     \<lparr>basicLimitInformation = \<lparr>perProcessUserTimeLimit = 0, perJobUserTimeLimit = 0, limitFlags = 0,
        minimumWorkingSetSize = 0, maximumWorkingSetSize = 0, activeProcessLimit = 0, affinity = 0,
        priorityClass = 0, schedulingClass = 0\<rparr>,
      ioInfo = \<lparr>readOperationCount = 0, writeOperationCount = 0, otherOperationCount = 0,
        readTransferCount = 0, writeTransferCount = 0, otherTransferCount = 0\<rparr>,
      processMemoryLimit = 0, jobMemoryLimit = 0, peakProcessMemoryUsed = 0, peakJobMemoryUsed = 0\<rparr>"

definition jobObjectExtendedLimitInformation :: "32 word" where "jobObjectExtendedLimitInformation = 9"
definition jobObjectLimitKillOnJobClose :: "32 word" where "jobObjectLimitKillOnJobClose = 0x2000"
definition processTerminate :: "32 word" where "processTerminate = 0x0001"
definition processSetQuota :: "32 word" where "processSetQuota = 0x0100"

text \<open>
  A call gives its result and the last error; \<open>OpenProcess\<close> of \<^verbatim>\<open>syscall\<close> gives a handle or the text
  of its error.  The size of the structure that is passed is that of the 64-bit builds.
\<close>

record 'k kernel32 =
  CreateJobObjectW :: "'k \<Rightarrow> (win_handle \<times> errno) \<times> 'k"
  SetInformationJobObject :: "win_handle \<Rightarrow> 32 word \<Rightarrow> extended_limits \<Rightarrow> nat \<Rightarrow> 'k \<Rightarrow> (64 word \<times> errno) \<times> 'k"
  OpenProcess :: "32 word \<Rightarrow> bool \<Rightarrow> 32 word \<Rightarrow> 'k \<Rightarrow> (string + win_handle) \<times> 'k"
  AssignProcessToJobObject :: "win_handle \<Rightarrow> win_handle \<Rightarrow> 'k \<Rightarrow> (64 word \<times> errno) \<times> 'k"
  TerminateJobObject :: "win_handle \<Rightarrow> 32 word \<Rightarrow> 'k \<Rightarrow> (64 word \<times> errno) \<times> 'k"
  CloseHandle :: "win_handle \<Rightarrow> 'k \<Rightarrow> (64 word \<times> errno) \<times> 'k"
  CreatePipe :: "'k \<Rightarrow> (64 word \<times> errno \<times> win_handle \<times> win_handle) \<times> 'k"
  CreatePseudoConsole :: "64 word \<Rightarrow> win_handle \<Rightarrow> win_handle \<Rightarrow> 'k \<Rightarrow> (64 word \<times> 64 word) \<times> 'k"
  ResizePseudoConsole :: "64 word \<Rightarrow> 64 word \<Rightarrow> 'k \<Rightarrow> 64 word \<times> 'k"
  ClosePseudoConsole :: "64 word \<Rightarrow> 'k \<Rightarrow> 'k"
  error_text :: "errno \<Rightarrow> string"

text \<open>\<^verbatim>\<open>Call\<close> always gives an error value, of number 0 when there was none.\<close>

definition winCallError :: "'k kernel32 \<Rightarrow> string \<Rightarrow> errno \<Rightarrow> string" where
  "winCallError K name e = (if e = 0 then name @ '' failed'' else name @ '': '' @ error_text K e)"

section \<open>Jobs\<close>

text \<open>A pointer that may be nil is an option; \<^verbatim>\<open>Close\<close> changes the job it points to.\<close>

record windowsJob =
  wj_handle :: win_handle

definition job_Close :: "'k kernel32 \<Rightarrow> windowsJob option \<Rightarrow> 'k \<Rightarrow> string option \<times> windowsJob option \<times> 'k" where
  "job_Close K j k =
     (case j of
        None \<Rightarrow> (None, j, k)
      | Some w \<Rightarrow>
          if wj_handle w = 0 then (None, j, k)
          else (case CloseHandle K (wj_handle w) k of
                  ((ok, e), k) \<Rightarrow>
                    (if ok = 0 then Some (winCallError K ''CloseHandle(job)'' e) else None, Some (w\<lparr>wj_handle := 0\<rparr>), k)))"

definition job_limits :: extended_limits where
  "job_limits = no_limits\<lparr>basicLimitInformation := (basicLimitInformation no_limits)\<lparr>limitFlags := jobObjectLimitKillOnJobClose\<rparr>\<rparr>"

definition newWindowsJob :: "'k kernel32 \<Rightarrow> 'k \<Rightarrow> (string + windowsJob) \<times> 'k" where
  "newWindowsJob K k =
     (case CreateJobObjectW K k of
        ((h, e), k) \<Rightarrow>
          if h = 0 then (Inl (winCallError K ''CreateJobObjectW'' e), k)
          else
            let j = \<lparr>wj_handle = h\<rparr>
            in (case SetInformationJobObject K h jobObjectExtendedLimitInformation job_limits 144 k of
                  ((ok, e), k) \<Rightarrow>
                    if ok = 0 then
                      (Inl (winCallError K ''SetInformationJobObject'' e), snd (snd (job_Close K (Some j) k)))
                    else (Inr j, k)))"

definition Assign :: "'k kernel32 \<Rightarrow> windowsJob option \<Rightarrow> int option \<Rightarrow> 'k \<Rightarrow> string option \<times> 'k" where
  "Assign K j process k =
     (case (j, process) of
        (Some w, Some pid) \<Rightarrow>
          if wj_handle w = 0 then (Some ''invalid job or process'', k)
          else
            (case OpenProcess K (processSetQuota OR processTerminate) False (word_of_int pid) k of
               (Inl m, k) \<Rightarrow> (Some (''open process '' @ Itoa pid @ '': '' @ m), k)
             | (Inr h, k) \<Rightarrow>
                 (case AssignProcessToJobObject K (wj_handle w) h k of
                    ((ok, e), k) \<Rightarrow>
                      (if ok = 0 then Some (winCallError K ''AssignProcessToJobObject'' e) else None,
                       snd (CloseHandle K h k))))
      | _ \<Rightarrow> (Some ''invalid job or process'', k))"

definition job_Terminate :: "'k kernel32 \<Rightarrow> windowsJob option \<Rightarrow> 32 word \<Rightarrow> 'k \<Rightarrow> string option \<times> 'k" where
  "job_Terminate K j exitCode k =
     (case j of
        None \<Rightarrow> (Some ''job is closed'', k)
      | Some w \<Rightarrow>
          if wj_handle w = 0 then (Some ''job is closed'', k)
          else (case TerminateJobObject K (wj_handle w) exitCode k of
                  ((ok, e), k) \<Rightarrow> (if ok = 0 then Some (winCallError K ''TerminateJobObject'' e) else None, k)))"

definition newProcessContainer :: "'k kernel32 \<Rightarrow> int option \<Rightarrow> 'k \<Rightarrow> (string + windowsJob) \<times> 'k" where
  "newProcessContainer K process k =
     (case newWindowsJob K k of
        (Inl m, k) \<Rightarrow> (Inl m, k)
      | (Inr j, k) \<Rightarrow>
          (case Assign K (Some j) process k of
             (Some m, k) \<Rightarrow> (Inl m, snd (snd (job_Close K (Some j) k)))
           | (None, k) \<Rightarrow> (Inr j, k)))"

section \<open>Pseudo consoles\<close>

definition packCoord :: "16 word \<Rightarrow> 16 word \<Rightarrow> 64 word" where
  "packCoord cols rows = ucast cols OR push_bit 16 (ucast rows)"

text \<open>A dimension and an \<^verbatim>\<open>HRESULT\<close> are read as signed numbers.\<close>

definition bad_size :: "16 word \<Rightarrow> 16 word \<Rightarrow> bool" where
  "bad_size cols rows \<longleftrightarrow> sint cols \<le> 0 \<or> sint rows \<le> 0"

definition hresult_failed :: "64 word \<Rightarrow> bool" where
  "hresult_failed hr \<longleftrightarrow> sint (ucast hr :: 32 word) < 0"

definition hex32 :: "64 word \<Rightarrow> string" where
  "hex32 hr =
     (let n = unat (ucast hr :: 32 word)
      in hex_encode [char_of (n div 16777216), char_of (n div 65536 mod 256), char_of (n div 256 mod 256), char_of (n mod 256)])"

record pseudoConsole =
  pc_hpc :: "64 word"
  pc_Input :: "win_handle option"
  pc_Output :: "win_handle option"

definition createPipe :: "'k kernel32 \<Rightarrow> 'k \<Rightarrow> (string + win_handle \<times> win_handle) \<times> 'k" where
  "createPipe K k =
     (case CreatePipe K k of
        ((ok, e, r, w), k) \<Rightarrow> (if ok = 0 then Inl (winCallError K ''CreatePipe'' e) else Inr (r, w), k))"

fun close_all :: "'k kernel32 \<Rightarrow> win_handle list \<Rightarrow> 'k \<Rightarrow> 'k" where
  "close_all K [] k = k"
| "close_all K (h # hs) k = close_all K hs (snd (CloseHandle K h k))"

definition newPseudoConsole :: "'k kernel32 \<Rightarrow> 16 word \<Rightarrow> 16 word \<Rightarrow> 'k \<Rightarrow> (string + pseudoConsole) \<times> 'k" where
  "newPseudoConsole K cols rows k =
     (if bad_size cols rows then (Inl ''pseudo console dimensions must be positive'', k)
      else
        (case createPipe K k of
           (Inl m, k) \<Rightarrow> (Inl m, k)
         | (Inr (inRead, inWrite), k) \<Rightarrow>
             (case createPipe K k of
                (Inl m, k) \<Rightarrow> (Inl m, close_all K [inRead, inWrite] k)
              | (Inr (outRead, outWrite), k) \<Rightarrow>
                  (case CreatePseudoConsole K (packCoord cols rows) inRead outWrite k of
                     ((hr, hpc), k) \<Rightarrow>
                       let k = close_all K [inRead, outWrite] k
                       in if hresult_failed hr then
                            (Inl (''CreatePseudoConsole: HRESULT 0x'' @ hex32 hr), close_all K [inWrite, outRead] k)
                          else (Inr \<lparr>pc_hpc = hpc, pc_Input = Some inWrite, pc_Output = Some outRead\<rparr>, k)))))"

definition console_Handle :: "pseudoConsole option \<Rightarrow> 64 word" where
  "console_Handle p = (case p of None \<Rightarrow> 0 | Some c \<Rightarrow> pc_hpc c)"

definition console_Resize :: "'k kernel32 \<Rightarrow> pseudoConsole option \<Rightarrow> 16 word \<Rightarrow> 16 word \<Rightarrow> 'k \<Rightarrow> string option \<times> 'k" where
  "console_Resize K p cols rows k =
     (case p of
        None \<Rightarrow> (Some ''pseudo console is closed'', k)
      | Some c \<Rightarrow>
          if pc_hpc c = 0 then (Some ''pseudo console is closed'', k)
          else if bad_size cols rows then (Some ''pseudo console dimensions must be positive'', k)
          else (case ResizePseudoConsole K (pc_hpc c) (packCoord cols rows) k of
                  (hr, k) \<Rightarrow> (if hresult_failed hr then Some (''ResizePseudoConsole: HRESULT 0x'' @ hex32 hr) else None, k)))"

text \<open>\<^verbatim>\<open>os.File.Close\<close> on the end of a pipe.\<close>

definition close_file :: "'k kernel32 \<Rightarrow> string \<Rightarrow> win_handle option \<Rightarrow> 'k \<Rightarrow> string option \<times> 'k" where
  "close_file K name f k =
     (case f of
        None \<Rightarrow> (None, k)
      | Some h \<Rightarrow>
          (case CloseHandle K h k of
             ((ok, e), k) \<Rightarrow> (if ok = 0 then Some (''close '' @ name @ '': '' @ error_text K e) else None, k)))"

definition console_Close :: "'k kernel32 \<Rightarrow> pseudoConsole option \<Rightarrow> 'k \<Rightarrow> string option \<times> pseudoConsole option \<times> 'k" where
  "console_Close K p k =
     (case p of
        None \<Rightarrow> (None, None, k)
      | Some c \<Rightarrow>
          let k = (if pc_hpc c \<noteq> 0 then ClosePseudoConsole K (pc_hpc c) k else k);
              (e1, k) = close_file K ''conpty-input'' (pc_Input c) k;
              (e2, k) = close_file K ''conpty-output'' (pc_Output c) k
          in (if e1 = None then e2 else e1, Some \<lparr>pc_hpc = 0, pc_Input = None, pc_Output = None\<rparr>, k))"

section \<open>What the system promises\<close>

text \<open>
  What can be observed of a state: the open handles and pseudo consoles of this process, whether a
  job ends its processes when its last handle is closed, the processes assigned to it, and the process
  a handle stands for.
\<close>

record 'k observer =
  handles :: "'k \<Rightarrow> win_handle set"
  consoles :: "'k \<Rightarrow> 64 word set"
  kills :: "'k \<Rightarrow> win_handle \<Rightarrow> bool"
  members :: "'k \<Rightarrow> win_handle \<Rightarrow> 32 word set"
  target :: "'k \<Rightarrow> win_handle \<Rightarrow> 32 word"

definition same_jobs :: "'k observer \<Rightarrow> 'k \<Rightarrow> 'k \<Rightarrow> bool" where
  "same_jobs ob k k' \<longleftrightarrow> kills ob k' = kills ob k \<and> members ob k' = members ob k \<and> target ob k' = target ob k"

definition same_handles :: "'k observer \<Rightarrow> 'k \<Rightarrow> 'k \<Rightarrow> bool" where
  "same_handles ob k k' \<longleftrightarrow> handles ob k' = handles ob k \<and> consoles ob k' = consoles ob k"

text \<open>The documented behaviour of the job functions.\<close>

definition jobs_ok :: "'k kernel32 \<Rightarrow> 'k observer \<Rightarrow> bool" where
  "jobs_ok K ob \<longleftrightarrow>
     (\<forall>k h e k'. CreateJobObjectW K k = ((h, e), k') \<longrightarrow>
        (if h = 0 then same_handles ob k k'
         else h \<notin> handles ob k \<and> handles ob k' = insert h (handles ob k) \<and> consoles ob k' = consoles ob k))
     \<and> (\<forall>k h info ok e k'. SetInformationJobObject K h jobObjectExtendedLimitInformation info 144 k = ((ok, e), k') \<longrightarrow>
        same_handles ob k k'
        \<and> (ok \<noteq> 0 \<longrightarrow> kills ob k' h = (limitFlags (basicLimitInformation info) AND jobObjectLimitKillOnJobClose \<noteq> 0)))
     \<and> (\<forall>k access inherit pid r k'. OpenProcess K access inherit pid k = (r, k') \<longrightarrow>
        (case r of
           Inl m \<Rightarrow> same_handles ob k k' \<and> same_jobs ob k k'
         | Inr h \<Rightarrow> h \<notin> handles ob k \<and> handles ob k' = insert h (handles ob k) \<and> consoles ob k' = consoles ob k
             \<and> kills ob k' = kills ob k \<and> members ob k' = members ob k \<and> target ob k' h = pid))
     \<and> (\<forall>k j h ok e k'. AssignProcessToJobObject K j h k = ((ok, e), k') \<longrightarrow>
        same_handles ob k k' \<and> kills ob k' = kills ob k
        \<and> (ok \<noteq> 0 \<longrightarrow> members ob k' j = insert (target ob k h) (members ob k j)))"

text \<open>Closing a handle that is open succeeds, and leaves what other handles stand for.\<close>

definition close_ok :: "'k kernel32 \<Rightarrow> 'k observer \<Rightarrow> bool" where
  "close_ok K ob \<longleftrightarrow>
     (\<forall>k h ok e k'. CloseHandle K h k = ((ok, e), k') \<and> h \<in> handles ob k \<longrightarrow>
        ok \<noteq> 0 \<and> handles ob k' = handles ob k - {h} \<and> consoles ob k' = consoles ob k
        \<and> (\<forall>x. x \<noteq> h \<longrightarrow> kills ob k' x = kills ob k x \<and> members ob k' x = members ob k x))"

definition consoles_ok :: "'k kernel32 \<Rightarrow> 'k observer \<Rightarrow> bool" where
  "consoles_ok K ob \<longleftrightarrow>
     (\<forall>k ok e r w k'. CreatePipe K k = ((ok, e, r, w), k') \<longrightarrow>
        consoles ob k' = consoles ob k
        \<and> (if ok = 0 then handles ob k' = handles ob k
           else r \<noteq> w \<and> r \<notin> handles ob k \<and> w \<notin> handles ob k \<and> handles ob k' = {r, w} \<union> handles ob k))
     \<and> (\<forall>k coord i p hr hpc k'. CreatePseudoConsole K coord i p k = ((hr, hpc), k') \<longrightarrow>
        handles ob k' = handles ob k
        \<and> (if hresult_failed hr then consoles ob k' = consoles ob k
           else hpc \<noteq> 0 \<and> hpc \<notin> consoles ob k \<and> consoles ob k' = insert hpc (consoles ob k)))
     \<and> (\<forall>k p. handles ob (ClosePseudoConsole K p k) = handles ob k
        \<and> consoles ob (ClosePseudoConsole K p k) = consoles ob k - {p})"

section \<open>Nothing leaks\<close>

lemma CloseHandle_ok:
  assumes "close_ok K ob" and "h \<in> handles ob k"
  shows "fst (fst (CloseHandle K h k)) \<noteq> 0"
    and "handles ob (snd (CloseHandle K h k)) = handles ob k - {h}"
    and "consoles ob (snd (CloseHandle K h k)) = consoles ob k"
    and "x \<noteq> h \<Longrightarrow> kills ob (snd (CloseHandle K h k)) x = kills ob k x"
    and "x \<noteq> h \<Longrightarrow> members ob (snd (CloseHandle K h k)) x = members ob k x"
proof -
  obtain ok e k' where "CloseHandle K h k = ((ok, e), k')" by (metis prod.exhaust)
  then show "fst (fst (CloseHandle K h k)) \<noteq> 0"
    and "handles ob (snd (CloseHandle K h k)) = handles ob k - {h}"
    and "consoles ob (snd (CloseHandle K h k)) = consoles ob k"
    and "x \<noteq> h \<Longrightarrow> kills ob (snd (CloseHandle K h k)) x = kills ob k x"
    and "x \<noteq> h \<Longrightarrow> members ob (snd (CloseHandle K h k)) x = members ob k x"
    using assms unfolding close_ok_def by fastforce+
qed

lemma job_Close_state: "wj_handle w \<noteq> 0 \<Longrightarrow> snd (snd (job_Close K (Some w) k)) = snd (CloseHandle K (wj_handle w) k)"
  by (simp add: job_Close_def split: prod.split)

lemma newWindowsJob_ok:
  assumes "jobs_ok K ob" and "close_ok K ob" and "newWindowsJob K k = (r, k')"
  shows "case r of Inl m \<Rightarrow> same_handles ob k k'
    | Inr j \<Rightarrow> wj_handle j \<noteq> 0 \<and> wj_handle j \<notin> handles ob k \<and> handles ob k' = insert (wj_handle j) (handles ob k)
        \<and> consoles ob k' = consoles ob k \<and> kills ob k' (wj_handle j)"
proof -
  obtain h e k1 where create: "CreateJobObjectW K k = ((h, e), k1)" by (metis prod.exhaust)
  show ?thesis
  proof (cases "h = 0")
    case True
    then show ?thesis using assms create by (auto simp: newWindowsJob_def jobs_ok_def)
  next
    case False
    then have h: "h \<notin> handles ob k" "handles ob k1 = insert h (handles ob k)" "consoles ob k1 = consoles ob k"
      using assms(1) create unfolding jobs_ok_def by (metis (no_types))+
    obtain ok e' k2 where set: "SetInformationJobObject K h jobObjectExtendedLimitInformation job_limits 144 k1 = ((ok, e'), k2)"
      by (metis prod.exhaust)
    then have same: "same_handles ob k1 k2" and kill: "ok \<noteq> 0 \<Longrightarrow> kills ob k2 h"
      using assms(1) unfolding jobs_ok_def
      by (blast, fastforce simp: job_limits_def no_limits_def jobObjectLimitKillOnJobClose_def)
    have "h \<in> handles ob k2" using same h(2) by (simp add: same_handles_def)
    note closed = CloseHandle_ok(2,3) [OF assms(2) this]
    show ?thesis
      using assms(3) create False set same kill h closed job_Close_state [of "\<lparr>wj_handle = h\<rparr>" K k2]
      by (cases "ok = 0") (auto simp: newWindowsJob_def Let_def same_handles_def)
  qed
qed

lemma Assign_ok:
  assumes "jobs_ok K ob" and "close_ok K ob" and "Assign K (Some w) process k = (r, k')" and "wj_handle w \<in> handles ob k"
  shows "same_handles ob k k'"
    and "r = None \<Longrightarrow> \<exists>pid. process = Some pid \<and> kills ob k' (wj_handle w) = kills ob k (wj_handle w)
      \<and> word_of_int pid \<in> members ob k' (wj_handle w)"
proof -
  have "same_handles ob k k' \<and> (r = None \<longrightarrow> (\<exists>pid. process = Some pid \<and> kills ob k' (wj_handle w) = kills ob k (wj_handle w)
      \<and> word_of_int pid \<in> members ob k' (wj_handle w)))"
  proof (cases "process = None \<or> wj_handle w = 0")
    case True
    then show ?thesis using assms(3) by (auto simp: Assign_def same_handles_def split: option.splits)
  next
    case False
    then obtain pid where pid: "process = Some pid" "wj_handle w \<noteq> 0" by auto
    obtain o1 k1 where op: "OpenProcess K (processSetQuota OR processTerminate) False (word_of_int pid) k = (o1, k1)"
      by (metis prod.exhaust)
    have opened: "case o1 of Inl m \<Rightarrow> same_handles ob k k1 \<and> same_jobs ob k k1
         | Inr h \<Rightarrow> h \<notin> handles ob k \<and> handles ob k1 = insert h (handles ob k) \<and> consoles ob k1 = consoles ob k
             \<and> kills ob k1 = kills ob k \<and> members ob k1 = members ob k \<and> target ob k1 h = word_of_int pid"
      using assms(1) op unfolding jobs_ok_def by blast
    show ?thesis
    proof (cases o1)
      case (Inl m)
      then show ?thesis using assms(3) pid op opened by (auto simp: Assign_def)
    next
      case (Inr h)
      obtain ok e k2 where assign: "AssignProcessToJobObject K (wj_handle w) h k1 = ((ok, e), k2)" by (metis prod.exhaust)
      have assigned: "same_handles ob k1 k2" "kills ob k2 = kills ob k1"
        "ok \<noteq> 0 \<Longrightarrow> members ob k2 (wj_handle w) = insert (target ob k1 h) (members ob k1 (wj_handle w))"
        using assms(1) assign unfolding jobs_ok_def by blast+
      have h: "h \<in> handles ob k2" "wj_handle w \<noteq> h" using opened Inr assigned(1) assms(4) by (auto simp: same_handles_def)
      note closed = CloseHandle_ok [OF assms(2) h(1)]
      have "k' = snd (CloseHandle K h k2)" "r = None \<longleftrightarrow> ok \<noteq> 0"
        using assms(3) pid op Inr assign by (auto simp: Assign_def)
      then show ?thesis
        using opened Inr assigned closed(2,3) closed(4,5) [OF h(2)] pid by (auto simp: same_handles_def)
    qed
  qed
  then show "same_handles ob k k'"
    and "r = None \<Longrightarrow> \<exists>pid. process = Some pid \<and> kills ob k' (wj_handle w) = kills ob k (wj_handle w)
      \<and> word_of_int pid \<in> members ob k' (wj_handle w)" by blast+
qed

text \<open>C34 A container holds its process and leaks nothing.  When the container of a new process was made,
  the process is in a job that the system ends with its last handle, and that handle is the only one the
  bridge has gained; when any call on the way fails, every handle opened so far has been closed.\<close>

theorem container_holds_process:
  assumes "jobs_ok K ob" and "close_ok K ob" and "newProcessContainer K process k = (r, k')"
  shows "case r of Inl m \<Rightarrow> same_handles ob k k'
    | Inr j \<Rightarrow> \<exists>pid. process = Some pid \<and> wj_handle j \<notin> handles ob k \<and> handles ob k' = insert (wj_handle j) (handles ob k)
        \<and> consoles ob k' = consoles ob k \<and> kills ob k' (wj_handle j) \<and> word_of_int pid \<in> members ob k' (wj_handle j)"
proof -
  obtain r1 k1 where new: "newWindowsJob K k = (r1, k1)" by (metis prod.exhaust)
  note made = newWindowsJob_ok [OF assms(1,2) new]
  show ?thesis
  proof (cases r1)
    case (Inl m)
    then show ?thesis using assms(3) new made by (auto simp: newProcessContainer_def)
  next
    case (Inr j)
    obtain r2 k2 where assign: "Assign K (Some j) process k1 = (r2, k2)" by (metis prod.exhaust)
    have job: "wj_handle j \<noteq> 0" "wj_handle j \<notin> handles ob k" "handles ob k1 = insert (wj_handle j) (handles ob k)"
      "consoles ob k1 = consoles ob k" "kills ob k1 (wj_handle j)" using made Inr by simp_all
    have there: "wj_handle j \<in> handles ob k1" using job(3) by simp
    note done1 = Assign_ok [OF assms(1,2) assign there]
    have "wj_handle j \<in> handles ob k2" using done1(1) there by (simp add: same_handles_def)
    note closed = CloseHandle_ok(2,3) [OF assms(2) this]
    show ?thesis
    proof (cases r2)
      case None
      then have "r = Inr j" "k' = k2" using assms(3) new Inr assign by (simp_all add: newProcessContainer_def)
      then show ?thesis using done1 None job by (auto simp: same_handles_def)
    next
      case (Some m)
      then have "r = Inl m" "k' = snd (CloseHandle K (wj_handle j) k2)"
        using assms(3) new Inr assign job_Close_state [OF job(1)] by (auto simp: newProcessContainer_def)
      then show ?thesis using closed done1(1) job by (auto simp: same_handles_def)
    qed
  qed
qed

lemma close_all_ok:
  assumes "close_ok K ob"
  shows "distinct hs \<Longrightarrow> set hs \<subseteq> handles ob k \<Longrightarrow>
    handles ob (close_all K hs k) = handles ob k - set hs \<and> consoles ob (close_all K hs k) = consoles ob k"
proof (induction hs arbitrary: k)
  case (Cons h hs)
  then have h: "h \<in> handles ob k" "h \<notin> set hs" by simp_all
  note closed = CloseHandle_ok(2,3) [OF assms h(1)]
  have "set hs \<subseteq> handles ob (snd (CloseHandle K h k))" using Cons.prems h(2) closed(1) by auto
  then show ?case using Cons.IH [of "snd (CloseHandle K h k)"] Cons.prems(1) closed by auto
qed simp

lemma createPipe_ok:
  assumes "consoles_ok K ob" and "createPipe K k = (r, k')"
  shows "consoles ob k' = consoles ob k"
    and "case r of Inl m \<Rightarrow> handles ob k' = handles ob k
      | Inr (i, w) \<Rightarrow> i \<noteq> w \<and> i \<notin> handles ob k \<and> w \<notin> handles ob k \<and> handles ob k' = {i, w} \<union> handles ob k"
proof -
  obtain x k1 where x: "CreatePipe K k = (x, k1)" by (rule prod.exhaust)
  obtain ok e i w where "x = (ok, e, i, w)" by (cases x)
  then have pipe: "CreatePipe K k = ((ok, e, i, w), k1)" using x by simp
  have "consoles ob k1 = consoles ob k
        \<and> (if ok = 0 then handles ob k1 = handles ob k
           else i \<noteq> w \<and> i \<notin> handles ob k \<and> w \<notin> handles ob k \<and> handles ob k1 = {i, w} \<union> handles ob k)"
    by (rule conjunct1 [OF assms(1) [unfolded consoles_ok_def], rule_format, OF pipe])
  then show "consoles ob k' = consoles ob k"
    and "case r of Inl m \<Rightarrow> handles ob k' = handles ob k
      | Inr (i, w) \<Rightarrow> i \<noteq> w \<and> i \<notin> handles ob k \<and> w \<notin> handles ob k \<and> handles ob k' = {i, w} \<union> handles ob k"
    using assms(2) pipe by (auto simp: createPipe_def split: if_splits)
qed

lemma console_Close_ok:
  assumes "consoles_ok K ob" and "close_ok K ob" and "{i, w} \<subseteq> handles ob k" and "i \<noteq> w" and "hpc \<noteq> 0"
    and "p = \<lparr>pc_hpc = hpc, pc_Input = Some i, pc_Output = Some w\<rparr>"
  shows "fst (console_Close K (Some p) k) = None"
    and "handles ob (snd (snd (console_Close K (Some p) k))) = handles ob k - {i, w}"
    and "consoles ob (snd (snd (console_Close K (Some p) k))) = consoles ob k - {hpc}"
proof -
  let ?k1 = "ClosePseudoConsole K hpc k"
  have k1: "handles ob ?k1 = handles ob k" "consoles ob ?k1 = consoles ob k - {hpc}"
    using assms(1) unfolding consoles_ok_def by blast+
  have i: "i \<in> handles ob ?k1" using k1(1) assms(3) by simp
  note first = CloseHandle_ok(1-3) [OF assms(2) i]
  let ?k2 = "snd (CloseHandle K i ?k1)"
  have w: "w \<in> handles ob ?k2" using first(2) k1(1) assms(3,4) by auto
  note second = CloseHandle_ok(1-3) [OF assms(2) w]
  have close: "close_file K name (Some h) q = (None, snd (CloseHandle K h q))" if "fst (fst (CloseHandle K h q)) \<noteq> 0" for name h q
    using that by (auto simp: close_file_def split: prod.split)
  have "console_Close K (Some p) k = (None, Some \<lparr>pc_hpc = 0, pc_Input = None, pc_Output = None\<rparr>, snd (CloseHandle K w ?k2))"
    using assms(5) close [OF first(1)] close [OF second(1)] by (simp add: console_Close_def assms(6))
  then show "fst (console_Close K (Some p) k) = None"
    and "handles ob (snd (snd (console_Close K (Some p) k))) = handles ob k - {i, w}"
    and "consoles ob (snd (snd (console_Close K (Some p) k))) = consoles ob k - {hpc}"
    using first second k1 by auto
qed

text \<open>The console itself, once both pipes \<open>a\<close>, \<open>b\<close> and \<open>c\<close>, \<open>d\<close> are there.\<close>

lemma console_created:
  assumes "consoles_ok K ob" and "close_ok K ob" and "CreatePseudoConsole K coord a d k2 = ((hr, hpc), k3)"
    and "distinct [a, b, c, d]" and "set [a, b, c, d] \<inter> handles ob k = {}" and "handles ob k2 = set [a, b, c, d] \<union> handles ob k"
    and "consoles ob k2 = consoles ob k" and "p = \<lparr>pc_hpc = hpc, pc_Input = Some b, pc_Output = Some c\<rparr>"
    and "k4 = close_all K [a, d] k3"
  shows "hresult_failed hr \<Longrightarrow> same_handles ob k (close_all K [b, c] k4)"
    and "\<not> hresult_failed hr \<Longrightarrow> hpc \<noteq> 0 \<and> consoles ob k4 = insert hpc (consoles ob k) \<and> handles ob k4 = {b, c} \<union> handles ob k
      \<and> fst (console_Close K (Some p) k4) = None \<and> same_handles ob k (snd (snd (console_Close K (Some p) k4)))"
proof -
  have made: "handles ob k3 = handles ob k2" "if hresult_failed hr then consoles ob k3 = consoles ob k2
       else hpc \<noteq> 0 \<and> hpc \<notin> consoles ob k2 \<and> consoles ob k3 = insert hpc (consoles ob k2)"
    using assms(1,3) unfolding consoles_ok_def by blast+
  have ends: "distinct [a, d]" "set [a, d] \<subseteq> handles ob k3" using assms(4,6) made(1) by auto
  have k4: "handles ob k4 = {b, c} \<union> handles ob k" "consoles ob k4 = consoles ob k3"
    using close_all_ok [OF assms(2) ends] assms(4-6,9) made(1) by auto
  have own: "{b, c} \<subseteq> handles ob k4" "{b, c} \<inter> handles ob k = {}" "b \<noteq> c" using k4(1) assms(4,5) by auto
  show "same_handles ob k (close_all K [b, c] k4)" if "hresult_failed hr"
    using close_all_ok [OF assms(2), of "[b, c]" k4] own k4 made(2) that assms(7) by (auto simp: same_handles_def)
  show "hpc \<noteq> 0 \<and> consoles ob k4 = insert hpc (consoles ob k) \<and> handles ob k4 = {b, c} \<union> handles ob k
      \<and> fst (console_Close K (Some p) k4) = None \<and> same_handles ob k (snd (snd (console_Close K (Some p) k4)))"
    if "\<not> hresult_failed hr"
  proof -
    have hpc: "hpc \<noteq> 0" "hpc \<notin> consoles ob k" "consoles ob k4 = insert hpc (consoles ob k)"
      using made(2) that k4(2) assms(7) by simp_all
    note closed = console_Close_ok [OF assms(1,2) own(1,3) hpc(1) assms(8)]
    have "same_handles ob k (snd (snd (console_Close K (Some p) k4)))"
      using closed k4(1) hpc own(2) by (auto simp: same_handles_def)
    then show ?thesis using hpc k4(1) closed(1) by simp
  qed
qed

text \<open>C39 A pseudo console leaks nothing.  A new one owns its console and one end of each of its two pipes;
  the other ends are closed already, and closing it gives all of it back.  When any call fails, and
  when a dimension is not positive, nothing stays open.\<close>

theorem pseudo_console_leaks_nothing:
  assumes "consoles_ok K ob" and "close_ok K ob" and "newPseudoConsole K cols rows k = (r, k')"
  shows "case r of Inl m \<Rightarrow> same_handles ob k k'
    | Inr p \<Rightarrow> 0 < sint cols \<and> 0 < sint rows \<and> pc_hpc p \<noteq> 0 \<and> consoles ob k' = insert (pc_hpc p) (consoles ob k)
        \<and> (\<exists>i w. pc_Input p = Some i \<and> pc_Output p = Some w \<and> i \<noteq> w \<and> handles ob k' = {i, w} \<union> handles ob k)
        \<and> fst (console_Close K (Some p) k') = None
        \<and> same_handles ob k (snd (snd (console_Close K (Some p) k')))"
proof -
  obtain r1 k1 where p1: "createPipe K k = (r1, k1)" by (metis prod.exhaust)
  obtain r2 k2 where p2: "createPipe K k1 = (r2, k2)" by (metis prod.exhaust)
  note one = createPipe_ok [OF assms(1) p1] and two = createPipe_ok [OF assms(1) p2]
  consider (bad) "bad_size cols rows" | (first) m where "\<not> bad_size cols rows" "r1 = Inl m"
    | (second) a b m where "\<not> bad_size cols rows" "r1 = Inr (a, b)" "r2 = Inl m"
    | (both) a b c d where "\<not> bad_size cols rows" "r1 = Inr (a, b)" "r2 = Inr (c, d)"
    by (cases r1; cases r2) auto
  then show ?thesis
  proof cases
    case bad
    then show ?thesis using assms(3) by (auto simp: newPseudoConsole_def same_handles_def)
  next
    case (first m)
    then show ?thesis using assms(3) p1 one by (auto simp: newPseudoConsole_def same_handles_def)
  next
    case (second a b m)
    then have "same_handles ob k (close_all K [a, b] k2)"
      using close_all_ok [OF assms(2), of "[a, b]" k2] one two by (auto simp: same_handles_def)
    then show ?thesis using assms(3) p1 p2 second by (auto simp: newPseudoConsole_def)
  next
    case (both a b c d)
    obtain hr hpc k3 where con: "CreatePseudoConsole K (packCoord cols rows) a d k2 = ((hr, hpc), k3)" by (metis prod.exhaust)
    have four: "distinct [a, b, c, d]" "set [a, b, c, d] \<inter> handles ob k = {}" "handles ob k2 = set [a, b, c, d] \<union> handles ob k"
      "consoles ob k2 = consoles ob k"
      using one two both by auto
    note made = console_created [OF assms(1,2) con four refl refl]
    show ?thesis
      using assms(3) p1 p2 both con made four(1) by (cases "hresult_failed hr") (auto simp: newPseudoConsole_def Let_def bad_size_def)
  qed
qed

text \<open>The two dimensions packed into one word can be read back, and fill its lower half.\<close>

lemma packCoord_back:
  "ucast (packCoord cols rows) = cols" "ucast (drop_bit 16 (packCoord cols rows)) = rows" "packCoord cols rows < 2 ^ 32"
proof -
  show "ucast (packCoord cols rows) = cols" "ucast (drop_bit 16 (packCoord cols rows)) = rows"
    by (rule bit_word_eqI; auto simp: packCoord_def bit_simps dest: bit_imp_le_length)+
  have "take_bit 32 (packCoord cols rows) = packCoord cols rows"
    by (rule bit_word_eqI) (auto simp: packCoord_def bit_simps dest: bit_imp_le_length)
  then have "unat (packCoord cols rows) = take_bit 32 (unat (packCoord cols rows))" by (metis unsigned_take_bit_eq)
  also have "\<dots> < 2 ^ 32" by (rule take_bit_nat_less_exp)
  finally show "packCoord cols rows < 2 ^ 32" by (simp add: word_less_nat_alt)
qed

section \<open>An example system\<close>

text \<open>A small system that keeps what is documented: it has one job, one process handle and two pipes.\<close>

record example_system =
  ex_handles :: "win_handle set"
  ex_consoles :: "64 word set"
  ex_kills :: "win_handle \<Rightarrow> bool"
  ex_members :: "win_handle \<Rightarrow> 32 word set"
  ex_target :: "win_handle \<Rightarrow> 32 word"

definition example_kernel :: "example_system kernel32" where
  "example_kernel =
     \<lparr>CreateJobObjectW = (\<lambda>s. if 1 \<in> ex_handles s then ((0, 8), s) else ((1, 0), s\<lparr>ex_handles := insert 1 (ex_handles s)\<rparr>)),
      SetInformationJobObject = (\<lambda>h c info n s. ((1, 0), s\<lparr>ex_kills := (ex_kills s)
        (h := limitFlags (basicLimitInformation info) AND jobObjectLimitKillOnJobClose \<noteq> 0)\<rparr>)),
      OpenProcess = (\<lambda>a i pid s. if 2 \<in> ex_handles s then (Inl ''busy'', s)
        else (Inr 2, s\<lparr>ex_handles := insert 2 (ex_handles s), ex_target := (ex_target s)(2 := pid)\<rparr>)),
      AssignProcessToJobObject = (\<lambda>j h s. ((1, 0), s\<lparr>ex_members := (ex_members s)(j := insert (ex_target s h) (ex_members s j))\<rparr>)),
      TerminateJobObject = (\<lambda>j c s. ((1, 0), s)),
      CloseHandle = (\<lambda>h s. if h \<in> ex_handles s then ((1, 0), s\<lparr>ex_handles := ex_handles s - {h}\<rparr>) else ((0, 6), s)),
      CreatePipe = (\<lambda>s. if 3 \<notin> ex_handles s \<and> 4 \<notin> ex_handles s then ((1, 0, 3, 4), s\<lparr>ex_handles := {3, 4} \<union> ex_handles s\<rparr>)
        else if 5 \<notin> ex_handles s \<and> 6 \<notin> ex_handles s then ((1, 0, 5, 6), s\<lparr>ex_handles := {5, 6} \<union> ex_handles s\<rparr>)
        else ((0, 4, 0, 0), s)),
      CreatePseudoConsole = (\<lambda>c i w s. if 7 \<in> ex_consoles s then ((0x80004005, 0), s)
        else ((0, 7), s\<lparr>ex_consoles := insert 7 (ex_consoles s)\<rparr>)),
      ResizePseudoConsole = (\<lambda>p c s. (0, s)),
      ClosePseudoConsole = (\<lambda>p s. s\<lparr>ex_consoles := ex_consoles s - {p}\<rparr>),
      error_text = (\<lambda>e. ''error'')\<rparr>"

definition example_observer :: "example_system observer" where
  "example_observer = \<lparr>handles = ex_handles, consoles = ex_consoles, kills = ex_kills, members = ex_members, target = ex_target\<rparr>"

definition quiet_system :: example_system where
  "quiet_system = \<lparr>ex_handles = {}, ex_consoles = {}, ex_kills = (\<lambda>h. False), ex_members = (\<lambda>h. {}), ex_target = (\<lambda>h. 0)\<rparr>"

lemma example_jobs_ok: "jobs_ok example_kernel example_observer"
  unfolding jobs_ok_def
  by (intro conjI allI impI)
     (auto simp: example_kernel_def example_observer_def same_handles_def same_jobs_def split: if_splits)

lemma example_close_ok: "close_ok example_kernel example_observer"
  by (auto simp: close_ok_def example_kernel_def example_observer_def split: if_splits)

lemma example_consoles_ok: "consoles_ok example_kernel example_observer"
proof -
  have fine: "\<not> hresult_failed 0" "hresult_failed 0x80004005" by (simp_all add: hresult_failed_def)
  show ?thesis
    unfolding consoles_ok_def
    by (intro conjI allI impI) (auto simp: example_kernel_def example_observer_def fine split: if_splits)
qed

theorem container_holds_process_witness:
  "\<exists>j s. newProcessContainer example_kernel (Some 42) quiet_system = (Inr j, s)
     \<and> ex_kills s (wj_handle j) \<and> 42 \<in> ex_members s (wj_handle j) \<and> ex_handles s = {wj_handle j}"
proof -
  obtain j s where run: "newProcessContainer example_kernel (Some 42) quiet_system = (Inr j, s)"
    by (simp add: newProcessContainer_def newWindowsJob_def Assign_def example_kernel_def quiet_system_def Let_def)
  show ?thesis
    using container_holds_process [OF example_jobs_ok example_close_ok run] run
    by (auto simp: example_observer_def quiet_system_def)
qed

theorem pseudo_console_leaks_nothing_witness:
  "\<exists>p s. newPseudoConsole example_kernel 80 25 quiet_system = (Inr p, s) \<and> ex_consoles s = {pc_hpc p}
     \<and> ex_handles (snd (snd (console_Close example_kernel (Some p) s))) = {}"
proof -
  have "\<not> bad_size 80 25" "\<not> hresult_failed 0" by (simp_all add: bad_size_def hresult_failed_def)
  then obtain p s where run: "newPseudoConsole example_kernel 80 25 quiet_system = (Inr p, s)"
    by (simp add: newPseudoConsole_def createPipe_def example_kernel_def quiet_system_def Let_def)
  show ?thesis
    using pseudo_console_leaks_nothing [OF example_consoles_ok example_close_ok run] run
    by (auto simp: example_observer_def quiet_system_def same_handles_def)
qed

end
