(* ===== verification/Spec2Isabelle.thy ===== *)
theory Spec2Isabelle imports Executor_Paging Mcp_System Portable_Drive Guest_System Guest_Pairing Windows_Process begin

text \<open>
  A verification development of the OpenClaw Portable Bridge: a broker through which an
  operator, or an agent of the operator, sends commands to a guest machine that somebody has
  joined to it from a portable drive.  Definitions are translated from the Go sources under
  \<^verbatim>\<open>src/\<close>; every theorem is about these definitions.

  \<^bold>\<open>The program and its parts\<close>

  A release tool signs the payloads and the configuration of the drive.  The launcher on the
  drive (\<^verbatim>\<open>cmd/usb-launcher\<close>) checks both, asks the user for a profile and runs the verified
  client (\<^verbatim>\<open>cmd/bridge-client\<close>), which sends a signed pairing request to the broker
  (\<^verbatim>\<open>cmd/pairing-broker\<close>).  The operator compares the code and approves, with the command line
  (\<^verbatim>\<open>cmd/bridge-operator\<close>) or through the MCP server (\<^verbatim>\<open>cmd/bridge-mcp\<close>).  Then the operator
  enqueues commands; the client polls, acknowledges, executes (\<^verbatim>\<open>internal/executor\<close>) and
  reports.  The broker keeps a table of sessions under one mutex and saves it to a state file.

  \<^bold>\<open>Theories and what they model\<close>

  Go and its library, as far as the program uses them:
  \<^item> Prelude: byte strings, times (nanoseconds since year 1), 64-bit integers, outcomes; the
    collections of rewrite rules and generic lemmas that the components share.
  \<^item> Go_Text, Utf8, Encoding: \<^verbatim>\<open>strings\<close>, \<^verbatim>\<open>strconv\<close>, \<^verbatim>\<open>unicode/utf8\<close>, hex and the base64 codecs.
    The locale \<open>codec\<close> is their contract, interpreted on each of them.
  \<^item> Json, Json_Text, Json_Raw, Json_Any, Json_Valid: \<^verbatim>\<open>encoding/json\<close>: quoting and compaction, the
    reader as a machine over tokens, raw members, values without a type; a value written is read
    back, and every text that is read is valid UTF-8.
  \<^item> Go_Time, Time_Text, Go_Number: dates and times as text, \<^verbatim>\<open>float64\<close>, \<^verbatim>\<open>ParseInt\<close>, \<^verbatim>\<open>ParseDuration\<close>.
  \<^item> Paths, Host_Files, Csv: \<^verbatim>\<open>path/filepath\<close> on Unix, the guest's tree of files with symbolic
    links, and the CSV reader.
  \<^item> Paging: the contract \<open>pager\<close> of an answer in pages and of the client that goes on asking.

  Shared packages:
  \<^item> Protocol, Wire (\<^verbatim>\<open>internal/protocol\<close>): the messages as records, the canonical bytes a guest
    signs, the JSON texts and the strict decoders of the messages.
  \<^item> Auth (\<^verbatim>\<open>internal/auth\<close>): tokens, hashes, comparison code, signatures.
  \<^item> Release (\<^verbatim>\<open>internal/release\<close>) and Release_Tool (\<^verbatim>\<open>cmd/release-tool\<close>): versions, the signed
    manifest, and what the tool signs is what the launcher loads.

  The broker (\<^verbatim>\<open>cmd/pairing-broker\<close>, with \<^verbatim>\<open>internal/audit\<close>):
  \<^item> Broker_State (\<^verbatim>\<open>state.go\<close>): the entries (\<open>pending\<close>, \<open>commandState\<close>), \<open>save\<close> as a sequence of
    file operations that may fail one by one, the recovery at start.  The locale \<open>journal\<close>
    is the contract of a durable copy.
  \<^item> Broker_Server: \<open>server\<close>, the table as references into a heap, because handlers keep a pointer
    to an entry while the mutex is free; \<^verbatim>\<open>limitedJSON\<close>, responses, the audit log.
  \<^item> Broker_Pairing: \<^verbatim>\<open>pair\<close>, \<^verbatim>\<open>allowPair\<close>, \<^verbatim>\<open>status\<close>, \<^verbatim>\<open>approve\<close>, \<^verbatim>\<open>adminReject\<close> and the checks of a request.
  \<^item> Broker_Queue, Broker_Commands: \<^verbatim>\<open>enqueue\<close>, \<^verbatim>\<open>poll\<close>, \<^verbatim>\<open>ack\<close>, \<^verbatim>\<open>result\<close>, \<^verbatim>\<open>revoke\<close>, \<^verbatim>\<open>adminRevoke\<close>,
    \<^verbatim>\<open>janitor\<close>, each split where the mutex is released.
  \<^item> Broker_Views (also \<^verbatim>\<open>result_view.go\<close>): the listings and the bounded view of results.
  \<^item> Broker_Contract: every handler changes at most one entry, by an update that keeps it
    well-formed and only moves it forward (locale \<open>entry_update\<close>, interpreted on each update).
  \<^item> Broker_System: start-up, the step relation (one locked section, a restart from the state file
    after a crash) and the invariant of all reachable states.
  \<^item> Broker_Http: the routes, the bodies and the JSON answers; the broker as a network.

  The guest (\<^verbatim>\<open>internal/executor\<close>, \<^verbatim>\<open>cmd/bridge-client\<close>, \<^verbatim>\<open>cmd/usb-launcher\<close>):
  \<^item> Executor_Output: captured output with its limit and its clean-up (also \<^verbatim>\<open>output_windows.go\<close>).
  \<^item> Executor_Core: the executor's state, \<^verbatim>\<open>resolve\<close>, parameters, programs that are run and waited for.
  \<^item> Executor_Files, Executor_Transfers: listing, reading, writing, transfers in chunks.
  \<^item> Executor_Inventory, Executor_Jobs: processes and services; asynchronous jobs, with the
    goroutines that wait for processes as steps between the commands (also \<^verbatim>\<open>runtime_other.go\<close>).
  \<^item> Executor, Executor_Paging: the dispatch of commands and \<^verbatim>\<open>Close\<close>; the four paged commands as
    interpretations of \<open>pager\<close>.
  \<^item> Windows_Process (\<^verbatim>\<open>runtime_windows.go\<close>): job objects and pseudo consoles over \<^verbatim>\<open>kernel32.dll\<close>, with
    handles and coordinates as machine words.  The commands of Executor_Jobs use the container of the
    Unix builds.
  \<^item> Guest_Client: flags, pairing, \<^verbatim>\<open>pollResilient\<close>, the session loop and its events.
  \<^item> Launcher: everything the launcher decides before the client starts.

  The operator's side (\<^verbatim>\<open>cmd/bridge-operator\<close>, \<^verbatim>\<open>cmd/bridge-mcp\<close>):
  \<^item> Http_Client, Operator, Mcp: configuration, queries, flags and requests of the command line;
    the JSON-RPC loop and the tools of the MCP server.

  Compositions:
  \<^item> Guest_System: a guest's session against the broker with other requests, lost messages, crashes
    and restarts in between (\<open>answered\<close>); the routes of Broker_Http, handled one after the other, are
    such a system (\<open>broker_network_answered\<close>).
  \<^item> Guest_Pairing: the client's pairing request against the broker's checks.
  \<^item> Operator_System, Mcp_System: the operator's programs against the broker.
  \<^item> Portable_Drive: release tool, launcher and client.
\<close>

text \<open>
  \<^bold>\<open>What the theorems show\<close>

  \<^item> \<open>At most once.\<close>  In every reachable state of the broker no command of a session has two positive
    acknowledgements or two accepted results; the guest executes only what was acknowledged
    to it; together, what a guest executes are different entries of the broker's record.
  \<^item> \<open>Authority.\<close>  A revoked session never authenticates again; only the admin token changes the
    table from outside; an agent behind the MCP server reaches only the bounded view of results
    and the fixed list of capabilities; an approval is never longer than what was asked for.
  \<^item> \<open>Durability.\<close>  The state file is replaced atomically, read back as it was, and the queue after a
    restart is exactly what had not been started.
  \<^item> \<open>Functions and errors.\<close>  The effect of each handler on every branch, the limits on rates, queues
    and results, polling that ends, and the branches where a failure leaves a trace.
  \<^item> \<open>Guest.\<close>  Resolved paths stay inside the approved roots; uploads and chunks arrive; pages cover
    everything; a session of the information profile changes nothing, if the broker keeps to it; on Windows a
    container holds its process and no failing call leaks a handle.
  \<^item> \<open>Trust chain.\<close>  What the tool signs the launcher loads; the launcher starts only signed
    payloads; the user's choice reaches the client; the client's request is accepted.
  Three theorems show what the code does where it departs from its intent: a failed save strands
  a command, chunks can leave the approved roots, and a stop can miss a process.

  \<^bold>\<open>Parameters\<close>

  Code that is not under \<^verbatim>\<open>src/\<close> is an argument: SHA-256 and Ed25519 (the record \<open>crypto\<close>), the XML
  decoder, the functions of \<^verbatim>\<open>kernel32.dll\<close>, the table of lower-case letters, \<^verbatim>\<open>strconv.Quote\<close>, what programs on the guest print and
  how long they run (\<open>guest\<close>), the network (a state transformer), and for each handler its clock
  readings, random bytes, the order in which maps are visited and the failure of its save.
  Hypotheses on them: a signature scheme accepts its own signatures, request ids are fresh, and the
  handles of the Windows calls behave as documented (\<open>jobs_ok\<close>, \<open>close_ok\<close>, \<open>consoles_ok\<close>).

  \<^bold>\<open>Bounds and fuel\<close>

  Loops are structural or have a measure.  At most 10000 open brackets in a JSON text and at most
  255 or 40 symbolic links on a path are the limits of the library and of the system, as results of
  the model.  The launcher looks at four ancestors, lines of the MCP server have 4 MiB, as in the
  code.  Loops that wait (\<^verbatim>\<open>poll\<close>, \<^verbatim>\<open>pollResilient\<close>, the session) run over a list of times or rounds;
  the termination theorems say how long a list always suffices.

  \<^bold>\<open>Restrictions\<close>

  Times are UTC; paths are those of the Unix builds; the strict form of RFC 3339 is read, which is
  the only one written here; the two floating-point zeros are one; requests that the library's router
  would redirect count as not found; the size of a body is the number of bytes read.

  \<^bold>\<open>Not modelled\<close>

  \<^item> \<^verbatim>\<open>scripts/generate-platform-icons.go\<close>: draws icons at build time.
  \<^item> The agent plugin, shell scripts, service files and packaging: no Go code of the system.
  \<^item> The flags of the broker, its HTTP server with its time-outs, the terminal output of the
    programs and their exit status: library calls and pure input and output.
\<close>

end
